(* ===== verification/Prelude.thy ===== *)
theory Prelude
  imports Main "HOL-Library.Word"
begin

text \<open>
  What the components share.

  \<^item> \<^emph>\<open>Faults.\<close> C leaves an array access outside its bounds, the use of an object that was
    never written and a read through a null pointer without a meaning; a HOL function has to
    return something. The models return a sum whose left side is a \<open>cfault\<close>: the execution has
    left the language (\<open>OutOfBounds\<close>, \<open>Indeterminate\<close>, \<open>NullPointer\<close>), or the fuel of the model
    was too small (\<open>OutOfFuel\<close>), which is never a behaviour of the code and is excluded by a
    theorem wherever fuel is used. \<open>cbind\<close> sequences two such computations.
  \<^item> \<^emph>\<open>Arrays.\<close> \<open>aget\<close> and \<open>aset\<close> read and write a C array (a list of fixed length) at an
    \<open>int\<close> index and fault outside its bounds.
  \<^item> \<^emph>\<open>C strings.\<close> \<open>strtok\<close> and \<open>atoi\<close> of the C library, as used by the argument and
    instruction parsers of the projects. A C string is the list of its characters before the
    terminating null character.
  \<^item> \<^emph>\<open>Error numbers.\<close> The values of \<^verbatim>\<open>errno\<close> the kernel's system calls return negated.
\<close>

named_theorems cres_simps \<open>evaluation of faulting computations\<close>
named_theorems array_simps \<open>reads and writes of C arrays\<close>

section \<open>Faulting computations\<close>

datatype cfault = OutOfBounds | Indeterminate | NullPointer | OutOfFuel

type_synonym 'a cres = "cfault + 'a"

definition cbind :: "'e + 'a \<Rightarrow> ('a \<Rightarrow> 'e + 'b) \<Rightarrow> 'e + 'b" where
  "cbind m f = (case m of Inl e \<Rightarrow> Inl e | Inr x \<Rightarrow> f x)"

lemma cbind_simps [simp, cres_simps]:
  "cbind (Inl e) f = Inl e"
  "cbind (Inr x) f = f x"
  by (simp_all add: cbind_def)

lemma cbind_Inr_iff: "cbind m f = Inr y \<longleftrightarrow> (\<exists>x. m = Inr x \<and> f x = Inr y)"
  by (cases m) auto

lemma cbind_InrE [elim!]:
  assumes "cbind m f = Inr y"
  obtains x where "m = Inr x" and "f x = Inr y"
  using assms by (auto simp: cbind_Inr_iff)

lemma cbind_Inl_iff: "cbind m f = Inl e \<longleftrightarrow> m = Inl e \<or> (\<exists>x. m = Inr x \<and> f x = Inl e)"
  by (cases m) auto

lemma cbind_cong [fundef_cong]:
  "m = m' \<Longrightarrow> (\<And>x. m' = Inr x \<Longrightarrow> f x = f' x) \<Longrightarrow> cbind m f = cbind m' f'"
  by (cases m') auto

text \<open>A computation that uses no fuel never reports the lack of it.\<close>

definition no_fuel_fault :: "'a cres \<Rightarrow> bool" where
  "no_fuel_fault r \<longleftrightarrow> r \<noteq> Inl OutOfFuel"

lemma no_fuel_fault_Inr [simp]: "no_fuel_fault (Inr x)"
  by (simp add: no_fuel_fault_def)

lemma no_fuel_fault_cbind [intro]:
  "no_fuel_fault m \<Longrightarrow> (\<And>x. m = Inr x \<Longrightarrow> no_fuel_fault (f x)) \<Longrightarrow> no_fuel_fault (cbind m f)"
  by (cases m) (auto simp: no_fuel_fault_def)

section \<open>C arrays\<close>

definition in_bounds :: "'a list \<Rightarrow> int \<Rightarrow> bool" where
  "in_bounds xs i \<longleftrightarrow> 0 \<le> i \<and> i < int (length xs)"

definition aget :: "'a list \<Rightarrow> int \<Rightarrow> 'a cres" where
  "aget xs i = (if in_bounds xs i then Inr (xs ! nat i) else Inl OutOfBounds)"

definition aset :: "'a list \<Rightarrow> int \<Rightarrow> 'a \<Rightarrow> 'a list cres" where
  "aset xs i v = (if in_bounds xs i then Inr (xs[nat i := v]) else Inl OutOfBounds)"

lemma in_bounds_iff: "in_bounds xs i \<longleftrightarrow> 0 \<le> i \<and> nat i < length xs"
  by (auto simp: in_bounds_def)

lemma aget_Inr_iff: "aget xs i = Inr v \<longleftrightarrow> in_bounds xs i \<and> xs ! nat i = v"
  by (auto simp: aget_def)

lemma aget_Inl_iff: "aget xs i = Inl e \<longleftrightarrow> \<not> in_bounds xs i \<and> e = OutOfBounds"
  by (auto simp: aget_def)

lemma aset_Inr_iff: "aset xs i v = Inr ys \<longleftrightarrow> in_bounds xs i \<and> ys = xs[nat i := v]"
  by (auto simp: aset_def)

lemma aget_in_bounds [array_simps]: "in_bounds xs i \<Longrightarrow> aget xs i = Inr (xs ! nat i)"
  by (simp add: aget_def)

lemma aset_in_bounds [array_simps]: "in_bounds xs i \<Longrightarrow> aset xs i v = Inr (xs[nat i := v])"
  by (simp add: aset_def)

lemma aset_length: "aset xs i v = Inr ys \<Longrightarrow> length ys = length xs"
  by (auto simp: aset_def split: if_splits)

lemma in_bounds_list_update [simp]: "in_bounds (xs[j := v]) i = in_bounds xs i"
  by (simp add: in_bounds_def)

lemma no_fuel_fault_aget [simp, intro]: "no_fuel_fault (aget xs i)"
  by (simp add: no_fuel_fault_def aget_def)

lemma no_fuel_fault_aset [simp, intro]: "no_fuel_fault (aset xs i v)"
  by (simp add: no_fuel_fault_def aset_def)

text \<open>What an array holds after a write: the interface the components use.\<close>

lemma aget_aset_same: "aset xs i v = Inr ys \<Longrightarrow> aget ys i = Inr v"
  by (auto simp: aset_def aget_def in_bounds_def nat_less_iff split: if_splits)

lemma aget_aset_other: "aset xs i v = Inr ys \<Longrightarrow> i \<noteq> j \<Longrightarrow> aget ys j = aget xs j"
  by (auto simp: aset_def aget_def in_bounds_def split: if_splits)

section \<open>Lists\<close>

lemma upt_4: "[0..<4] = [0, 1, 2, 3::nat]"
  by (simp add: upt_rec)

lemma less_4_cases:
  assumes "i < (4::nat)"
  obtains "i = 0" | "i = 1" | "i = 2" | "i = 3"
  using assms by linarith

lemma int_lt_4_cases:
  assumes "0 \<le> (i::int)" "i \<le> 3"
  obtains "i = 0" | "i = 1" | "i = 2" | "i = 3"
  using assms by linarith

text \<open>The overwrite of a block of a list, as a struct assignment does.\<close>

definition blit :: "'a list \<Rightarrow> nat \<Rightarrow> 'a list \<Rightarrow> 'a list" where
  "blit xs a ys = take a xs @ ys @ drop (a + length ys) xs"

lemma length_blit [simp]: "a + length ys \<le> length xs \<Longrightarrow> length (blit xs a ys) = length xs"
  by (simp add: blit_def)

lemma nth_blit:
  "a + length ys \<le> length xs \<Longrightarrow> i < length xs \<Longrightarrow>
   blit xs a ys ! i = (if a \<le> i \<and> i < a + length ys then ys ! (i - a) else xs ! i)"
  by (auto simp: blit_def nth_append min_def)

lemma take_drop_blit_same:
  "a + length ys \<le> length xs \<Longrightarrow> take (length ys) (drop a (blit xs a ys)) = ys"
  by (simp add: blit_def)

text \<open>One element of a list changes.\<close>

lemma ball_update: "\<forall>x \<in> set xs. P x \<Longrightarrow> P y \<Longrightarrow> \<forall>x \<in> set (xs[i := y]). P x"
  by (auto dest!: subsetD [OF set_update_subset_insert])

lemma sum_list_int_update:
  fixes f :: "'a \<Rightarrow> int"
  shows "i < length xs \<Longrightarrow> sum_list (map f (xs[i := y])) = sum_list (map f xs) + f y - f (xs ! i)"
proof (induction xs arbitrary: i)
  case (Cons x xs)
  then show ?case by (cases i) auto
qed simp

section \<open>C strings\<close>

definition is_space :: "char \<Rightarrow> bool" where
  "is_space c \<longleftrightarrow> c = CHR '' '' \<or> c = CHR 0x09 \<or> c = CHR 0x0A \<or> c = CHR 0x0B \<or> c = CHR 0x0C \<or> c = CHR 0x0D"

definition is_digit :: "char \<Rightarrow> bool" where
  "is_digit c \<longleftrightarrow> 48 \<le> (of_char c :: nat) \<and> (of_char c :: nat) \<le> 57"

definition digits_value :: "string \<Rightarrow> int" where
  "digits_value ds = foldl (\<lambda>v c. 10 * v + (of_char c - 48)) 0 ds"

text \<open>
  \<open>atoi\<close>: leading white space, an optional sign, the longest run of digits. C leaves a value
  outside \<open>int\<close> undefined; the 32-bit GNU library the Makefiles target saturates.
\<close>

definition INT_MAX :: int where "INT_MAX = 2147483647"
definition INT_MIN :: int where "INT_MIN = - 2147483648"

definition atoi :: "string \<Rightarrow> int" where
  "atoi s =
     (let s1 = dropWhile is_space s;
          neg = (case s1 of c # _ \<Rightarrow> c = CHR ''-'' | [] \<Rightarrow> False);
          s2 = (case s1 of c # r \<Rightarrow> if c = CHR ''-'' \<or> c = CHR ''+'' then r else s1 | [] \<Rightarrow> []);
          v = digits_value (takeWhile is_digit s2)
      in max INT_MIN (min INT_MAX (if neg then - v else v)))"

lemma atoi_bounds: "INT_MIN \<le> atoi s \<and> atoi s \<le> INT_MAX"
  by (simp add: atoi_def Let_def INT_MIN_def INT_MAX_def)

text \<open>
  \<open>strtok\<close> with one delimiter character: it skips delimiters, then returns the characters up to
  the next one and keeps what follows it for the next call; \<open>None\<close> is the null pointer.
\<close>

definition strtok :: "char \<Rightarrow> string \<Rightarrow> (string \<times> string) option" where
  "strtok d s =
     (let s' = dropWhile (\<lambda>c. c = d) s
      in if s' = [] then None
         else Some (takeWhile (\<lambda>c. c \<noteq> d) s', drop 1 (dropWhile (\<lambda>c. c \<noteq> d) s')))"

lemma strtok_rest_shorter: "strtok d s = Some (t, r) \<Longrightarrow> length r < length s"
proof -
  assume a: "strtok d s = Some (t, r)"
  let ?s' = "dropWhile (\<lambda>c. c = d) s"
  have ne: "?s' \<noteq> []" and r: "r = drop 1 (dropWhile (\<lambda>c. c \<noteq> d) ?s')"
    using a by (auto simp: strtok_def Let_def split: if_splits)
  have "length ?s' \<le> length s" by (rule length_dropWhile_le)
  moreover have "length (dropWhile (\<lambda>c. c \<noteq> d) ?s') \<le> length ?s'" by (rule length_dropWhile_le)
  moreover have "0 < length ?s'" using ne by simp
  ultimately show ?thesis using r by (simp, linarith)
qed

text \<open>The sequence of tokens that repeated calls return.\<close>

function tokens :: "char \<Rightarrow> string \<Rightarrow> string list" where
  "tokens d s = (case strtok d s of None \<Rightarrow> [] | Some (t, r) \<Rightarrow> t # tokens d r)"
  by pat_completeness auto
termination
  by (relation "measure (\<lambda>(d, s). length s)") (auto dest: strtok_rest_shorter)

declare tokens.simps [simp del]

lemma strtok_token:
  assumes "strtok d s = Some (t, r)"
  shows "t \<noteq> []" and "d \<notin> set t"
proof -
  let ?s' = "dropWhile (\<lambda>c. c = d) s"
  have ne: "?s' \<noteq> []" and t: "t = takeWhile (\<lambda>c. c \<noteq> d) ?s'"
    using assms by (auto simp: strtok_def Let_def split: if_splits)
  have "hd ?s' \<noteq> d" using hd_dropWhile [OF ne] by simp
  with ne show "t \<noteq> []" unfolding t by (cases "?s'") simp_all
  show "d \<notin> set t" unfolding t by (auto dest: set_takeWhileD)
qed

lemma tokens_nonempty: "t \<in> set (tokens d s) \<Longrightarrow> t \<noteq> [] \<and> d \<notin> set t"
proof (induction d s rule: tokens.induct)
  case (1 d s)
  show ?case
  proof (cases "strtok d s")
    case None
    with "1.prems" show ?thesis by (simp add: tokens.simps [of d s])
  next
    case (Some p)
    then obtain u r where p: "strtok d s = Some (u, r)" by (cases p) auto
    with "1.prems" have "t = u \<or> t \<in> set (tokens d r)" by (simp add: tokens.simps [of d s])
    with p "1.IH" [OF p refl] show ?thesis by (auto dest: strtok_token)
  qed
qed

lemma strtok_join:
  assumes "t \<noteq> []" "d \<notin> set t"
  shows "strtok d (t @ d # r) = Some (t, r)"
    and "strtok d t = Some (t, [])"
proof -
  have dw: "dropWhile (\<lambda>c. c = d) (t @ u) = t @ u" for u
    using assms by (cases t) auto
  have tw: "takeWhile (\<lambda>c. c \<noteq> d) (t @ d # r) = t"
    using assms(2) by (induction t) auto
  have dr: "dropWhile (\<lambda>c. c \<noteq> d) (t @ d # r) = d # r"
    using assms(2) by (induction t) auto
  show "strtok d (t @ d # r) = Some (t, r)"
    using dw [of "d # r"] tw dr by (simp add: strtok_def)
  have "takeWhile (\<lambda>c. c \<noteq> d) t = t" and dn: "dropWhile (\<lambda>c. c \<noteq> d) t = []"
    using assms(2) by (induction t) auto
  with dw [of "[]"] assms(1) show "strtok d t = Some (t, [])"
    by (simp only: strtok_def Let_def append_Nil2 if_False drop_Nil)
qed

text \<open>Joining non-empty, delimiter-free words by the delimiter and splitting gives them back.\<close>

fun join :: "char \<Rightarrow> string list \<Rightarrow> string" where
  "join d [] = []"
| "join d [w] = w"
| "join d (w # v # ws) = w @ d # join d (v # ws)"

lemma tokens_join:
  "(\<And>w. w \<in> set ws \<Longrightarrow> w \<noteq> [] \<and> d \<notin> set w) \<Longrightarrow> tokens d (join d ws) = ws"
proof (induction d ws rule: join.induct)
  case (1 d)
  show ?case by (subst tokens.simps) (simp add: strtok_def)
next
  case (2 d w)
  then have "strtok d w = Some (w, [])" by (intro strtok_join) auto
  moreover have "tokens d [] = []" by (subst tokens.simps) (simp add: strtok_def)
  ultimately show ?case by (subst tokens.simps) simp
next
  case (3 d w v ws)
  then have "strtok d (w @ d # join d (v # ws)) = Some (w, join d (v # ws))"
    by (intro strtok_join) auto
  moreover have "tokens d (join d (v # ws)) = v # ws"
    by (rule "3.IH") (use "3.prems" in auto)
  ultimately show ?case by (subst tokens.simps) simp
qed

section \<open>Decimal numbers\<close>

fun print_nat :: "nat \<Rightarrow> string" where
  "print_nat n = (if n < 10 then [char_of (48 + n)] else print_nat (n div 10) @ [char_of (48 + n mod 10)])"

declare print_nat.simps [simp del]

lemma print_nat_not_Nil [simp]: "print_nat n \<noteq> []"
  by (subst print_nat.simps) simp

lemma digit_char: "d < 10 \<Longrightarrow> of_char (char_of (48 + d) :: char) = (48 + d :: nat)"
  by (simp add: of_char_of)

lemma digit_char_int: "d < 10 \<Longrightarrow> of_char (char_of (48 + d) :: char) = (48 + int d)"
  using digit_char [of d] by (metis of_char_of of_nat_add of_nat_numeral of_nat_of_char)

lemma print_nat_digits: "c \<in> set (print_nat n) \<Longrightarrow> is_digit c"
proof (induction n rule: print_nat.induct)
  case (1 n)
  have "is_digit (char_of (48 + d))" if "d < 10" for d :: nat using digit_char [OF that] that by (simp add: is_digit_def)
  with 1 show ?case by (subst (asm) (2) print_nat.simps) (auto split: if_splits)
qed

lemma digits_value_print_nat: "digits_value (print_nat n) = int n"
proof (induction n rule: print_nat.induct)
  case (1 n)
  show ?case
  proof (cases "n < 10")
    case True
    then show ?thesis by (subst print_nat.simps) (simp add: digits_value_def digit_char_int)
  next
    case False
    have "digits_value (print_nat n) = 10 * digits_value (print_nat (n div 10)) + int (n mod 10)"
      using False digit_char_int [of "n mod 10"] by (subst print_nat.simps) (simp add: digits_value_def)
    also have "\<dots> = int (10 * (n div 10) + n mod 10)"
      unfolding 1 [OF False] by (simp only: of_nat_add of_nat_mult of_nat_numeral)
    finally show ?thesis by (simp only: mult_div_mod_eq)
  qed
qed

lemma takeWhile_digits: "takeWhile is_digit (print_nat n) = print_nat n"
  by (rule takeWhile_eq_all_conv [THEN iffD2]) (simp add: print_nat_digits)

lemma digit_not: "is_digit c \<Longrightarrow> \<not> is_space c" "is_digit c \<Longrightarrow> c \<noteq> CHR ''-''" "is_digit c \<Longrightarrow> c \<noteq> CHR ''+''"
  "is_digit c \<Longrightarrow> c \<noteq> CHR '',''"
  by (auto simp: is_digit_def is_space_def)

lemma atoi_print_nat:
  assumes "int n \<le> INT_MAX"
  shows "atoi (print_nat n) = int n"
proof -
  obtain c cs where c: "print_nat n = c # cs" by (cases "print_nat n") auto
  have d: "is_digit c" using print_nat_digits [of c n] c by simp
  have "atoi (print_nat n) = max INT_MIN (min INT_MAX (digits_value (takeWhile is_digit (print_nat n))))"
    using digit_not [OF d] c by (simp add: atoi_def)
  then show ?thesis
    using assms by (simp add: takeWhile_digits digits_value_print_nat INT_MIN_def)
qed

lemma print_nat_length: "n < 10 ^ Suc k \<Longrightarrow> length (print_nat n) \<le> Suc k"
proof (induction k arbitrary: n)
  case 0
  then show ?case by (subst print_nat.simps) simp
next
  case (Suc k)
  then have "n div 10 < 10 ^ Suc k" by (simp add: less_mult_imp_div_less)
  from Suc.IH [OF this] show ?case by (subst print_nat.simps) simp
qed

section \<open>Error numbers of the kernel\<close>

definition EPERM :: int where "EPERM = 1"
definition ESRCH :: int where "ESRCH = 3"
definition EBADF :: int where "EBADF = 9"
definition EAGAIN :: int where "EAGAIN = 11"
definition ENOMEM :: int where "ENOMEM = 12"
definition EACCES :: int where "EACCES = 13"
definition EFAULT :: int where "EFAULT = 14"
definition EBUSY :: int where "EBUSY = 16"
definition EINVAL :: int where "EINVAL = 22"
definition ENOSYS :: int where "ENOSYS = 38"

lemmas errno_defs = EPERM_def ESRCH_def EBADF_def EAGAIN_def ENOMEM_def EACCES_def EFAULT_def EBUSY_def EINVAL_def ENOSYS_def

section \<open>Sequences of calls\<close>

text \<open>What every call of an interface keeps, every sequence of calls keeps.\<close>

locale kept_by_calls =
  fixes step :: "'c \<Rightarrow> 's \<Rightarrow> 's" and inv :: "'s \<Rightarrow> bool"
  assumes step_keeps: "inv s \<Longrightarrow> inv (step c s)"
begin

lemma sequence_keeps: "inv s \<Longrightarrow> inv (fold step cs s)"
  by (induction cs arbitrary: s) (simp_all add: step_keeps)

end

end
