(* ===== verification/Bitfield.thy ===== *)
theory Bitfield
  imports Prelude
begin

text \<open>
  The page-table entry of the memory manager (\<^verbatim>\<open>struct table_entry\<close>, src/project-4/main.c
  14-21). The program never builds such a struct: it casts an address inside \<^verbatim>\<open>memory\<close> or
  inside a page of the swap space to a pointer to one and reads and writes bit-fields through
  it. The model does the same on the bytes.

  Layout, as the i386 ABI that the Makefile selects lays it out: bit-fields of type
  \<^verbatim>\<open>uint8_t\<close> fill a byte from its low end and never cross into the next one, so the first byte
  holds \<^verbatim>\<open>alloc\<close> (bit 0), \<^verbatim>\<open>valid\<close> (bit 1), \<^verbatim>\<open>protection\<close> (bit 2) and \<^verbatim>\<open>frame\<close> (bits 3 and 4),
  the second byte is \<^verbatim>\<open>swapspace\<close>, and \<^verbatim>\<open>buffer\<close>, which no code uses, is in a third byte. The
  program steps through a table two bytes at a time.
\<close>

unbundle bit_operations_syntax

type_synonym byte = "8 word"

named_theorems entry_simps \<open>bit-fields of a page-table entry\<close>

definition bf_get :: "nat \<Rightarrow> nat \<Rightarrow> byte \<Rightarrow> int" where
  "bf_get off w b = uint (take_bit w (drop_bit off b))"

definition bf_set :: "nat \<Rightarrow> nat \<Rightarrow> int \<Rightarrow> byte \<Rightarrow> byte" where
  "bf_set off w v b = (b AND NOT (push_bit off (mask w))) OR push_bit off (take_bit w (word_of_int v))"

text \<open>Reads and writes of the fields through a pointer to byte \<open>a\<close> of a block of bytes.\<close>

definition get_field :: "nat \<Rightarrow> nat \<Rightarrow> byte list \<Rightarrow> int \<Rightarrow> int cres" where
  "get_field off w m a = cbind (aget m a) (\<lambda>b. Inr (bf_get off w b))"

definition set_field :: "nat \<Rightarrow> nat \<Rightarrow> byte list \<Rightarrow> int \<Rightarrow> int \<Rightarrow> byte list cres" where
  "set_field off w m a v = cbind (aget m a) (\<lambda>b. aset m a (bf_set off w v b))"

definition alloc :: "byte list \<Rightarrow> int \<Rightarrow> int cres" where "alloc = get_field 0 1"
definition valid :: "byte list \<Rightarrow> int \<Rightarrow> int cres" where "valid = get_field 1 1"
definition protection :: "byte list \<Rightarrow> int \<Rightarrow> int cres" where "protection = get_field 2 1"
definition frame :: "byte list \<Rightarrow> int \<Rightarrow> int cres" where "frame = get_field 3 2"
definition swapspace :: "byte list \<Rightarrow> int \<Rightarrow> int cres" where
  "swapspace m a = cbind (aget m (a + 1)) (\<lambda>b. Inr (uint b))"

definition set_alloc :: "byte list \<Rightarrow> int \<Rightarrow> int \<Rightarrow> byte list cres" where "set_alloc = set_field 0 1"
definition set_valid :: "byte list \<Rightarrow> int \<Rightarrow> int \<Rightarrow> byte list cres" where "set_valid = set_field 1 1"
definition set_protection :: "byte list \<Rightarrow> int \<Rightarrow> int \<Rightarrow> byte list cres" where "set_protection = set_field 2 1"
definition set_frame :: "byte list \<Rightarrow> int \<Rightarrow> int \<Rightarrow> byte list cres" where "set_frame = set_field 3 2"
definition set_swapspace :: "byte list \<Rightarrow> int \<Rightarrow> int \<Rightarrow> byte list cres" where
  "set_swapspace m a v = aset m (a + 1) (word_of_int v)"

lemmas field_defs = alloc_def valid_def protection_def frame_def swapspace_def
  set_alloc_def set_valid_def set_protection_def set_frame_def set_swapspace_def

section \<open>Bit-fields of one byte\<close>

lemma bf_get_bf_set_same:
  assumes "off + w \<le> 8"
  shows "bf_get off w (bf_set off w v b) = v mod 2 ^ w"
proof -
  have "take_bit w (drop_bit off (bf_set off w v b)) = take_bit w (word_of_int v :: byte)"
    by (rule bit_word_eqI) (use assms in \<open>auto simp: bf_set_def bit_simps\<close>)
  then have "bf_get off w (bf_set off w v b) = uint (take_bit w (word_of_int v :: byte))"
    by (simp add: bf_get_def)
  also have "\<dots> = take_bit w v"
    using assms by (simp add: unsigned_take_bit_eq unsigned_of_int min_def)
  finally show ?thesis by (simp add: take_bit_eq_mod)
qed

lemma bf_get_bf_set_other:
  assumes "off + w \<le> off' \<or> off' + w' \<le> off" and "off + w \<le> 8" and "off' + w' \<le> 8"
  shows "bf_get off w (bf_set off' w' v b) = bf_get off w b"
proof -
  have "take_bit w (drop_bit off (bf_set off' w' v b)) = take_bit w (drop_bit off b)"
    by (rule bit_word_eqI) (use assms in \<open>auto simp: bf_set_def bit_simps\<close>)
  then show ?thesis by (simp add: bf_get_def)
qed

lemma bf_get_range: "off + w \<le> 8 \<Longrightarrow> 0 \<le> bf_get off w b \<and> bf_get off w b < 2 ^ w"
proof -
  assume "off + w \<le> 8"
  then have "bf_get off w b = take_bit w (uint (drop_bit off b))"
    by (simp add: bf_get_def unsigned_take_bit_eq)
  then show ?thesis by simp
qed

lemma bf_get_zero [simp]: "bf_get off w 0 = 0"
  by (simp add: bf_get_def)

lemmas bf_fields [entry_simps] =
  bf_get_bf_set_same [of 0 1, simplified] bf_get_bf_set_same [of 1 1, simplified] bf_get_bf_set_same [of 2 1, simplified] bf_get_bf_set_same [of 3 2, simplified]
  bf_get_bf_set_other [of 0 1 1 1, simplified] bf_get_bf_set_other [of 0 1 2 1, simplified] bf_get_bf_set_other [of 0 1 3 2, simplified]
  bf_get_bf_set_other [of 1 1 0 1, simplified] bf_get_bf_set_other [of 1 1 2 1, simplified] bf_get_bf_set_other [of 1 1 3 2, simplified]
  bf_get_bf_set_other [of 2 1 0 1, simplified] bf_get_bf_set_other [of 2 1 1 1, simplified] bf_get_bf_set_other [of 2 1 3 2, simplified]
  bf_get_bf_set_other [of 3 2 0 1, simplified] bf_get_bf_set_other [of 3 2 1 1, simplified] bf_get_bf_set_other [of 3 2 2 1, simplified]

lemma bf_bit_cases: "bf_get 0 1 b \<in> {0, 1}" "bf_get 1 1 b \<in> {0, 1}" "bf_get 2 1 b \<in> {0, 1}"
  using bf_get_range [of 0 1 b] bf_get_range [of 1 1 b] bf_get_range [of 2 1 b] by auto

lemma bf_frame_range: "0 \<le> bf_get 3 2 b" "bf_get 3 2 b \<le> 3"
  using bf_get_range [of 3 2 b] by auto

section \<open>Fields in memory\<close>

lemma set_field_Inr_iff:
  "set_field off w m a v = Inr m' \<longleftrightarrow> in_bounds m a \<and> m' = m[nat a := bf_set off w v (m ! nat a)]"
  by (auto simp: set_field_def aget_def aset_def)

lemma get_field_Inr_iff:
  "get_field off w m a = Inr v \<longleftrightarrow> in_bounds m a \<and> v = bf_get off w (m ! nat a)"
  by (auto simp: get_field_def aget_def)

lemma set_field_length: "set_field off w m a v = Inr m' \<Longrightarrow> length m' = length m"
  by (auto simp: set_field_Inr_iff)

lemma field_no_fuel [simp, intro]:
  "no_fuel_fault (get_field off w m a)" "no_fuel_fault (set_field off w m a v)"
  "no_fuel_fault (swapspace m a)" "no_fuel_fault (set_swapspace m a v)"
  by (auto simp: get_field_def set_field_def swapspace_def set_swapspace_def)

end
