(* ===== verification/Page_Swap.thy ===== *)
theory Page_Swap
  imports Bitfield
begin

text \<open>
  The state of the memory manager and its page replacement (src/project-4/main.c 1-200):
  64 bytes of physical memory in four frames, twenty swap slots, one page table per process
  (a frame number 0 to 3, a negative number for a table in the swap space, or \<^verbatim>\<open>NOTALLOC\<close>) and
  the round-robin victim pointer \<^verbatim>\<open>nextSwap\<close>.

  \<^verbatim>\<open>swapPage\<close> calls itself: once when the victim frame holds the page table of the process that
  issued the instruction, and once when the page table of the victim's owner is itself in the
  swap space. The model takes fuel; \<open>swapPage_terminates\<close> shows that twenty units always suffice,
  whatever the state, so the fuel is not a restriction. The locale \<open>swap_invariant\<close> is the
  interface between the elementary actions of a swap and what a whole swap preserves.
\<close>

section \<open>State\<close>

datatype swap_state = FREE | CATALONIA

type_synonym page = "byte list"

datatype message =
    Swapped int int
  | SwapRefused
  | NotSwapped
  | PutTable int int
  | AllocatingNew
  | Mapped int int int
  | AlreadyMapped int int
  | UpdatingProtection
  | NotAllocatedYet
  | ReadOnly
  | StoredValue int int int
  | LoadedValue int int int
  | Prompt
  | InputReceived string
  | InvalidInput
  | EndOfProgram

record vm =
  memory :: "byte list"
  swap_states :: "swap_state list"
  swap :: "page list"
  page_table_start :: "int list"
  free_list :: "int list"
  nextSwap :: int
  out :: "message list"

definition N_PROCESSES :: int where "N_PROCESSES = 4"
definition NOTALLOC :: int where "NOTALLOC = 4"
definition EMPTY :: int where "EMPTY = 0"
definition FULL :: int where "FULL = 1"

definition emit :: "message \<Rightarrow> vm \<Rightarrow> vm" where
  "emit msg s = s\<lparr>out := out s @ [msg]\<rparr>"

section \<open>The swap space\<close>

definition get_num_pages_in_swap :: "vm \<Rightarrow> int" where
  "get_num_pages_in_swap s = int (length (filter (\<lambda>st. st = CATALONIA) (swap_states s)))"

definition get_page_from_swap :: "vm \<Rightarrow> int \<Rightarrow> page cres" where
  "get_page_from_swap s index = aget (swap s) index"

text \<open>The first free slot at or after slot \<open>i\<close>; without one the C function ends without a value.\<close>

fun first_free :: "swap_state list \<Rightarrow> int \<Rightarrow> int option" where
  "first_free [] i = None"
| "first_free (st # sts) i = (if st = FREE then Some i else first_free sts (i + 1))"

definition append_page_to_swap :: "vm \<Rightarrow> page \<Rightarrow> (int option \<times> vm) cres" where
  "append_page_to_swap s p =
     (case first_free (swap_states s) 0 of
        None \<Rightarrow> Inr (None, s)
      | Some i \<Rightarrow>
          cbind (aset (swap s) i p) (\<lambda>sw.
          cbind (aset (swap_states s) i CATALONIA) (\<lambda>sts.
          Inr (Some i, s\<lparr>swap := sw, swap_states := sts\<rparr>))))"

definition write_to_swap_location :: "vm \<Rightarrow> page \<Rightarrow> int \<Rightarrow> vm cres" where
  "write_to_swap_location s p index =
     cbind (aset (swap_states s) index CATALONIA) (\<lambda>sts.
     cbind (aset (swap s) index p) (\<lambda>sw.
     Inr (s\<lparr>swap_states := sts, swap := sw\<rparr>)))"

definition copyPage :: "page \<Rightarrow> page" where
  "copyPage p = map (\<lambda>i. p ! i) [0..<16]"

definition indexToSwap :: "int \<Rightarrow> int" where
  "indexToSwap index = - (index + 1)"

definition swapToIndex :: "int \<Rightarrow> int" where
  "swapToIndex sw = - (sw + 1)"

text \<open>The struct read and written through \<^verbatim>\<open>(struct page *)(&memory[a])\<close>.\<close>

definition page_at :: "byte list \<Rightarrow> int \<Rightarrow> page cres" where
  "page_at m a = (if 0 \<le> a \<and> a + 16 \<le> int (length m) then Inr (take 16 (drop (nat a) m)) else Inl OutOfBounds)"

definition set_page_at :: "byte list \<Rightarrow> int \<Rightarrow> page \<Rightarrow> byte list cres" where
  "set_page_at m a p = (if 0 \<le> a \<and> a + 16 \<le> int (length m) then Inr (blit m (nat a) p) else Inl OutOfBounds)"

section \<open>swapPage\<close>

text \<open>The first entry \<open>j\<close> of the table at \<open>base\<close> that is valid, allocated and mapped to frame \<open>f\<close>.\<close>

fun match_entry_from :: "byte list \<Rightarrow> int \<Rightarrow> int \<Rightarrow> int list \<Rightarrow> int option cres" where
  "match_entry_from m base f [] = Inr None"
| "match_entry_from m base f (j # js) =
     cbind (valid m (base + j * 2)) (\<lambda>v.
     cbind (alloc m (base + j * 2)) (\<lambda>al.
     cbind (frame m (base + j * 2)) (\<lambda>fr.
     if v = 1 \<and> al = 1 \<and> fr = f then Inr (Some j) else match_entry_from m base f js)))"

definition match_entry :: "byte list \<Rightarrow> int \<Rightarrow> int \<Rightarrow> int option cres" where
  "match_entry m base f = match_entry_from m base f [0, 1, 2, 3]"

text \<open>
  The elementary actions of a swap: the exchange of a frame's content for a slot's, the redirection
  of the page table that was in the slot, the entry that now points to the slot, the victim pointer.
\<close>

definition exchange :: "int \<Rightarrow> int \<Rightarrow> page \<Rightarrow> page \<Rightarrow> vm \<Rightarrow> vm cres" where
  "exchange swapSpace pageIndex swapIn swapOut s =
     cbind (write_to_swap_location s swapOut swapSpace) (\<lambda>s1.
     cbind (set_page_at (memory s1) (pageIndex * 16) (copyPage swapIn)) (\<lambda>m.
     Inr (s1\<lparr>memory := m\<rparr>)))"

definition remap_tables :: "int \<Rightarrow> int \<Rightarrow> vm \<Rightarrow> vm" where
  "remap_tables swapSpace pageIndex s =
     s\<lparr>page_table_start := map (\<lambda>pt. if indexToSwap pt = swapSpace then pageIndex else pt) (page_table_start s)\<rparr>"

definition mark_swapped :: "int \<Rightarrow> int \<Rightarrow> vm \<Rightarrow> vm cres" where
  "mark_swapped a swapSpace s =
     cbind (set_valid (memory s) a 0) (\<lambda>m.
     cbind (set_swapspace m a swapSpace) (\<lambda>m'.
     Inr (s\<lparr>memory := m'\<rparr>)))"

definition advance :: "vm \<Rightarrow> vm" where
  "advance s = s\<lparr>nextSwap := (nextSwap s + 1) mod 4\<rparr>"

definition set_table :: "int \<Rightarrow> int \<Rightarrow> vm \<Rightarrow> vm cres" where
  "set_table i pt s = cbind (aset (page_table_start s) i pt) (\<lambda>pts. Inr (s\<lparr>page_table_start := pts\<rparr>))"

text \<open>The four ways a swap ends, in the order of the code (lines 121-131, 138-149, 160-168, 180-194).\<close>

definition evict_table :: "int \<Rightarrow> int \<Rightarrow> page \<Rightarrow> page \<Rightarrow> int \<Rightarrow> vm \<Rightarrow> vm cres" where
  "evict_table swapSpace pageIndex swapIn swapOut i s =
     cbind (set_table i (swapToIndex swapSpace) (remap_tables swapSpace pageIndex s)) (\<lambda>s1.
     cbind (exchange swapSpace pageIndex swapIn swapOut s1) (\<lambda>s2.
     Inr (advance s2)))"

definition evict_mapped :: "int \<Rightarrow> int \<Rightarrow> page \<Rightarrow> page \<Rightarrow> int \<Rightarrow> vm \<Rightarrow> vm cres" where
  "evict_mapped swapSpace pageIndex swapIn swapOut a s =
     cbind (mark_swapped a swapSpace s) (\<lambda>s1.
     cbind (exchange swapSpace pageIndex swapIn swapOut s1) (\<lambda>s2.
     Inr (advance (remap_tables swapSpace pageIndex s2))))"

definition evict_with_table :: "int \<Rightarrow> int \<Rightarrow> page \<Rightarrow> page \<Rightarrow> int \<Rightarrow> int \<Rightarrow> vm \<Rightarrow> vm cres" where
  "evict_with_table swapSpace pageIndex swapIn swapOut i j s =
     cbind (exchange swapSpace pageIndex swapIn swapOut s) (\<lambda>s1.
     cbind (mark_swapped (pageIndex * 16 + j * 2) swapSpace s1) (\<lambda>s2.
     cbind (set_table i pageIndex s2) (\<lambda>s3.
     Inr (advance s3))))"

definition evict_remote ::
  "(vm \<Rightarrow> int \<Rightarrow> int \<Rightarrow> int \<Rightarrow> vm cres) \<Rightarrow> int \<Rightarrow> int \<Rightarrow> int \<Rightarrow> page \<Rightarrow> page \<Rightarrow> int \<Rightarrow> int \<Rightarrow> vm \<Rightarrow> vm cres" where
  "evict_remote rec swapSpace pageIndex pid swapIn swapOut i j s =
     cbind (exchange swapSpace pageIndex swapIn swapOut s) (\<lambda>s1.
     (let s2 = remap_tables swapSpace pageIndex s1 in
     cbind (aget (page_table_start s2) i) (\<lambda>pt.
     cbind (rec s2 (indexToSwap pt) ((pageIndex + 1) mod 4) pid) (\<lambda>s3.
     cbind (aget (page_table_start s3) i) (\<lambda>pt'.
     cbind (mark_swapped (pt' * 16 + j * 2) swapSpace s3) (\<lambda>s4.
     Inr (advance s4)))))))"

text \<open>The loop over the processes \<open>i\<close>; \<open>rec\<close> is the recursive call.\<close>

fun swap_scan ::
  "(vm \<Rightarrow> int \<Rightarrow> int \<Rightarrow> int \<Rightarrow> vm cres) \<Rightarrow> int \<Rightarrow> int \<Rightarrow> int \<Rightarrow> page \<Rightarrow> page \<Rightarrow> int list \<Rightarrow> vm \<Rightarrow> vm cres" where
  "swap_scan rec swapSpace pageIndex pid swapIn swapOut [] s = Inr (emit NotSwapped s)"
| "swap_scan rec swapSpace pageIndex pid swapIn swapOut (i # is) s =
     cbind (aget (page_table_start s) i) (\<lambda>pt.
     if 0 \<le> pt \<and> pt \<le> 3 then
       if pageIndex = pt then
         if i = pid then
           (let s1 = advance (emit SwapRefused s) in rec s1 swapSpace (nextSwap s1) pid)
         else evict_table swapSpace pageIndex swapIn swapOut i s
       else
         cbind (match_entry (memory s) (pt * 16) pageIndex) (\<lambda>m.
         case m of
           Some j \<Rightarrow> evict_mapped swapSpace pageIndex swapIn swapOut (pt * 16 + j * 2) s
         | None \<Rightarrow> swap_scan rec swapSpace pageIndex pid swapIn swapOut is s)
     else
       cbind (if indexToSwap pt = swapSpace then match_entry swapIn 0 pageIndex else Inr None) (\<lambda>m.
       case m of
         Some j \<Rightarrow> evict_with_table swapSpace pageIndex swapIn swapOut i j s
       | None \<Rightarrow>
           cbind (get_page_from_swap s (indexToSwap pt)) (\<lambda>possibleTable.
           cbind (match_entry possibleTable 0 pageIndex) (\<lambda>m'.
           case m' of
             Some j \<Rightarrow> evict_remote rec swapSpace pageIndex pid swapIn swapOut i j s
           | None \<Rightarrow> swap_scan rec swapSpace pageIndex pid swapIn swapOut is s))))"

fun swapPage :: "nat \<Rightarrow> vm \<Rightarrow> int \<Rightarrow> int \<Rightarrow> int \<Rightarrow> vm cres" where
  "swapPage 0 s swapSpace pageIndex pid = Inl OutOfFuel"
| "swapPage (Suc fuel) s swapSpace pageIndex pid =
     (let s0 = emit (Swapped pageIndex swapSpace) s in
     cbind (get_page_from_swap s0 swapSpace) (\<lambda>swapIn.
     cbind (page_at (memory s0) (pageIndex * 16)) (\<lambda>p.
     swap_scan (swapPage fuel) swapSpace pageIndex pid swapIn (copyPage p) [0, 1, 2, 3] s0)))"

definition swap_fuel :: nat where "swap_fuel = 20"

section \<open>Shape of the state\<close>

definition vm_shape :: "vm \<Rightarrow> bool" where
  "vm_shape s \<longleftrightarrow>
     length (memory s) = 64 \<and> length (swap_states s) = 20 \<and> length (swap s) = 20 \<and>
     list_all (\<lambda>p. length p = 16) (swap s) \<and>
     length (page_table_start s) = 4 \<and> length (free_list s) = 4 \<and>
     0 \<le> nextSwap s \<and> nextSwap s \<le> 3"

named_theorems vm_simps \<open>elementary actions of a swap\<close>

lemma emit_fields [simp, vm_simps]:
  "memory (emit msg s) = memory s" "swap_states (emit msg s) = swap_states s"
  "swap (emit msg s) = swap s" "page_table_start (emit msg s) = page_table_start s"
  "free_list (emit msg s) = free_list s" "nextSwap (emit msg s) = nextSwap s"
  "out (emit msg s) = out s @ [msg]"
  by (simp_all add: emit_def)

lemma advance_fields [simp, vm_simps]:
  "memory (advance s) = memory s" "swap_states (advance s) = swap_states s"
  "swap (advance s) = swap s" "page_table_start (advance s) = page_table_start s"
  "free_list (advance s) = free_list s" "nextSwap (advance s) = (nextSwap s + 1) mod 4"
  "out (advance s) = out s"
  by (simp_all add: advance_def)

lemma remap_fields [simp, vm_simps]:
  "memory (remap_tables slot f s) = memory s" "swap_states (remap_tables slot f s) = swap_states s"
  "swap (remap_tables slot f s) = swap s" "free_list (remap_tables slot f s) = free_list s"
  "nextSwap (remap_tables slot f s) = nextSwap s" "out (remap_tables slot f s) = out s"
  "page_table_start (remap_tables slot f s) =
     map (\<lambda>pt. if indexToSwap pt = slot then f else pt) (page_table_start s)"
  by (simp_all add: remap_tables_def)

lemma length_copyPage [simp]: "length (copyPage p) = 16"
  by (simp add: copyPage_def)

lemma copyPage_id: "length p = 16 \<Longrightarrow> copyPage p = p"
  by (rule nth_equalityI) (simp_all add: copyPage_def)

text \<open>What each action does, when it succeeds.\<close>

lemma exchange_Inr:
  "exchange slot f si so s = Inr s' \<longleftrightarrow>
     in_bounds (swap_states s) slot \<and> in_bounds (swap s) slot \<and>
     0 \<le> f * 16 \<and> f * 16 + 16 \<le> int (length (memory s)) \<and>
     s' = s\<lparr>swap_states := (swap_states s)[nat slot := CATALONIA],
            swap := (swap s)[nat slot := so],
            memory := blit (memory s) (nat (f * 16)) (copyPage si)\<rparr>"
  by (auto simp: exchange_def write_to_swap_location_def set_page_at_def aset_def cbind_Inr_iff split: if_splits)

lemma mark_swapped_Inr:
  "mark_swapped a slot s = Inr s' \<longleftrightarrow>
     in_bounds (memory s) a \<and> in_bounds (memory s) (a + 1) \<and>
     s' = s\<lparr>memory := (memory s)[nat a := bf_set 1 1 0 (memory s ! nat a), nat (a + 1) := word_of_int slot]\<rparr>"
  by (auto simp: mark_swapped_def set_valid_def set_swapspace_def set_field_Inr_iff cbind_Inr_iff aset_Inr_iff)

lemma set_table_Inr:
  "set_table i pt s = Inr s' \<longleftrightarrow>
     in_bounds (page_table_start s) i \<and> s' = s\<lparr>page_table_start := (page_table_start s)[nat i := pt]\<rparr>"
  by (auto simp: set_table_def cbind_Inr_iff aset_Inr_iff)

lemma page_at_Inr:
  "page_at m a = Inr p \<longleftrightarrow> 0 \<le> a \<and> a + 16 \<le> int (length m) \<and> p = take 16 (drop (nat a) m)"
  by (auto simp: page_at_def)

lemma frame_of_page_at: "vm_shape s \<Longrightarrow> page_at (memory s) (f * 16) = Inr p \<Longrightarrow> 0 \<le> f \<and> f \<le> 3"
  by (auto simp: page_at_Inr vm_shape_def)

lemma exchange_table_start:
  "exchange slot f si so s = Inr s' \<Longrightarrow> page_table_start s' = page_table_start s"
  by (auto simp: exchange_Inr)

lemma mark_table_start:
  "mark_swapped a slot s = Inr s' \<Longrightarrow> page_table_start s' = page_table_start s"
  by (auto simp: mark_swapped_Inr)

lemma actions_free_list:
  "exchange slot f si so s = Inr s' \<Longrightarrow> free_list s' = free_list s"
  "mark_swapped a slot s = Inr s' \<Longrightarrow> free_list s' = free_list s"
  "set_table i pt s = Inr s' \<Longrightarrow> free_list s' = free_list s"
  by (auto simp: exchange_Inr mark_swapped_Inr set_table_Inr)

lemma page_no_fuel [simp, intro]:
  "no_fuel_fault (page_at m a)" "no_fuel_fault (set_page_at m a p)" "no_fuel_fault (get_page_from_swap s i)"
  by (simp_all add: page_at_def set_page_at_def get_page_from_swap_def no_fuel_fault_def aget_def)

lemma actions_no_fuel [simp, intro]:
  "no_fuel_fault (exchange slot f si so s)"
  "no_fuel_fault (mark_swapped a slot s)"
  "no_fuel_fault (set_table i pt s)"
  by (simp_all add: exchange_def write_to_swap_location_def mark_swapped_def set_table_def set_valid_def
      no_fuel_fault_cbind)

text \<open>How the scan over the processes ends.\<close>

lemma match_entry_from_Inl: "match_entry_from m base f js = Inl e \<Longrightarrow> e = OutOfBounds"
  by (induction js)
     (auto simp: cbind_Inl_iff valid_def alloc_def frame_def get_field_def aget_Inl_iff split: if_splits)

text \<open>One iteration of the loop: a fault, one of the five endings, or the next process.\<close>

definition scan_ends ::
  "(vm \<Rightarrow> int \<Rightarrow> int \<Rightarrow> int \<Rightarrow> vm cres) \<Rightarrow> int \<Rightarrow> int \<Rightarrow> int \<Rightarrow> page \<Rightarrow> page \<Rightarrow> int \<Rightarrow> vm \<Rightarrow> vm cres \<Rightarrow> bool" where
  "scan_ends rec slot f pid si so i s r \<longleftrightarrow>
     r = Inl OutOfBounds \<or>
     (\<exists>pt. aget (page_table_start s) i = Inr pt \<and>
       (if 0 \<le> pt \<and> pt \<le> 3 then
          (pt = f \<and> i = pid \<and> r = rec (advance (emit SwapRefused s)) slot (nextSwap (advance (emit SwapRefused s))) pid) \<or>
          (pt = f \<and> i \<noteq> pid \<and> r = evict_table slot f si so i s) \<or>
          (pt \<noteq> f \<and> (\<exists>j. match_entry (memory s) (pt * 16) f = Inr (Some j) \<and>
             r = evict_mapped slot f si so (pt * 16 + j * 2) s))
        else
          (indexToSwap pt = slot \<and> (\<exists>j. match_entry si 0 f = Inr (Some j) \<and> r = evict_with_table slot f si so i j s)) \<or>
          (\<exists>p j. get_page_from_swap s (indexToSwap pt) = Inr p \<and> match_entry p 0 f = Inr (Some j) \<and>
             r = evict_remote rec slot f pid si so i j s)))"

lemma match_entry_cases:
  obtains "match_entry m base f = Inl OutOfBounds" | "match_entry m base f = Inr None"
  | j where "match_entry m base f = Inr (Some j)"
  using match_entry_from_Inl [of m base f "[0, 1, 2, 3]"]
  by (metis match_entry_def old.sum.exhaust option.exhaust)

lemma aget_cases:
  obtains "aget xs i = Inl OutOfBounds" | v where "aget xs i = Inr v"
  by (cases "in_bounds xs i") (simp_all add: aget_def)

lemma scan_memory_step:
  assumes "aget (page_table_start s) i = Inr pt" "0 \<le> pt \<and> pt \<le> 3"
  shows "scan_ends rec slot f pid si so i s (swap_scan rec slot f pid si so (i # is) s) \<or>
     swap_scan rec slot f pid si so (i # is) s = swap_scan rec slot f pid si so is s"
  using assms
  by (cases rule: match_entry_cases [of "memory s" "pt * 16" f]) (auto simp: scan_ends_def Let_def)

lemma scan_swap_step:
  assumes "aget (page_table_start s) i = Inr pt" "\<not> (0 \<le> pt \<and> pt \<le> 3)"
    and "match_entry si 0 f = Inr None \<or> indexToSwap pt \<noteq> slot"
  shows "scan_ends rec slot f pid si so i s (swap_scan rec slot f pid si so (i # is) s) \<or>
     swap_scan rec slot f pid si so (i # is) s = swap_scan rec slot f pid si so is s"
proof (cases rule: aget_cases [of "swap s" "indexToSwap pt"])
  case 1
  then show ?thesis using assms by (auto simp: scan_ends_def get_page_from_swap_def)
next
  case (2 p)
  then show ?thesis using assms
    by (cases rule: match_entry_cases [of p 0 f]) (auto simp: scan_ends_def get_page_from_swap_def)
qed

lemma swap_scan_step:
  "scan_ends rec slot f pid si so i s (swap_scan rec slot f pid si so (i # is) s) \<or>
   swap_scan rec slot f pid si so (i # is) s = swap_scan rec slot f pid si so is s"
proof (cases rule: aget_cases [of "page_table_start s" i])
  case 1
  then show ?thesis by (simp add: scan_ends_def)
next
  case pt: (2 pt)
  consider (mem) "0 \<le> pt \<and> pt \<le> 3"
    | (here) "\<not> (0 \<le> pt \<and> pt \<le> 3)" "indexToSwap pt = slot" "match_entry si 0 f \<noteq> Inr None"
    | (else) "\<not> (0 \<le> pt \<and> pt \<le> 3)" "match_entry si 0 f = Inr None \<or> indexToSwap pt \<noteq> slot"
    by blast
  then show ?thesis
  proof cases
    case mem
    with pt show ?thesis by (rule scan_memory_step)
  next
    case here
    with pt show ?thesis
      by (cases rule: match_entry_cases [of si 0 f]) (auto simp: scan_ends_def)
  next
    case else
    with pt show ?thesis by (rule scan_swap_step)
  qed
qed

lemma swap_scan_ends:
  "swap_scan rec slot f pid si so is s = Inr (emit NotSwapped s) \<or>
   (\<exists>i \<in> set is. scan_ends rec slot f pid si so i s (swap_scan rec slot f pid si so is s))"
proof (induction "is")
  case (Cons i "is")
  then show ?case using swap_scan_step [of rec slot f pid si so i s "is"]
    by (metis list.set_intros)
qed simp

section \<open>What a swap preserves\<close>

text \<open>
  A predicate kept by every elementary action is kept by a whole swap. The actions are given with
  what the code knows when it performs them: the frame is 0 to 3, the slot is not negative, the page
  table moved out is not that of the calling process, the one moved in was in the slot.
\<close>

definition swap_chatter :: "message \<Rightarrow> bool" where
  "swap_chatter msg \<longleftrightarrow> msg = SwapRefused \<or> msg = NotSwapped \<or> (\<exists>f slot. msg = Swapped f slot)"

lemma swap_chatter_simps [simp]:
  "swap_chatter SwapRefused" "swap_chatter NotSwapped" "swap_chatter (Swapped f slot)"
  by (auto simp: swap_chatter_def)

locale swap_invariant =
  fixes I :: "vm \<Rightarrow> bool" and pid :: int
  assumes shape: "I s \<Longrightarrow> vm_shape s"
    and emit: "I s \<Longrightarrow> swap_chatter msg \<Longrightarrow> I (emit msg s)"
    and advance: "I s \<Longrightarrow> I (advance s)"
    and exchange: "I s \<Longrightarrow> 0 \<le> f \<Longrightarrow> f \<le> 3 \<Longrightarrow> exchange slot f si (copyPage so) s = Inr s' \<Longrightarrow> I s'"
    and remap: "I s \<Longrightarrow> 0 \<le> f \<Longrightarrow> f \<le> 3 \<Longrightarrow> 0 \<le> slot \<Longrightarrow> I (remap_tables slot f s)"
    and mark: "I s \<Longrightarrow> mark_swapped a slot s = Inr s' \<Longrightarrow> I s'"
    and table_out: "I s \<Longrightarrow> i \<noteq> pid \<Longrightarrow> 0 \<le> i \<Longrightarrow> 0 \<le> slot \<Longrightarrow> set_table i (swapToIndex slot) s = Inr s' \<Longrightarrow> I s'"
    and table_in: "I s \<Longrightarrow> aget (page_table_start s) i = Inr pt \<Longrightarrow> pt < 0 \<Longrightarrow> 0 \<le> f \<Longrightarrow> f \<le> 3 \<Longrightarrow>
      set_table i f s = Inr s' \<Longrightarrow> I s'"
begin

lemma evict_table_keeps:
  assumes "evict_table slot f si (copyPage so) i s = Inr s'" "I s" "0 \<le> f" "f \<le> 3" "0 \<le> slot"
    and "i \<noteq> pid" "0 \<le> i"
  shows "I s'"
proof -
  obtain s1 s2 where
    s1: "set_table i (swapToIndex slot) (remap_tables slot f s) = Inr s1" and
    s2: "Page_Swap.exchange slot f si (copyPage so) s1 = Inr s2" and s': "s' = Page_Swap.advance s2"
    using assms(1) unfolding evict_table_def by auto
  have "I s1" by (rule table_out [OF remap [OF assms(2-5)] assms(6,7,5) s1])
  then show ?thesis using s' exchange [OF _ assms(3,4) s2] advance by simp
qed

lemma evict_mapped_keeps:
  "evict_mapped slot f si (copyPage so) a s = Inr s' \<Longrightarrow> I s \<Longrightarrow> 0 \<le> f \<Longrightarrow> f \<le> 3 \<Longrightarrow> 0 \<le> slot \<Longrightarrow> I s'"
  unfolding evict_mapped_def by (auto intro!: advance remap elim: exchange [rotated 3] mark [rotated])

lemma evict_with_table_keeps:
  assumes "evict_with_table slot f si (copyPage so) i j s = Inr s'" "I s" "0 \<le> f" "f \<le> 3"
    and "aget (page_table_start s) i = Inr pt" "indexToSwap pt = slot" "0 \<le> slot"
  shows "I s'"
proof -
  obtain s1 s2 s3 where
    s1: "Page_Swap.exchange slot f si (copyPage so) s = Inr s1" and
    s2: "mark_swapped (f * 16 + j * 2) slot s1 = Inr s2" and
    s3: "set_table i f s2 = Inr s3" and s': "s' = Page_Swap.advance s3"
    using assms(1) unfolding evict_with_table_def by auto
  have "I s2" using exchange [OF assms(2-4) s1] mark s2 by blast
  moreover have "aget (page_table_start s2) i = Inr pt"
    using assms(5) exchange_table_start [OF s1] mark_table_start [OF s2] by simp
  moreover have "pt < 0" using assms(6,7) by (simp add: indexToSwap_def)
  ultimately have "I s3" using table_in s3 assms(3,4) by blast
  then show ?thesis using s' advance by simp
qed

lemma evict_remote_keeps:
  assumes "evict_remote rec slot f pid si (copyPage so) i j s = Inr s'" "I s" "0 \<le> f" "f \<le> 3" "0 \<le> slot"
    and rec: "\<And>s slot f s'. rec s slot f pid = Inr s' \<Longrightarrow> I s \<Longrightarrow> I s'"
  shows "I s'"
proof -
  obtain s1 pt s3 pt' s4 where
    s1: "Page_Swap.exchange slot f si (copyPage so) s = Inr s1" and
    s3: "rec (remap_tables slot f s1) (indexToSwap pt) ((f + 1) mod 4) pid = Inr s3" and
    s4: "mark_swapped (pt' * 16 + j * 2) slot s3 = Inr s4" and s': "s' = Page_Swap.advance s4"
    using assms(1) unfolding evict_remote_def Let_def by auto
  have "I (remap_tables slot f s1)" using remap [OF exchange [OF assms(2-4) s1] assms(3-5)] .
  then have "I s4" using rec [OF s3] mark [OF _ s4] by blast
  then show ?thesis using s' advance by simp
qed

lemma swap_scan_keeps:
  assumes rec: "\<And>s slot f s'. rec s slot f pid = Inr s' \<Longrightarrow> I s \<Longrightarrow> I s'"
    and "I s" "0 \<le> f" "f \<le> 3" "0 \<le> slot" "\<forall>i \<in> set is. 0 \<le> i"
    and "swap_scan rec slot f pid si (copyPage so) is s = Inr s'"
  shows "I s'"
proof (cases "s' = Page_Swap.emit NotSwapped s")
  case True
  then show ?thesis using assms(2) emit by simp
next
  case False
  then obtain i where "0 \<le> i" and "scan_ends rec slot f pid si (copyPage so) i s (Inr s')"
    using swap_scan_ends [of rec slot f pid si "copyPage so" "is" s] assms(6,7) by auto
  then show ?thesis unfolding scan_ends_def
    using rec assms(2) emit advance
      evict_table_keeps [OF _ assms(2-5), of si so i s']
      evict_mapped_keeps [OF _ assms(2-5), of si so _ s']
      evict_with_table_keeps [OF _ assms(2-4), of slot si so i _ s' , OF _ _ _ assms(5)]
      evict_remote_keeps [OF _ assms(2-5) rec, of rec si so i _ s']
    by (auto split: if_splits simp del: emit_fields advance_fields dest!: sym [of "Inr s'"])
qed

lemma swapPage_keeps: "swapPage fuel s slot f pid = Inr s' \<Longrightarrow> I s \<Longrightarrow> I s'"
proof (induction fuel arbitrary: s slot f s')
  case 0
  then show ?case by simp
next
  case (Suc fuel)
  let ?s0 = "Page_Swap.emit (Swapped f slot) s"
  have I0: "I ?s0" using Suc.prems emit by simp
  obtain si p where si: "get_page_from_swap ?s0 slot = Inr si"
    and p: "page_at (memory ?s0) (f * 16) = Inr p"
    and scan: "swap_scan (swapPage fuel) slot f pid si (copyPage p) [0, 1, 2, 3] ?s0 = Inr s'"
    using Suc.prems(1) by (auto simp: Let_def simp del: swap_scan.simps)
  have f: "0 \<le> f" "f \<le> 3" using frame_of_page_at [OF shape [OF I0] p] by auto
  have slot: "0 \<le> slot" using si by (auto simp: get_page_from_swap_def aget_Inr_iff in_bounds_def)
  show ?case
    by (rule swap_scan_keeps [OF _ I0 f slot _ scan]) (use Suc.IH in auto)
qed

end

section \<open>Invariants of a swap\<close>

definition own_table :: "int \<Rightarrow> int \<Rightarrow> vm \<Rightarrow> bool" where
  "own_table pid t s \<longleftrightarrow> vm_shape s \<and> 0 \<le> t \<and> aget (page_table_start s) pid = Inr t"

definition free_list_is :: "int list \<Rightarrow> vm \<Rightarrow> bool" where
  "free_list_is fl s \<longleftrightarrow> vm_shape s \<and> free_list s = fl"

lemma vm_shape_simps [simp]:
  "vm_shape (emit msg s) = vm_shape s"
  "vm_shape s \<Longrightarrow> vm_shape (advance s)"
  "vm_shape (remap_tables slot f s) = vm_shape s"
  by (auto simp: vm_shape_def)

lemma vm_shape_dests:
  "exchange slot f si (copyPage so) s = Inr s' \<Longrightarrow> vm_shape s \<Longrightarrow> vm_shape s'"
  "mark_swapped a slot s = Inr s' \<Longrightarrow> vm_shape s \<Longrightarrow> vm_shape s'"
  "set_table i pt s = Inr s' \<Longrightarrow> vm_shape s \<Longrightarrow> vm_shape s'"
  by (auto simp: vm_shape_def exchange_Inr mark_swapped_Inr set_table_Inr list_all_iff
      dest!: subsetD [OF set_update_subset_insert])

interpretation shape_swap: swap_invariant vm_shape pid for pid
  by unfold_locales (auto dest: vm_shape_dests)

lemma own_table_remap: "own_table pid t s \<Longrightarrow> 0 \<le> slot \<Longrightarrow> own_table pid t (remap_tables slot f s)"
  by (auto simp: own_table_def aget_Inr_iff in_bounds_def indexToSwap_def)

lemma own_table_set_table:
  assumes "own_table pid t s" "set_table i v s = Inr s'"
    and "i \<noteq> pid \<or> (\<exists>pt < 0. aget (page_table_start s) i = Inr pt)"
  shows "own_table pid t s'"
proof -
  have "vm_shape s'" using assms(1,2) vm_shape_dests(3) by (simp add: own_table_def)
  moreover have "i \<noteq> pid" using assms(1,3) by (auto simp: own_table_def)
  ultimately show ?thesis using assms(1,2)
    by (auto simp: own_table_def set_table_Inr aget_Inr_iff in_bounds_def nth_list_update)
qed

interpretation own_swap: swap_invariant "own_table pid t" pid for pid t
proof unfold_locales
  fix s i slot s'
  assume "own_table pid t s" "i \<noteq> pid" "set_table i (swapToIndex slot) s = Inr s'"
  then show "own_table pid t s'" by (blast intro: own_table_set_table)
next
  fix s i pt f s'
  assume "own_table pid t s" "aget (page_table_start s) i = Inr pt" "pt < 0" "set_table i f s = Inr s'"
  then show "own_table pid t s'" by (blast intro: own_table_set_table)
qed (auto simp: own_table_remap, auto simp: own_table_def exchange_table_start mark_table_start dest: vm_shape_dests)

text \<open>
  The answers the user is waiting for (a value loaded or stored, an access refused), without the
  physical address and without the lines about swaps and frames. A swap adds none.
\<close>

datatype reply = NoPage | WriteRefused | StoredAt int int | LoadedFrom int int

fun reply_of :: "message \<Rightarrow> reply list" where
  "reply_of NotAllocatedYet = [NoPage]"
| "reply_of ReadOnly = [WriteRefused]"
| "reply_of (StoredValue v va pa) = [StoredAt v va]"
| "reply_of (LoadedValue v va pa) = [LoadedFrom v va]"
| "reply_of _ = []"

definition replies :: "message list \<Rightarrow> reply list" where
  "replies ms = concat (map reply_of ms)"

lemma replies_simps [simp]:
  "replies [] = []" "replies (m # ms) = reply_of m @ replies ms" "replies (ms @ ns) = replies ms @ replies ns"
  by (simp_all add: replies_def)

lemma swap_chatter_silent: "swap_chatter m \<Longrightarrow> reply_of m = []"
  by (auto simp: swap_chatter_def)

definition replies_are :: "reply list \<Rightarrow> vm \<Rightarrow> bool" where
  "replies_are rs s \<longleftrightarrow> vm_shape s \<and> replies (out s) = rs"

lemma actions_out:
  "exchange slot f si so s = Inr s' \<Longrightarrow> out s' = out s"
  "mark_swapped a slot s = Inr s' \<Longrightarrow> out s' = out s"
  "set_table i pt s = Inr s' \<Longrightarrow> out s' = out s"
  by (auto simp: exchange_Inr mark_swapped_Inr set_table_Inr)

interpretation reply_swap: swap_invariant "replies_are rs" pid for rs pid
  by unfold_locales (auto simp: replies_are_def swap_chatter_silent actions_out dest: vm_shape_dests)

interpretation free_swap: swap_invariant "free_list_is fl" pid for fl pid
  by unfold_locales (auto simp: free_list_is_def actions_free_list dest: vm_shape_dests)

lemma swapPage_shape: "swapPage fuel s slot f pid = Inr s' \<Longrightarrow> vm_shape s \<Longrightarrow> vm_shape s'"
  by (rule shape_swap.swapPage_keeps)

lemma swapPage_own_table:
  "swapPage fuel s slot f pid = Inr s' \<Longrightarrow> own_table pid t s \<Longrightarrow> own_table pid t s'"
  by (rule own_swap.swapPage_keeps)

lemma swapPage_free_list:
  "swapPage fuel s slot f pid = Inr s' \<Longrightarrow> vm_shape s \<Longrightarrow> free_list s' = free_list s"
  using free_swap.swapPage_keeps [of fuel s slot f pid s' "free_list s"] by (simp add: free_list_is_def)

lemma swapPage_replies:
  "swapPage fuel s slot f pid = Inr s' \<Longrightarrow> vm_shape s \<Longrightarrow> replies (out s') = replies (out s)"
  using reply_swap.swapPage_keeps [of fuel s slot f pid s' "replies (out s)"] by (simp add: replies_are_def)

section \<open>Termination\<close>

text \<open>
  The measure of a call: the page tables that are not in memory, plus one when the slot holds none of
  them (a nested call always brings in a page table, so the number falls from level to level), three
  times over for the at most two refusals of a level.
\<close>

definition outside :: "vm \<Rightarrow> nat" where
  "outside s = length (filter (\<lambda>pt. \<not> (0 \<le> pt \<and> pt \<le> 3)) (page_table_start s))"

definition table_in_slot :: "vm \<Rightarrow> int \<Rightarrow> bool" where
  "table_in_slot s slot \<longleftrightarrow> slot \<in> indexToSwap ` set (page_table_start s)"

definition refusals :: "int \<Rightarrow> int \<Rightarrow> vm \<Rightarrow> nat" where
  "refusals pid f s =
     (if aget (page_table_start s) pid = Inr f then if (nextSwap s + 1) mod 4 = f then 2 else 1 else 0)"

definition swap_need :: "vm \<Rightarrow> int \<Rightarrow> int \<Rightarrow> int \<Rightarrow> nat" where
  "swap_need s slot f pid =
     3 * (outside s + (if table_in_slot s slot then 0 else 1)) + refusals pid f s + 1"

lemma filter_map_mono: "(\<And>x. P (g x) \<Longrightarrow> P x) \<Longrightarrow> length (filter P (map g xs)) \<le> length (filter P xs)"
proof (induction xs)
  case (Cons x xs)
  then have "length (filter P (map g xs)) \<le> length (filter P xs)" by simp
  moreover have "P (g x) \<Longrightarrow> P x" by (rule Cons.prems)
  ultimately show ?case by auto
qed simp

lemma filter_map_less:
  "(\<And>x. P (g x) \<Longrightarrow> P x) \<Longrightarrow> y \<in> set xs \<Longrightarrow> P y \<Longrightarrow> \<not> P (g y) \<Longrightarrow>
   length (filter P (map g xs)) < length (filter P xs)"
proof (induction xs)
  case (Cons x xs)
  have mono: "length (filter P (map g xs)) \<le> length (filter P xs)"
    by (rule filter_map_mono) (rule Cons.prems(1))
  have x: "P (g x) \<Longrightarrow> P x" by (rule Cons.prems(1))
  show ?case
  proof (cases "y = x")
    case True
    with Cons.prems mono show ?thesis by auto
  next
    case False
    with Cons have "length (filter P (map g xs)) < length (filter P xs)" by auto
    with x show ?thesis by auto
  qed
qed simp

lemma outside_remap:
  assumes "0 \<le> f" "f \<le> 3" "0 \<le> slot"
  shows "outside (remap_tables slot f s) + (if table_in_slot s slot then 1 else 0) \<le> outside s"
proof -
  let ?P = "\<lambda>pt :: int. \<not> (0 \<le> pt \<and> pt \<le> 3)"
  let ?g = "\<lambda>pt. if indexToSwap pt = slot then f else pt"
  have mono: "?P (?g x) \<Longrightarrow> ?P x" for x using assms by (auto split: if_splits)
  show ?thesis
  proof (cases "table_in_slot s slot")
    case True
    then obtain y where y: "y \<in> set (page_table_start s)" "indexToSwap y = slot"
      by (auto simp: table_in_slot_def)
    then have "?P y" "\<not> ?P (?g y)" using assms by (auto simp: indexToSwap_def)
    then show ?thesis
      using filter_map_less [of ?P ?g y "page_table_start s", OF mono y(1)] True by (simp add: outside_def)
  next
    case False
    then show ?thesis
      using filter_map_mono [of ?P ?g "page_table_start s", OF mono] by (simp add: outside_def)
  qed
qed

lemma outside_bound: "vm_shape s \<Longrightarrow> outside s \<le> 4"
  using length_filter_le [of "\<lambda>pt. \<not> (0 \<le> pt \<and> pt \<le> 3)" "page_table_start s"]
  by (simp add: outside_def vm_shape_def)

lemma refusals_bound: "refusals pid f s \<le> 2"
  by (simp add: refusals_def)

lemma refusals_refused:
  assumes "aget (page_table_start s) pid = Inr f"
  shows "refusals pid (nextSwap (advance (emit SwapRefused s))) (advance (emit SwapRefused s)) < refusals pid f s"
proof -
  have "(k + 1) mod 4 \<noteq> k" for k :: int by presburger
  with assms show ?thesis by (auto simp: refusals_def)
qed

lemma evict_no_fuel:
  "no_fuel_fault (evict_table slot f si so i s)"
  "no_fuel_fault (evict_mapped slot f si so a s)"
  "no_fuel_fault (evict_with_table slot f si so i j s)"
  by (simp_all add: evict_table_def evict_mapped_def evict_with_table_def no_fuel_fault_cbind)

lemma evict_remote_no_fuel:
  assumes "\<And>s1 pt. exchange slot f si so s = Inr s1 \<Longrightarrow> aget (page_table_start (remap_tables slot f s1)) i = Inr pt \<Longrightarrow>
     no_fuel_fault (rec (remap_tables slot f s1) (indexToSwap pt) ((f + 1) mod 4) pid)"
  shows "no_fuel_fault (evict_remote rec slot f pid si so i j s)"
  unfolding evict_remote_def Let_def
  by (intro no_fuel_fault_cbind assms) simp_all

lemma swapPage_enough_fuel:
  "vm_shape s \<Longrightarrow> swap_need s slot f pid \<le> fuel \<Longrightarrow> no_fuel_fault (swapPage fuel s slot f pid)"
proof (induction fuel arbitrary: s slot f)
  case 0
  then show ?case by (simp add: swap_need_def)
next
  case (Suc fuel)
  let ?s = "emit (Swapped f slot) s"
  have need: "swap_need ?s slot f pid \<le> Suc fuel" and sh: "vm_shape ?s"
    using Suc.prems
    by (auto simp: swap_need_def outside_def table_in_slot_def refusals_def)
  have scan: "no_fuel_fault (swap_scan (swapPage fuel) slot f pid si (copyPage p) [0, 1, 2, 3] ?s)"
    if f: "0 \<le> f" "f \<le> 3" and slot: "0 \<le> slot" for si p
  proof -
    have refused: "no_fuel_fault (swapPage fuel (advance (emit SwapRefused ?s)) slot (nextSwap (advance (emit SwapRefused ?s))) pid)"
      if "aget (page_table_start ?s) pid = Inr f"
    proof (rule Suc.IH)
      show "vm_shape (advance (emit SwapRefused ?s))" using sh by simp
      show "swap_need (advance (emit SwapRefused ?s)) slot (nextSwap (advance (emit SwapRefused ?s))) pid \<le> fuel"
        using need refusals_refused [OF that] by (simp add: swap_need_def outside_def table_in_slot_def)
    qed
    have remote: "no_fuel_fault (evict_remote (swapPage fuel) slot f pid si (copyPage p) i j ?s)" for i j
    proof (rule evict_remote_no_fuel, rule Suc.IH)
      fix s1 pt
      assume s1: "exchange slot f si (copyPage p) ?s = Inr s1"
        and pt: "aget (page_table_start (remap_tables slot f s1)) i = Inr pt"
      show "vm_shape (remap_tables slot f s1)" using sh vm_shape_dests(1) [OF s1] by simp
      have same: "outside s1 = outside ?s" "table_in_slot s1 slot = table_in_slot ?s slot"
        using s1 by (auto simp: exchange_Inr outside_def table_in_slot_def)
      have "table_in_slot (remap_tables slot f s1) (indexToSwap pt)"
        using pt by (auto simp: table_in_slot_def aget_Inr_iff in_bounds_iff simp del: remap_fields)
      moreover note refusals_bound [of pid "(f + 1) mod 4" "remap_tables slot f s1"]
      ultimately show "swap_need (remap_tables slot f s1) (indexToSwap pt) ((f + 1) mod 4) pid \<le> fuel"
        using outside_remap [OF f slot, of s1] need same unfolding swap_need_def by (auto split: if_splits)
    qed
    have ends: "no_fuel_fault r" if "scan_ends (swapPage fuel) slot f pid si (copyPage p) i ?s r" for i r
      using that refused remote evict_no_fuel unfolding scan_ends_def
      by (auto simp: no_fuel_fault_def [of "Inl OutOfBounds"] split: if_splits)
    show ?thesis
      using swap_scan_ends [of "swapPage fuel" slot f pid si "copyPage p" "[0, 1, 2, 3]" ?s] ends
      by (metis no_fuel_fault_Inr)
  qed
  show ?case
    unfolding swapPage.simps Let_def
  proof (intro no_fuel_fault_cbind)
    fix si p
    assume "get_page_from_swap ?s slot = Inr si" "page_at (memory ?s) (f * 16) = Inr p"
    then show "no_fuel_fault (swap_scan (swapPage fuel) slot f pid si (copyPage p) [0, 1, 2, 3] ?s)"
      using frame_of_page_at [OF sh] scan by (auto simp: get_page_from_swap_def aget_Inr_iff in_bounds_def)
  qed simp_all
qed

end
