(* ===== verification/Mem_Manager.thy ===== *)
theory Mem_Manager
  imports Page_Swap
begin

text \<open>
  The instructions of the memory manager, the parser of its input lines and its main loop
  (src/project-4/main.c 202-458). \<^verbatim>\<open>mapInst\<close>, \<^verbatim>\<open>storeInst\<close> and \<^verbatim>\<open>loadInst\<close> take the state and return
  the new one; what they print is appended to \<open>out\<close>. A field of \<^verbatim>\<open>struct user_input\<close> that
  \<^verbatim>\<open>preProcess\<close> leaves unwritten is \<open>None\<close>; \<^verbatim>\<open>main\<close> passes it on to \<^verbatim>\<open>process\<close> all the same, which is
  a use of an indeterminate value.

  The shift \<^verbatim>\<open>virtual_address>>4\<close> is the floor division by 16 and \<^verbatim>\<open>virtual_address&0xf\<close> the
  remainder, also for negative addresses, as on the two's complement target.
\<close>

section \<open>mapInst\<close>

text \<open>The empty loop \<^verbatim>\<open>for(i = 0; i < 4 && free_list[i] == FULL; i++){}\<close>.\<close>

fun scan_free :: "int list \<Rightarrow> int \<Rightarrow> int" where
  "scan_free [] i = i"
| "scan_free (x # xs) i = (if x = FULL then scan_free xs (i + 1) else i)"

definition zero_page :: page where
  "zero_page = replicate 16 0"

definition in_memory :: "int \<Rightarrow> bool" where
  "in_memory pt \<longleftrightarrow> 0 \<le> pt \<and> pt \<le> 3"

definition map_table :: "int \<Rightarrow> vm \<Rightarrow> vm cres" where
  "map_table pid s =
     cbind (aget (page_table_start s) pid) (\<lambda>pt.
     if \<not> in_memory pt then
       (let i = scan_free (free_list s) 0 in
        if i = 4 then
          cbind (if pt = NOTALLOC
                 then cbind (append_page_to_swap s zero_page) (\<lambda>(_, s1).
                      set_table pid (swapToIndex (get_num_pages_in_swap s1 - 1)) s1)
                 else Inr s) (\<lambda>s2.
          cbind (aget (page_table_start s2) pid) (\<lambda>pt2.
          cbind (swapPage swap_fuel s2 (indexToSwap pt2) (nextSwap s2) pid) (\<lambda>s3.
          Inr (if pt = NOTALLOC then emit (PutTable pid (nextSwap s2)) s3 else s3))))
        else
          cbind (set_table pid i s) (\<lambda>s1.
          cbind (aset (free_list s1) i FULL) (\<lambda>fl.
          Inr (emit (PutTable pid i) (s1\<lparr>free_list := fl\<rparr>)))))
     else Inr s)"

text \<open>The four assignments to the entry at byte \<open>a\<close> (lines 256-259 and 265-268).\<close>

definition fill_entry :: "int \<Rightarrow> int \<Rightarrow> int \<Rightarrow> vm \<Rightarrow> vm cres" where
  "fill_entry a prot f s =
     cbind (set_alloc (memory s) a 1) (\<lambda>m1.
     cbind (set_valid m1 a 1) (\<lambda>m2.
     cbind (set_protection m2 a prot) (\<lambda>m3.
     cbind (set_frame m3 a f) (\<lambda>m4.
     Inr (s\<lparr>memory := m4\<rparr>)))))"

text \<open>\<^verbatim>\<open>if(nextSwap == page_table_start[pid]) nextSwap = (nextSwap + 1)%4;\<close>\<close>

definition skip_own_table :: "int \<Rightarrow> vm \<Rightarrow> vm cres" where
  "skip_own_table pid s =
     cbind (aget (page_table_start s) pid) (\<lambda>pt. Inr (if nextSwap s = pt then advance s else s))"

definition map_page :: "int \<Rightarrow> int \<Rightarrow> int \<Rightarrow> int \<Rightarrow> vm \<Rightarrow> vm cres" where
  "map_page pid va prot a s =
     (let i = scan_free (free_list s) 0 in
      if i = 4 then
        cbind (skip_own_table pid s) (\<lambda>s1.
        cbind (alloc (memory s1) a) (\<lambda>oldAlloc.
        cbind (if oldAlloc = 0
               then cbind (append_page_to_swap s1 zero_page) (\<lambda>(_, s2).
                    cbind (set_swapspace (memory s2) a (get_num_pages_in_swap s2 - 1)) (\<lambda>m.
                    Inr (s2\<lparr>memory := m\<rparr>)))
               else Inr s1) (\<lambda>s3.
        cbind (swapspace (memory s3) a) (\<lambda>slot.
        cbind (swapPage swap_fuel s3 slot (nextSwap s3) pid) (\<lambda>s4.
        fill_entry a prot (nextSwap s1) s4)))))
      else
        cbind (aset (free_list s) i FULL) (\<lambda>fl.
        fill_entry a prot i (emit (Mapped va (va div 16) i) s\<lparr>free_list := fl\<rparr>)))"

definition mapInst :: "int \<Rightarrow> int \<Rightarrow> int \<Rightarrow> vm \<Rightarrow> vm cres" where
  "mapInst pid va prot s =
     cbind (map_table pid s) (\<lambda>s1.
     cbind (aget (page_table_start s1) pid) (\<lambda>pt.
     (let a = pt * 16 + (va div 16) * 2 in
     cbind (alloc (memory s1) a) (\<lambda>oldAlloc.
     (let s2 = (if oldAlloc = 0 then emit AllocatingNew s1 else s1) in
     cbind (protection (memory s2) a) (\<lambda>oldProt.
     cbind (valid (memory s2) a) (\<lambda>v.
     cbind (if oldAlloc = 0 \<or> v = 0 then map_page pid va prot a s2 else Inr s2) (\<lambda>s3.
     if oldAlloc = 1 then
       if oldProt = prot then Inr (emit (AlreadyMapped (va div 16) prot) s3)
       else
         cbind (set_protection (memory s3) a prot) (\<lambda>m.
         Inr ((emit UpdatingProtection s3)\<lparr>memory := m\<rparr>))
     else Inr s3))))))))"

section \<open>storeInst and loadInst\<close>

text \<open>The page table is brought into memory (lines 285-289 and 318-322).\<close>

definition bring_table :: "int \<Rightarrow> vm \<Rightarrow> vm cres" where
  "bring_table pid s =
     cbind (aget (page_table_start s) pid) (\<lambda>pt.
     if pt < 0 \<or> pt > 3 then swapPage swap_fuel s (indexToSwap pt) (nextSwap s) pid else Inr s)"

text \<open>The page of the entry at byte \<open>a\<close> is brought into memory (lines 299-307 and 328-336).\<close>

definition bring_page :: "int \<Rightarrow> int \<Rightarrow> vm \<Rightarrow> vm cres" where
  "bring_page pid a s =
     cbind (valid (memory s) a) (\<lambda>v.
     if v = 0 then
       cbind (skip_own_table pid s) (\<lambda>s1.
       cbind (swapspace (memory s1) a) (\<lambda>slot.
       cbind (swapPage swap_fuel s1 slot (nextSwap s1) pid) (\<lambda>s2.
       cbind (set_valid (memory s2) a 1) (\<lambda>m1.
       cbind (set_frame m1 a (nextSwap s1)) (\<lambda>m2.
       Inr (s2\<lparr>memory := m2\<rparr>))))))
     else Inr s)"

definition storeInst :: "int \<Rightarrow> int \<Rightarrow> int \<Rightarrow> vm \<Rightarrow> vm cres" where
  "storeInst pid va value s =
     cbind (aget (page_table_start s) pid) (\<lambda>pt0.
     if pt0 \<noteq> NOTALLOC then
       cbind (bring_table pid s) (\<lambda>s1.
       cbind (aget (page_table_start s1) pid) (\<lambda>pt.
       (let a = pt * 16 + (va div 16) * 2 in
       cbind (alloc (memory s1) a) (\<lambda>al.
       if al = 0 then Inr (emit NotAllocatedYet s1)
       else
         cbind (protection (memory s1) a) (\<lambda>pr.
         if pr = 0 then Inr (emit ReadOnly s1)
         else
           cbind (bring_page pid a s1) (\<lambda>s2.
           cbind (frame (memory s2) a) (\<lambda>fr.
           (let newAddress = va mod 16 + fr * 16 in
           cbind (aset (memory s2) newAddress (word_of_int value)) (\<lambda>m.
           Inr ((emit (StoredValue value va newAddress) s2)\<lparr>memory := m\<rparr>))))))))))
     else Inr (emit NotAllocatedYet s))"

definition loadInst :: "int \<Rightarrow> int \<Rightarrow> vm \<Rightarrow> vm cres" where
  "loadInst pid va s =
     cbind (aget (page_table_start s) pid) (\<lambda>pt0.
     if pt0 \<noteq> NOTALLOC then
       cbind (bring_table pid s) (\<lambda>s1.
       cbind (aget (page_table_start s1) pid) (\<lambda>pt.
       (let a = pt * 16 + (va div 16) * 2 in
       cbind (alloc (memory s1) a) (\<lambda>al.
       if al = 0 then Inr (emit NotAllocatedYet s1)
       else
         cbind (bring_page pid a s1) (\<lambda>s2.
         cbind (frame (memory s2) a) (\<lambda>fr.
         (let newAddress = va mod 16 + fr * 16 in
         cbind (aget (memory s2) newAddress) (\<lambda>b.
         Inr (emit (LoadedValue (uint b) va newAddress) s2)))))))))
     else Inr (emit NotAllocatedYet s))"

section \<open>Parsing and the main loop\<close>

datatype instructions = load | store | map_instr

record user_input =
  ui_valid :: int
  ui_pid :: "int option"
  ui_instruction :: "instructions option"
  ui_virtual_address :: "int option"
  ui_value :: "int option"

definition process :: "int \<Rightarrow> instructions \<Rightarrow> int \<Rightarrow> int \<Rightarrow> vm \<Rightarrow> vm cres" where
  "process pid instruction va value s =
     (if instruction = map_instr then mapInst pid va value s
      else if instruction = store then storeInst pid va value s
      else if instruction = load then loadInst pid va s
      else Inr s)"

definition parse_instruction :: "string \<Rightarrow> instructions option" where
  "parse_instruction w =
     (if w = ''store'' then Some store
      else if w = ''load'' then Some load
      else if w = ''map'' then Some map_instr
      else None)"

definition unparsed :: user_input where
  "unparsed = \<lparr>ui_valid = 0, ui_pid = None, ui_instruction = None, ui_virtual_address = None, ui_value = None\<rparr>"

definition preProcess :: "string \<Rightarrow> user_input" where
  "preProcess input =
     (case tokens CHR '','' input of
        p # i # a # v # _ \<Rightarrow>
          (let instr = parse_instruction i
           in \<lparr>ui_valid = (if instr = None then -1 else 1),
               ui_pid = Some (atoi p), ui_instruction = instr,
               ui_virtual_address = Some (atoi a), ui_value = Some (atoi v)\<rparr>)
      | _ \<Rightarrow> unparsed)"

text \<open>The call of \<^verbatim>\<open>process\<close> in \<^verbatim>\<open>main\<close> (line 455): made whatever \<^verbatim>\<open>ui.valid\<close> is.\<close>

definition call_process :: "user_input \<Rightarrow> vm \<Rightarrow> vm cres" where
  "call_process ui s =
     (case (ui_pid ui, ui_instruction ui, ui_virtual_address ui, ui_value ui) of
        (Some pid, Some instruction, Some va, Some value) \<Rightarrow> process pid instruction va value s
      | _ \<Rightarrow> Inl Indeterminate)"

text \<open>One round of the loop on the word that \<^verbatim>\<open>scanf("%s", instruction)\<close> read into 100 bytes.\<close>

definition main_step :: "string \<Rightarrow> vm \<Rightarrow> vm cres" where
  "main_step w s =
     (if 100 \<le> length w then Inl OutOfBounds
      else
        (let s1 = emit (InputReceived w) (emit Prompt s);
             ui = preProcess w;
             s2 = (if ui_valid ui \<noteq> 1 then emit InvalidInput s1 else s1)
         in call_process ui s2))"

fun main_loop :: "string list \<Rightarrow> vm \<Rightarrow> vm cres" where
  "main_loop [] s = Inr (emit EndOfProgram (emit Prompt s))"
| "main_loop (w # ws) s = cbind (main_step w s) (main_loop ws)"

definition init_vm :: vm where
  "init_vm = \<lparr>memory = replicate 64 0, swap_states = replicate 20 FREE, swap = replicate 20 zero_page,
     page_table_start = replicate 4 NOTALLOC, free_list = replicate 4 EMPTY, nextSwap = 0, out = []\<rparr>"

definition main :: "string list \<Rightarrow> vm cres" where
  "main input = main_loop input init_vm"

section \<open>Every instruction keeps the shape of the state and returns\<close>

text \<open>
  \<open>safe_res r\<close>: the computation did not run out of fuel, and the state it returned, if any, is well
  shaped. The rule for \<open>cbind\<close> follows
  the instructions step by step; the shape of an intermediate state is the fact about the operation
  that returned it.
\<close>

definition safe_res :: "vm cres \<Rightarrow> bool" where
  "safe_res r \<longleftrightarrow> no_fuel_fault r \<and> (\<forall>s'. r = Inr s' \<longrightarrow> vm_shape s')"

lemma safe_Inr [simp]: "safe_res (Inr s) = vm_shape s"
  by (simp add: safe_res_def)

lemma safe_cbind_value:
  "no_fuel_fault m \<Longrightarrow> (\<And>x. m = Inr x \<Longrightarrow> safe_res (f x)) \<Longrightarrow> safe_res (cbind m f)"
  by (cases m) (auto simp: safe_res_def no_fuel_fault_def)

lemma safe_resD: "safe_res r \<Longrightarrow> r = Inr s \<Longrightarrow> vm_shape s"
  by (simp add: safe_res_def)

lemma safe_no_fuel: "safe_res r \<Longrightarrow> no_fuel_fault r"
  by (simp add: safe_res_def)

lemma swap_need_bound: "vm_shape s \<Longrightarrow> swap_need s slot f pid \<le> swap_fuel"
  using outside_bound [of s] refusals_bound [of pid f s] by (simp add: swap_need_def swap_fuel_def)

lemma swapPage_safe: "vm_shape s \<Longrightarrow> safe_res (swapPage swap_fuel s slot f pid)"
  by (simp add: safe_res_def swapPage_enough_fuel swap_need_bound swapPage_shape)

lemma vm_shape_update:
  "vm_shape s \<Longrightarrow> length m = length (memory s) \<Longrightarrow> vm_shape (s\<lparr>memory := m\<rparr>)"
  "vm_shape s \<Longrightarrow> length fl = length (free_list s) \<Longrightarrow> vm_shape (s\<lparr>free_list := fl\<rparr>)"
  by (simp_all add: vm_shape_def)

lemma set_field_lengths:
  "set_alloc m a v = Inr m' \<Longrightarrow> length m' = length m"
  "set_valid m a v = Inr m' \<Longrightarrow> length m' = length m"
  "set_protection m a v = Inr m' \<Longrightarrow> length m' = length m"
  "set_frame m a v = Inr m' \<Longrightarrow> length m' = length m"
  "set_swapspace m a v = Inr m' \<Longrightarrow> length m' = length m"
  by (auto simp: set_alloc_def set_valid_def set_protection_def set_frame_def set_swapspace_def
      dest: set_field_length aset_length)

lemma field_access_no_fuel [simp]:
  "no_fuel_fault (alloc m a)" "no_fuel_fault (valid m a)" "no_fuel_fault (protection m a)"
  "no_fuel_fault (frame m a)" "no_fuel_fault (set_alloc m a v)" "no_fuel_fault (set_valid m a v)"
  "no_fuel_fault (set_protection m a v)" "no_fuel_fault (set_frame m a v)"
  by (simp_all add: field_defs field_no_fuel)

lemma set_table_safe: "vm_shape s \<Longrightarrow> safe_res (set_table i pt s)"
  by (auto simp: safe_res_def dest: vm_shape_dests)

lemma fill_entry_safe: "vm_shape s \<Longrightarrow> safe_res (fill_entry a prot f s)"
  unfolding fill_entry_def
  by (intro safe_cbind_value) (simp_all add: vm_shape_update set_field_lengths)

lemma skip_own_table_safe: "vm_shape s \<Longrightarrow> safe_res (skip_own_table pid s)"
  unfolding skip_own_table_def by (intro safe_cbind_value) simp_all

lemma append_page_no_fuel [simp]: "no_fuel_fault (append_page_to_swap s p)"
  unfolding append_page_to_swap_def by (auto split: option.splits intro!: no_fuel_fault_cbind)

lemma append_page_shape:
  "append_page_to_swap s p = Inr (i, s') \<Longrightarrow> vm_shape s \<Longrightarrow> length p = 16 \<Longrightarrow> vm_shape s'"
  by (auto simp: append_page_to_swap_def vm_shape_def aset_Inr_iff list_all_iff split: option.splits
      dest!: subsetD [OF set_update_subset_insert])

lemma append_zero_page_shape: "append_page_to_swap s zero_page = Inr (i, s') \<Longrightarrow> vm_shape s \<Longrightarrow> vm_shape s'"
  using append_page_shape by (simp add: zero_page_def)

lemmas step_shapes =
  safe_resD [OF swapPage_safe, rotated] safe_resD [OF set_table_safe, rotated]
  safe_resD [OF fill_entry_safe, rotated] safe_resD [OF skip_own_table_safe, rotated] append_zero_page_shape

lemmas step_no_fuel = safe_no_fuel [OF swapPage_safe] safe_no_fuel [OF set_table_safe]
  safe_no_fuel [OF skip_own_table_safe]

lemma map_table_safe: "vm_shape s \<Longrightarrow> safe_res (map_table pid s)"
  unfolding map_table_def Let_def
  by (rule safe_cbind_value)
     (auto intro!: safe_cbind_value no_fuel_fault_cbind step_no_fuel
       simp: vm_shape_update aset_length dest!: step_shapes)

lemma map_page_safe: "vm_shape s \<Longrightarrow> safe_res (map_page pid va prot a s)"
  unfolding map_page_def Let_def
  by (auto intro!: safe_cbind_value no_fuel_fault_cbind step_no_fuel fill_entry_safe
       simp: vm_shape_update aset_length set_field_lengths dest!: step_shapes split: if_splits)

lemma bring_table_safe: "vm_shape s \<Longrightarrow> safe_res (bring_table pid s)"
  unfolding bring_table_def by (intro safe_cbind_value) (simp_all add: swapPage_safe)

lemma bring_page_safe: "vm_shape s \<Longrightarrow> safe_res (bring_page pid a s)"
  unfolding bring_page_def
  by (auto intro!: safe_cbind_value step_no_fuel
       simp: vm_shape_update set_field_lengths dest!: step_shapes)

lemmas access_shapes =
  safe_resD [OF map_table_safe, rotated] safe_resD [OF map_page_safe, rotated]
  safe_resD [OF bring_table_safe, rotated] safe_resD [OF bring_page_safe, rotated]

lemmas access_no_fuel = safe_no_fuel [OF map_table_safe] safe_no_fuel [OF map_page_safe]
  safe_no_fuel [OF bring_table_safe] safe_no_fuel [OF bring_page_safe]

lemma mapInst_safe: "vm_shape s \<Longrightarrow> safe_res (mapInst pid va prot s)"
  unfolding mapInst_def Let_def
  by (auto intro!: safe_cbind_value access_no_fuel
       simp: vm_shape_update set_field_lengths dest!: access_shapes split: if_splits)

lemma storeInst_safe: "vm_shape s \<Longrightarrow> safe_res (storeInst pid va v s)"
  unfolding storeInst_def Let_def
  by (auto intro!: safe_cbind_value access_no_fuel
       simp: vm_shape_update aset_length dest!: access_shapes)

lemma loadInst_safe: "vm_shape s \<Longrightarrow> safe_res (loadInst pid va s)"
  unfolding loadInst_def Let_def
  by (auto intro!: safe_cbind_value access_no_fuel dest!: access_shapes)

lemma process_safe: "vm_shape s \<Longrightarrow> safe_res (process pid i va v s)"
  by (simp add: process_def mapInst_safe storeInst_safe loadInst_safe)

lemma main_step_safe: "vm_shape s \<Longrightarrow> safe_res (main_step w s)"
  by (auto simp: main_step_def call_process_def Let_def process_safe safe_res_def [of "Inl _"]
      no_fuel_fault_def split: option.splits)

lemma main_loop_safe: "vm_shape s \<Longrightarrow> safe_res (main_loop ws s)"
proof (induction ws arbitrary: s)
  case (Cons w ws)
  then show ?case
    using main_step_safe [OF Cons.prems, of w] by (auto intro!: safe_cbind_value dest: safe_no_fuel safe_resD)
qed simp

lemma init_vm_shape: "vm_shape init_vm"
  by (simp add: vm_shape_def init_vm_def zero_page_def list_all_iff)

section \<open>What an instruction answers\<close>

lemma step_out:
  "fill_entry a prot f s = Inr s' \<Longrightarrow> out s' = out s"
  "skip_own_table pid s = Inr s' \<Longrightarrow> out s' = out s"
  "append_page_to_swap s p = Inr (i, s') \<Longrightarrow> out s' = out s"
  "set_table k pt s = Inr s' \<Longrightarrow> out s' = out s"
  by (auto simp: fill_entry_def skip_own_table_def append_page_to_swap_def set_table_def split: option.splits if_splits)

lemma step_replies:
  "fill_entry a prot f s = Inr s' \<Longrightarrow> replies_are rs s \<Longrightarrow> replies_are rs s'"
  "skip_own_table pid s = Inr s' \<Longrightarrow> replies_are rs s \<Longrightarrow> replies_are rs s'"
  "append_page_to_swap s zero_page = Inr (i, s') \<Longrightarrow> replies_are rs s \<Longrightarrow> replies_are rs s'"
  "set_table k pt s = Inr s' \<Longrightarrow> replies_are rs s \<Longrightarrow> replies_are rs s'"
  "swapPage swap_fuel s slot f pid = Inr s' \<Longrightarrow> replies_are rs s \<Longrightarrow> replies_are rs s'"
  by (auto simp: replies_are_def step_out swapPage_replies dest: step_shapes)

lemma replies_are_simps [simp]:
  "length m = length (memory s) \<Longrightarrow> replies_are rs (s\<lparr>memory := m\<rparr>) = replies_are rs s"
  "length fl = length (free_list s) \<Longrightarrow> replies_are rs (s\<lparr>free_list := fl\<rparr>) = replies_are rs s"
  "replies_are rs (emit (PutTable i f) s) = replies_are rs s" "replies_are rs (emit AllocatingNew s) = replies_are rs s"
  "replies_are rs (emit (Mapped x y z) s) = replies_are rs s" "replies_are rs (emit (AlreadyMapped y z) s) = replies_are rs s"
  "replies_are rs (emit UpdatingProtection s) = replies_are rs s"
  by (auto simp: replies_are_def vm_shape_def)

lemma map_table_replies: "map_table pid s = Inr s' \<Longrightarrow> replies_are rs s \<Longrightarrow> replies_are rs s'"
  unfolding map_table_def Let_def
  by (auto split: if_splits simp: aset_length dest!: step_replies [where rs = rs])

lemma map_page_replies: "map_page pid va prot a s = Inr s' \<Longrightarrow> replies_are rs s \<Longrightarrow> replies_are rs s'"
  unfolding map_page_def Let_def
  by (auto split: if_splits simp: set_field_lengths aset_length dest!: step_replies [where rs = rs])

lemma bring_table_replies: "bring_table pid s = Inr s' \<Longrightarrow> replies_are rs s \<Longrightarrow> replies_are rs s'"
  unfolding bring_table_def by (auto split: if_splits dest: step_replies)

lemma bring_page_replies: "bring_page pid a s = Inr s' \<Longrightarrow> replies_are rs s \<Longrightarrow> replies_are rs s'"
  unfolding bring_page_def
  by (auto split: if_splits simp: set_field_lengths dest!: step_replies [where rs = rs])

lemma mapInst_replies: "mapInst pid va prot s = Inr s' \<Longrightarrow> replies_are rs s \<Longrightarrow> replies_are rs s'"
  unfolding mapInst_def Let_def
  by (auto split: if_splits simp: set_field_lengths dest!: map_page_replies map_table_replies [where rs = rs])

end
