(* ===== verification/Single_Process.thy ===== *)
theory Single_Process
  imports Mem_Manager
begin

text \<open>
  What a program that runs alone (process 0) sees of the memory manager: a flat address space. The
  abstract state maps a page number to its protection and its sixteen bytes. The invariant says how
  the four frames, the swap space and the page table in frame 0 represent it, and every instruction,
  page replacement included, is simulated by the abstract one.
\<close>

section \<open>Page-table entries as records\<close>

record pte =
  pte_alloc :: int
  pte_valid :: int
  pte_prot :: int
  pte_frame :: int
  pte_slot :: int

definition decode :: "byte \<Rightarrow> byte \<Rightarrow> pte" where
  "decode b0 b1 = \<lparr>pte_alloc = bf_get 0 1 b0, pte_valid = bf_get 1 1 b0, pte_prot = bf_get 2 1 b0,
     pte_frame = bf_get 3 2 b0, pte_slot = uint b1\<rparr>"

definition ent :: "byte list \<Rightarrow> nat \<Rightarrow> pte" where
  "ent m j = decode (m ! (2 * j)) (m ! (2 * j + 1))"

definition content :: "byte list \<Rightarrow> nat \<Rightarrow> page" where
  "content m f = take 16 (drop (16 * f) m)"

lemma pte_ranges:
  "pte_alloc (ent m j) = 0 \<or> pte_alloc (ent m j) = 1"
  "pte_valid (ent m j) = 0 \<or> pte_valid (ent m j) = 1"
  "pte_prot (ent m j) = 0 \<or> pte_prot (ent m j) = 1"
  "0 \<le> pte_frame (ent m j)" "pte_frame (ent m j) \<le> 3" "0 \<le> pte_slot (ent m j)"
  using bf_bit_cases bf_frame_range by (auto simp: ent_def decode_def)

lemma ent_update:
  "2 * k + 1 < length m \<Longrightarrow> ent (m[2 * k := b0, 2 * k + 1 := b1]) j = (if j = k then decode b0 b1 else ent m j)"
  by (auto simp: ent_def nth_list_update)

lemma ent_update0:
  "2 * k < length m \<Longrightarrow> ent (m[2 * k := b0]) j = (if j = k then decode b0 (m ! (2 * k + 1)) else ent m j)"
  by (auto simp: ent_def nth_list_update)

lemma ent_update1:
  "2 * k + 1 < length m \<Longrightarrow>
   ent (m[Suc (2 * k) := b1]) j = (if j = k then decode (m ! (2 * k)) b1 else ent m j)"
  by (auto simp: ent_def nth_list_update)

lemma ent_far: "8 \<le> i \<Longrightarrow> j < 4 \<Longrightarrow> ent (m[i := b]) j = ent m j"
  by (simp add: ent_def)

lemma ent_blit:
  "length m = 64 \<Longrightarrow> 1 \<le> f \<Longrightarrow> f < 4 \<Longrightarrow> length p = 16 \<Longrightarrow> j < 4 \<Longrightarrow> ent (blit m (16 * f) p) j = ent m j"
  by (simp add: ent_def nth_blit)

lemma content_near: "i < 16 \<Longrightarrow> 1 \<le> f \<Longrightarrow> content (m[i := b]) f = content m f"
  by (simp add: content_def)

lemma content_blit:
  assumes "length m = 64" "f < 4" "g < 4" "length p = 16"
  shows "content (blit m (16 * f) p) g = (if g = f then p else content m g)"
proof (rule nth_equalityI)
  show "length (content (blit m (16 * f) p) g) = length (if g = f then p else content m g)"
    using assms by (simp add: content_def)
  fix i assume "i < length (content (blit m (16 * f) p) g)"
  then have i: "i < 16" using assms by (simp add: content_def)
  have "16 * g + i < length m" using assms i by simp
  moreover have "(16 * f \<le> 16 * g + i \<and> 16 * g + i < 16 * f + 16) \<longleftrightarrow> g = f" using i by auto
  ultimately show "content (blit m (16 * f) p) g ! i = (if g = f then p else content m g) ! i"
    using assms i by (simp add: content_def nth_blit)
qed

lemma content_store:
  assumes "length m = 64" "f < 4" "g < 4" "off < 16"
  shows "content (m[16 * f + off := b]) g = (if g = f then (content m f)[off := b] else content m g)"
proof (cases "g = f")
  case True
  then show ?thesis by (simp add: content_def drop_update_swap take_update_swap)
next
  case False
  then have "16 * f + off < 16 * g \<or> 16 * g + 16 \<le> 16 * f + off" using assms(4) by auto
  then show ?thesis using False assms
    by (auto simp: content_def drop_update_swap take_update_swap intro!: nth_equalityI)
qed

lemma length_content: "length m = 64 \<Longrightarrow> f < 4 \<Longrightarrow> length (content m f) = 16"
  by (simp add: content_def)

section \<open>The abstract machine\<close>

type_synonym flat = "nat \<Rightarrow> (int \<times> byte list) option"

definition page_no :: "int \<Rightarrow> nat" where "page_no va = nat (va div 16)"
definition offset :: "int \<Rightarrow> nat" where "offset va = nat (va mod 16)"

definition flat_map :: "nat \<Rightarrow> int \<Rightarrow> flat \<Rightarrow> flat" where
  "flat_map j prot \<sigma> = \<sigma>(j \<mapsto> (prot, case \<sigma> j of None \<Rightarrow> zero_page | Some (_, bs) \<Rightarrow> bs))"

definition flat_store :: "int \<Rightarrow> byte \<Rightarrow> flat \<Rightarrow> flat" where
  "flat_store va b \<sigma> =
     (case \<sigma> (page_no va) of
        Some (pr, bs) \<Rightarrow> if pr = 0 then \<sigma> else \<sigma>(page_no va \<mapsto> (pr, bs[offset va := b]))
      | None \<Rightarrow> \<sigma>)"

definition flat_step :: "instructions \<Rightarrow> int \<Rightarrow> int \<Rightarrow> flat \<Rightarrow> flat" where
  "flat_step instr va v \<sigma> =
     (case instr of
        map_instr \<Rightarrow> flat_map (page_no va) v \<sigma>
      | store \<Rightarrow> flat_store va (word_of_int v) \<sigma>
      | load \<Rightarrow> \<sigma>)"

text \<open>What the user is told.\<close>

definition flat_answer :: "instructions \<Rightarrow> int \<Rightarrow> int \<Rightarrow> flat \<Rightarrow> reply list" where
  "flat_answer instr va v \<sigma> =
     (case instr of
        map_instr \<Rightarrow> []
      | store \<Rightarrow> (case \<sigma> (page_no va) of
            None \<Rightarrow> [NoPage]
          | Some (pr, bs) \<Rightarrow> if pr = 0 then [WriteRefused] else [StoredAt v va])
      | load \<Rightarrow> (case \<sigma> (page_no va) of
            None \<Rightarrow> [NoPage]
          | Some (pr, bs) \<Rightarrow> [LoadedFrom (uint (bs ! offset va)) va]))"

section \<open>Representation\<close>

definition live :: "pte \<Rightarrow> bool" where
  "live e \<longleftrightarrow> pte_alloc e = 1 \<and> pte_valid e = 1"

definition flat_of :: "vm \<Rightarrow> flat" where
  "flat_of s j =
     (let e = ent (memory s) j in
      if j < 4 \<and> page_table_start s ! 0 = 0 \<and> pte_alloc e = 1
      then Some (pte_prot e,
             if pte_valid e = 1 then content (memory s) (nat (pte_frame e)) else swap s ! nat (pte_slot e))
      else None)"

text \<open>The state before the first instruction: nothing is allocated, everything is zero.\<close>

definition fresh :: "vm \<Rightarrow> bool" where
  "fresh s \<longleftrightarrow> vm_shape s \<and> page_table_start s = [4, 4, 4, 4] \<and> free_list s = [0, 0, 0, 0] \<and>
     memory s = replicate 64 0 \<and> swap_states s = replicate 20 FREE"

text \<open>The part of the invariant that a page replacement relies on.\<close>

definition resident :: "vm \<Rightarrow> bool" where
  "resident s \<longleftrightarrow> vm_shape s \<and> page_table_start s = [0, 4, 4, 4] \<and> free_list s ! 0 = FULL \<and>
     (\<forall>j < 4. live (ent (memory s) j) \<longrightarrow>
        1 \<le> pte_frame (ent (memory s) j) \<and> free_list s ! nat (pte_frame (ent (memory s) j)) = FULL) \<and>
     (\<forall>j < 4. \<forall>k < 4. live (ent (memory s) j) \<and> live (ent (memory s) k) \<and>
        pte_frame (ent (memory s) j) = pte_frame (ent (memory s) k) \<longrightarrow> j = k) \<and>
     (\<forall>f. 1 \<le> f \<and> f < 4 \<and> free_list s ! f = FULL \<longrightarrow>
        (\<exists>j < 4. live (ent (memory s) j) \<and> pte_frame (ent (memory s) j) = int f)) \<and>
     (\<forall>f. 1 \<le> f \<and> f < 4 \<and> free_list s ! f \<noteq> FULL \<longrightarrow> content (memory s) f = zero_page)"

definition swapped_out :: "vm \<Rightarrow> nat \<Rightarrow> bool" where
  "swapped_out s j \<longleftrightarrow> j < 4 \<and> pte_alloc (ent (memory s) j) = 1 \<and> pte_valid (ent (memory s) j) = 0"

definition running :: "vm \<Rightarrow> bool" where
  "running s \<longleftrightarrow> resident s \<and>
     (\<forall>j. swapped_out s j \<longrightarrow> pte_slot (ent (memory s) j) = 0 \<and> free_list s = [1, 1, 1, 1]) \<and>
     ((\<exists>j. swapped_out s j) \<or> swap_states s = replicate 20 FREE)"

definition single :: "vm \<Rightarrow> bool" where
  "single s \<longleftrightarrow> fresh s \<or> running s"

section \<open>A page replacement\<close>

lemma field_ent:
  "length m = 64 \<Longrightarrow> j < 4 \<Longrightarrow> valid m (int j * 2) = Inr (pte_valid (ent m j))"
  "length m = 64 \<Longrightarrow> j < 4 \<Longrightarrow> alloc m (int j * 2) = Inr (pte_alloc (ent m j))"
  "length m = 64 \<Longrightarrow> j < 4 \<Longrightarrow> protection m (int j * 2) = Inr (pte_prot (ent m j))"
  "length m = 64 \<Longrightarrow> j < 4 \<Longrightarrow> frame m (int j * 2) = Inr (pte_frame (ent m j))"
  "length m = 64 \<Longrightarrow> j < 4 \<Longrightarrow> swapspace m (int j * 2) = Inr (pte_slot (ent m j))"
  by (auto simp: field_defs get_field_Inr_iff aget_def in_bounds_def ent_def decode_def
      nat_mult_distrib nat_add_distrib mult.commute)

lemma match_entry_unique:
  assumes m: "length m = 64" and k: "k < 4" "live (ent m k)" "pte_frame (ent m k) = f"
    and uniq: "\<And>j. j < 4 \<Longrightarrow> live (ent m j) \<Longrightarrow> pte_frame (ent m j) = f \<Longrightarrow> j = k"
  shows "match_entry m 0 f = Inr (Some (int k))"
proof -
  have no: "\<not> (pte_valid (ent m j) = 1 \<and> pte_alloc (ent m j) = 1 \<and> pte_frame (ent m j) = f)" if "j < k" for j
    using uniq [of j] that k(1) by (auto simp: live_def)
  have yes: "pte_valid (ent m k) = 1 \<and> pte_alloc (ent m k) = 1 \<and> pte_frame (ent m k) = f"
    using k by (auto simp: live_def)
  note F = field_ent [OF m, of 0, simplified] field_ent [OF m, of 1, simplified]
    field_ent [OF m, of 2, simplified] field_ent [OF m, of 3, simplified]
  show ?thesis
    using k(1) by (rule less_4_cases) (use no [of 0] no [of 1] no [of 2] yes in \<open>auto simp: match_entry_def F\<close>)
qed

definition replaced :: "nat \<Rightarrow> nat \<Rightarrow> vm \<Rightarrow> vm" where
  "replaced k f s = s\<lparr>
     memory := blit ((memory s)[2 * k := bf_set 1 1 0 (memory s ! (2 * k)), 2 * k + 1 := 0]) (16 * f) (swap s ! 0),
     swap_states := (swap_states s)[0 := CATALONIA],
     swap := (swap s)[0 := content (memory s) f],
     nextSwap := (nextSwap s + 1) mod 4,
     out := out s @ [Swapped (int f) 0]\<rparr>"

lemma resident_simps:
  assumes "resident s"
  shows "length (memory s) = 64" "length (swap s) = 20" "length (swap_states s) = 20" "length (free_list s) = 4"
    "page_table_start s = [0, 4, 4, 4]" "0 \<le> nextSwap s" "nextSwap s \<le> 3" "vm_shape s"
  using assms by (auto simp: resident_def vm_shape_def)

lemma swap_page_length: "vm_shape s \<Longrightarrow> i < 20 \<Longrightarrow> length (swap s ! i) = 16"
  by (auto simp: vm_shape_def list_all_length)

lemma swapPage_resident:
  assumes R: "resident s" and f: "1 \<le> f" "f < 4"
    and k: "k < 4" "live (ent (memory s) k)" "pte_frame (ent (memory s) k) = int f"
  shows "swapPage swap_fuel s 0 (int f) 0 = Inr (replaced k f s)"
proof -
  note S = resident_simps [OF R]
  have me: "match_entry (memory s) 0 (int f) = Inr (Some (int k))"
    by (rule match_entry_unique) (use R k S in \<open>auto simp: resident_def\<close>)
  have fuel: "swap_fuel = Suc 19" by (simp add: swap_fuel_def)
  have len: "length (swap s ! 0) = 16" using swap_page_length [OF S(8)] by simp
  have pg: "page_at (memory s) (int f * 16) = Inr (content (memory s) f)"
    using f S by (simp add: page_at_def content_def nat_mult_distrib mult.commute)
  have cl: "length (content (memory s) f) = 16" using length_content S f by simp
  have nat2: "nat (int k * 2) = 2 * k" "nat (int k * 2 + 1) = 2 * k + 1" "nat (int f * 16) = 16 * f"
    by simp_all
  have ev: "evict_mapped 0 (int f) (swap s ! 0) (content (memory s) f) (int k * 2)
      (emit (Swapped (int f) 0) s) = Inr (replaced k f s)"
    using S f k(1) len
    by (auto simp: evict_mapped_def cbind_Inr_iff mark_swapped_Inr exchange_Inr replaced_def copyPage_id
        in_bounds_def nat2 advance_def remap_tables_def indexToSwap_def emit_def)
  have scan: "swap_scan rec 0 (int f) 0 (swap s ! 0) (content (memory s) f) [0, 1, 2, 3] (emit (Swapped (int f) 0) s)
      = Inr (replaced k f s)" for rec
    using S f me ev by (simp add: aget_def in_bounds_def)
  have "get_page_from_swap (emit (Swapped (int f) 0) s) 0 = Inr (swap s ! 0)"
    using S by (simp add: get_page_from_swap_def aget_def in_bounds_def)
  then show ?thesis
    unfolding fuel swapPage.simps Let_def using pg cl scan by (simp add: copyPage_id del: swap_scan.simps)
qed

lemma ent_replaced:
  assumes "resident s" "1 \<le> f" "f < 4" "k < 4" "j < 4"
  shows "ent (memory (replaced k f s)) j =
    (if j = k then (ent (memory s) k)\<lparr>pte_valid := 0, pte_slot := 0\<rparr> else ent (memory s) j)"
proof -
  note S = resident_simps [OF assms(1)]
  have "length (swap s ! 0) = 16" using swap_page_length [OF S(8)] by simp
  then have "ent (memory (replaced k f s)) j =
      ent ((memory s)[2 * k := bf_set 1 1 0 (memory s ! (2 * k)), 2 * k + 1 := 0]) j"
    using assms S by (simp add: replaced_def ent_blit)
  also have "\<dots> = (if j = k then decode (bf_set 1 1 0 (memory s ! (2 * k))) 0 else ent (memory s) j)"
    using assms S by (intro ent_update) simp
  finally show ?thesis by (simp add: decode_def ent_def [of "memory s"] bf_fields)
qed

lemma content_replaced:
  assumes "resident s" "1 \<le> f" "f < 4" "k < 4" "1 \<le> g" "g < 4"
  shows "content (memory (replaced k f s)) g = (if g = f then swap s ! 0 else content (memory s) g)"
proof -
  note S = resident_simps [OF assms(1)]
  have "length (swap s ! 0) = 16" using swap_page_length [OF S(8)] by simp
  then show ?thesis using assms S by (simp add: replaced_def content_blit content_near)
qed

text \<open>Four entries, three frames: when the frames are full, an entry that is not live is the only one.\<close>

lemma others_live:
  assumes R: "resident s" and full: "free_list s = [1, 1, 1, 1]"
    and j: "j < 4" "\<not> live (ent (memory s) j)" and i: "i < 4" "i \<noteq> j"
  shows "live (ent (memory s) i)"
proof -
  have own: "\<exists>k < 4. live (ent (memory s) k) \<and> pte_frame (ent (memory s) k) = int f" if "1 \<le> f" "f < 4" for f
  proof -
    have "free_list s ! f = FULL" using that full by (auto simp: FULL_def less_Suc_eq numeral_eq_Suc)
    then show ?thesis using R that unfolding resident_def by blast
  qed
  obtain k1 where k1: "k1 < 4" "live (ent (memory s) k1)" "pte_frame (ent (memory s) k1) = 1" using own [of 1] by auto
  obtain k2 where k2: "k2 < 4" "live (ent (memory s) k2)" "pte_frame (ent (memory s) k2) = 2" using own [of 2] by auto
  obtain k3 where k3: "k3 < 4" "live (ent (memory s) k3)" "pte_frame (ent (memory s) k3) = 3" using own [of 3] by auto
  have "k1 \<noteq> k2" "k1 \<noteq> k3" "k2 \<noteq> k3" using k1 k2 k3 by auto
  moreover have "k1 \<noteq> j" "k2 \<noteq> j" "k3 \<noteq> j" using k1 k2 k3 j by auto
  ultimately have "card {k1, k2, k3, j} = card {..<4::nat}" by simp
  then have "{k1, k2, k3, j} = {..<4}" using k1(1) k2(1) k3(1) j(1) by (intro card_subset_eq) auto
  then have "i = k1 \<or> i = k2 \<or> i = k3" using i by blast
  then show ?thesis using k1 k2 k3 by auto
qed

text \<open>The replacement followed by the new entry \<open>j\<close> for the frame.\<close>

definition installed :: "nat \<Rightarrow> nat \<Rightarrow> nat \<Rightarrow> byte \<Rightarrow> vm \<Rightarrow> vm" where
  "installed k f j b s = (replaced k f s)\<lparr>memory := (memory (replaced k f s))[2 * j := b]\<rparr>"

lemma replaced_fields [simp]:
  "page_table_start (replaced k f s) = page_table_start s" "free_list (replaced k f s) = free_list s"
  "swap (replaced k f s) = (swap s)[0 := content (memory s) f]"
  "out (replaced k f s) = out s @ [Swapped (int f) 0]"
  by (simp_all add: replaced_def)

lemma installed_fields [simp]:
  "page_table_start (installed k f j b s) = page_table_start s" "free_list (installed k f j b s) = free_list s"
  "swap (installed k f j b s) = (swap s)[0 := content (memory s) f]"
  by (simp_all add: installed_def)

lemma installed_memory:
  assumes R: "resident s" and f: "1 \<le> f" "f < 4" and k: "k < 4" and j: "j < 4" "j \<noteq> k"
    and b: "bf_get 0 1 b = 1" "bf_get 1 1 b = 1" "bf_get 3 2 b = int f"
  shows "vm_shape (replaced k f s) \<Longrightarrow> vm_shape (installed k f j b s)"
    and "\<And>i. i < 4 \<Longrightarrow> live (ent (memory (installed k f j b s)) i) \<longleftrightarrow> i = j \<or> i \<noteq> k \<and> live (ent (memory s) i)"
    and "ent (memory (installed k f j b s)) k = (ent (memory s) k)\<lparr>pte_valid := 0, pte_slot := 0\<rparr>"
    and "\<And>i. i < 4 \<Longrightarrow> i \<noteq> j \<Longrightarrow> i \<noteq> k \<Longrightarrow> ent (memory (installed k f j b s)) i = ent (memory s) i"
    and "pte_frame (ent (memory (installed k f j b s)) j) = int f"
    and "pte_prot (ent (memory (installed k f j b s)) j) = bf_get 2 1 b"
    and "pte_alloc (ent (memory (installed k f j b s)) j) = 1"
    and "pte_valid (ent (memory (installed k f j b s)) j) = 1"
    and "\<And>g. 1 \<le> g \<Longrightarrow> g < 4 \<Longrightarrow> content (memory (installed k f j b s)) g = (if g = f then swap s ! 0 else content (memory s) g)"
proof -
  note S = resident_simps [OF R]
  have len: "length (memory (replaced k f s)) = 64"
    using S f swap_page_length [OF S(8), of 0] by (simp add: replaced_def)
  have E: "ent (memory (installed k f j b s)) i =
      (if i = j then decode b (memory (replaced k f s) ! (2 * j + 1)) else ent (memory (replaced k f s)) i)" for i
    using len j unfolding installed_def by (simp add: ent_update0)
  note ER = ent_replaced [OF R f k]
  show "vm_shape (replaced k f s) \<Longrightarrow> vm_shape (installed k f j b s)"
    by (simp add: installed_def vm_shape_update)
  show "live (ent (memory (installed k f j b s)) i) \<longleftrightarrow> i = j \<or> i \<noteq> k \<and> live (ent (memory s) i)" if "i < 4" for i
    using that b by (auto simp: E ER live_def decode_def)
  show "ent (memory (installed k f j b s)) k = (ent (memory s) k)\<lparr>pte_valid := 0, pte_slot := 0\<rparr>"
    using j k by (simp add: E ER)
  show "ent (memory (installed k f j b s)) i = ent (memory s) i" if "i < 4" "i \<noteq> j" "i \<noteq> k" for i
    using that by (simp add: E ER)
  show "content (memory (installed k f j b s)) g = (if g = f then swap s ! 0 else content (memory s) g)"
    if "1 \<le> g" "g < 4" for g
    using content_replaced [OF R f k that] that j by (simp add: installed_def content_near)
  show "pte_frame (ent (memory (installed k f j b s)) j) = int f"
    "pte_prot (ent (memory (installed k f j b s)) j) = bf_get 2 1 b"
    "pte_alloc (ent (memory (installed k f j b s)) j) = 1" "pte_valid (ent (memory (installed k f j b s)) j) = 1"
    using b by (simp_all add: E decode_def)
qed

lemma installed_running:
  assumes R: "resident s" and full: "free_list s = [1, 1, 1, 1]" and f: "1 \<le> f" "f < 4"
    and k: "k < 4" "live (ent (memory s) k)" "pte_frame (ent (memory s) k) = int f"
    and j: "j < 4" "\<not> live (ent (memory s) j)"
    and b: "bf_get 0 1 b = 1" "bf_get 1 1 b = 1" "bf_get 3 2 b = int f"
  shows "running (installed k f j b s)"
proof -
  have jk: "j \<noteq> k" using j k by auto
  note M = installed_memory [OF R f k(1) j(1) jk b]
  have shape: "vm_shape (installed k f j b s)"
    by (rule M(1), rule swapPage_shape [OF swapPage_resident [OF R f k] resident_simps(8) [OF R]])
  have uniq: "i = i'" if "i < 4" "i' < 4" "live (ent (memory s) i)" "live (ent (memory s) i')"
      "pte_frame (ent (memory s) i) = pte_frame (ent (memory s) i')" for i i'
    using R that unfolding resident_def by blast
  have low: "1 \<le> pte_frame (ent (memory s) i)" if "i < 4" "live (ent (memory s) i)" for i
    using R that unfolding resident_def by blast
  have fullf: "free_list s ! g = FULL" if "g < 4" for g
    using that full by (auto simp: FULL_def less_Suc_eq numeral_eq_Suc)
  have fr: "pte_frame (ent (memory (installed k f j b s)) i) =
      (if i = j then int f else pte_frame (ent (memory s) i))" if "i < 4" for i
    using that M(3,4,5) by (cases "i = j"; cases "i = k") auto
  have "resident (installed k f j b s)"
    unfolding resident_def
  proof (intro conjI allI impI)
    show "vm_shape (installed k f j b s)" by (rule shape)
    show "page_table_start (installed k f j b s) = [0, 4, 4, 4]" using resident_simps(5) [OF R] by simp
    show "free_list (installed k f j b s) ! 0 = FULL" using fullf [of 0] by simp
  next
    fix i assume i: "i < 4" "live (ent (memory (installed k f j b s)) i)"
    then show "1 \<le> pte_frame (ent (memory (installed k f j b s)) i)"
      using low f(1) M(2) by (auto simp: fr)
    show "free_list (installed k f j b s) ! nat (pte_frame (ent (memory (installed k f j b s)) i)) = FULL"
      using pte_ranges(4,5) [of "memory (installed k f j b s)" i] by (simp add: fullf)
  next
    fix i i'
    assume "i < 4" "i' < 4" "live (ent (memory (installed k f j b s)) i) \<and> live (ent (memory (installed k f j b s)) i') \<and>
        pte_frame (ent (memory (installed k f j b s)) i) = pte_frame (ent (memory (installed k f j b s)) i')"
    then have i: "i < 4" "i = j \<or> i \<noteq> k \<and> live (ent (memory s) i)"
        and i': "i' < 4" "i' = j \<or> i' \<noteq> k \<and> live (ent (memory s) i')"
        and eq: "(if i = j then int f else pte_frame (ent (memory s) i)) =
          (if i' = j then int f else pte_frame (ent (memory s) i'))"
      by (simp_all add: M(2) fr)
    have other: "pte_frame (ent (memory s) x) \<noteq> int f" if "x < 4" "x \<noteq> k" "live (ent (memory s) x)" for x
      using uniq [of x k] that k by auto
    show "i = i'"
      using i i' eq other [of i] other [of i'] uniq [of i i'] by (cases "i = j"; cases "i' = j") simp_all
  next
    fix g assume g: "1 \<le> g \<and> g < 4 \<and> free_list (installed k f j b s) ! g = FULL"
    then obtain i where i: "i < 4" "live (ent (memory s) i)" "pte_frame (ent (memory s) i) = int g"
      using R unfolding resident_def by auto
    show "\<exists>i<4. live (ent (memory (installed k f j b s)) i) \<and> pte_frame (ent (memory (installed k f j b s)) i) = int g"
    proof (cases "g = f")
      case True
      then show ?thesis using j(1) by (intro exI [of _ j]) (simp add: M(2,5))
    next
      case False
      then have "i \<noteq> k" "i \<noteq> j" using i k j by auto
      then show ?thesis using i by (intro exI [of _ i]) (simp add: M(2) fr)
    qed
  next
    fix g assume "1 \<le> g \<and> g < 4 \<and> free_list (installed k f j b s) ! g \<noteq> FULL"
    then show "content (memory (installed k f j b s)) g = zero_page" using fullf by auto
  qed
  moreover have so: "swapped_out (installed k f j b s) i \<longleftrightarrow> i = k" for i
  proof -
    consider "i = j" | "i = k" | "i < 4" "i \<noteq> j" "i \<noteq> k" | "\<not> i < 4" by blast
    then show ?thesis
      using others_live [OF R full j, of i] k jk
      by cases (simp_all add: swapped_out_def live_def M(3,7,8) M(4) [of i])
  qed
  ultimately show ?thesis
    using full M(3) by (auto simp: running_def so)
qed

lemma installed_flat:
  assumes R: "resident s" and full: "free_list s = [1, 1, 1, 1]" and f: "1 \<le> f" "f < 4"
    and k: "k < 4" "live (ent (memory s) k)" "pte_frame (ent (memory s) k) = int f"
    and j: "j < 4" "\<not> live (ent (memory s) j)"
    and b: "bf_get 0 1 b = 1" "bf_get 1 1 b = 1" "bf_get 3 2 b = int f"
  shows "flat_of (installed k f j b s) = (flat_of s)(j \<mapsto> (bf_get 2 1 b, swap s ! 0))"
proof
  fix i
  note S = resident_simps [OF R]
  have jk: "j \<noteq> k" using j k by auto
  note M = installed_memory [OF R f k(1) j(1) jk b]
  consider "i = j" | "i = k" | "i < 4" "i \<noteq> j" "i \<noteq> k" | "\<not> i < 4" by blast
  then show "flat_of (installed k f j b s) i = ((flat_of s)(j \<mapsto> (bf_get 2 1 b, swap s ! 0))) i"
  proof cases
    case 1
    then show ?thesis using M j f S by (simp add: flat_of_def)
  next
    case 2
    then show ?thesis using M(3) k S jk by (simp add: flat_of_def live_def)
  next
    case 3
    then have li: "live (ent (memory s) i)" using others_live [OF R full j] by blast
    then have "pte_frame (ent (memory s) i) \<noteq> int f" "1 \<le> pte_frame (ent (memory s) i)"
      using R k 3 unfolding resident_def by metis+
    then have "content (memory (installed k f j b s)) (nat (pte_frame (ent (memory s) i)))
        = content (memory s) (nat (pte_frame (ent (memory s) i)))"
      using M(9) [of "nat (pte_frame (ent (memory s) i))"] pte_ranges(4,5) [of "memory s" i] by auto
    with 3 li M(4) S show ?thesis by (simp add: flat_of_def live_def)
  next
    case 4
    then show ?thesis using j by (simp add: flat_of_def)
  qed
qed

section \<open>Steps that replace no page\<close>

lemma frame_simps [simp]:
  "resident (emit msg s) = resident s" "running (emit msg s) = running s" "flat_of (emit msg s) = flat_of s"
  "vm_shape s \<Longrightarrow> resident (advance s) = resident s" "flat_of (advance s) = flat_of s"
  by (simp_all add: resident_def running_def swapped_out_def flat_of_def fun_eq_iff Let_def)

lemma running_resident: "running s \<Longrightarrow> resident s"
  by (simp add: running_def)

text \<open>A write to the first byte of an entry that only changes the protection.\<close>

lemma protection_update:
  assumes R: "running s" and j: "j < 4"
    and b: "bf_get 0 1 b = pte_alloc (ent (memory s) j)" "bf_get 1 1 b = pte_valid (ent (memory s) j)"
      "bf_get 3 2 b = pte_frame (ent (memory s) j)"
  shows "running (s\<lparr>memory := (memory s)[2 * j := b]\<rparr>)" (is "running ?t")
    and "pte_alloc (ent (memory s) j) = 1 \<Longrightarrow>
      flat_of (s\<lparr>memory := (memory s)[2 * j := b]\<rparr>) = flat_map j (bf_get 2 1 b) (flat_of s)"
proof -
  let ?m = "(memory s)[2 * j := b]"
  note S = resident_simps [OF running_resident [OF R]]
  have E: "ent ?m i = (if i = j then (ent (memory s) j)\<lparr>pte_prot := bf_get 2 1 b\<rparr> else ent (memory s) i)" for i
    using S j b by (auto simp: ent_update0 decode_def ent_def)
  have C: "content ?m g = content (memory s) g" if "1 \<le> g" for g
    using that j by (simp add: content_near)
  have L: "live (ent ?m i) = live (ent (memory s) i)"
      "pte_frame (ent ?m i) = pte_frame (ent (memory s) i)" for i
    by (simp_all add: E live_def)
  have Q: "swapped_out ?t = swapped_out s" "\<And>i. pte_slot (ent ?m i) = pte_slot (ent (memory s) i)"
    by (simp_all add: swapped_out_def E fun_eq_iff)
  have "vm_shape ?t" using S(8) by (simp add: vm_shape_update)
  then have "resident ?t" using running_resident [OF R] unfolding resident_def by (simp add: L C)
  then show "running ?t" using R unfolding running_def by (simp add: Q)
  show "flat_of ?t = flat_map j (bf_get 2 1 b) (flat_of s)" if al: "pte_alloc (ent (memory s) j) = 1"
  proof
    fix i
    have "1 \<le> pte_frame (ent (memory s) i)" if "i < 4" "pte_alloc (ent (memory s) i) = 1" "pte_valid (ent (memory s) i) = 1"
      using running_resident [OF R] that unfolding resident_def live_def by blast
    then have "content ?m (nat (pte_frame (ent (memory s) i))) = content (memory s) (nat (pte_frame (ent (memory s) i)))"
      if "i < 4" "pte_alloc (ent (memory s) i) = 1" "pte_valid (ent (memory s) i) = 1"
      using that by (intro C) (simp add: le_nat_iff)
    then show "flat_of ?t i = flat_map j (bf_get 2 1 b) (flat_of s) i"
      using al j S(5) by (auto simp: flat_of_def flat_map_def E Let_def)
  qed
qed

text \<open>A write to a byte of a page in memory.\<close>

lemma byte_update:
  assumes R: "running s" and j: "j < 4" "live (ent (memory s) j)" and off: "off < 16"
  shows "running (s\<lparr>memory := (memory s)[16 * nat (pte_frame (ent (memory s) j)) + off := b]\<rparr>)" (is "running ?t")
    and "flat_of (s\<lparr>memory := (memory s)[16 * nat (pte_frame (ent (memory s) j)) + off := b]\<rparr>) =
      (flat_of s)(j \<mapsto> (pte_prot (ent (memory s) j), (content (memory s) (nat (pte_frame (ent (memory s) j))))[off := b]))"
proof -
  let ?f = "nat (pte_frame (ent (memory s) j))"
  let ?m = "(memory s)[16 * ?f + off := b]"
  note S = resident_simps [OF running_resident [OF R]]
  have low: "1 \<le> pte_frame (ent (memory s) i)" and full: "free_list s ! nat (pte_frame (ent (memory s) i)) = FULL"
    if "i < 4" "live (ent (memory s) i)" for i
    using running_resident [OF R] that unfolding resident_def by blast+
  have f: "1 \<le> ?f" "?f < 4" using low [OF j] pte_ranges(5) [of "memory s" j] by linarith+
  have E: "ent ?m i = ent (memory s) i" if "i < 4" for i using f that by (simp add: ent_far)
  have C: "content ?m g = (if g = ?f then (content (memory s) ?f)[off := b] else content (memory s) g)"
    if "g < 4" for g using content_store [OF S(1) f(2) that off] by simp
  have "vm_shape ?t" using S(8) by (simp add: vm_shape_update)
  moreover have "content ?m g = zero_page" if "1 \<le> g" "g < 4" "free_list s ! g \<noteq> FULL" for g
    using running_resident [OF R] that full [OF j] C unfolding resident_def by auto
  ultimately have "resident ?t"
    using running_resident [OF R] unfolding resident_def by (simp add: E cong: conj_cong)
  moreover have "swapped_out ?t i = swapped_out s i" for i by (auto simp: swapped_out_def E)
  moreover have "swapped_out s i \<Longrightarrow> i < 4" for i by (simp add: swapped_out_def)
  ultimately show "running ?t" using R unfolding running_def by (auto simp: E)
  show "flat_of ?t = (flat_of s)(j \<mapsto> (pte_prot (ent (memory s) j), (content (memory s) ?f)[off := b]))"
  proof
    fix i
    have "content ?m (nat (pte_frame (ent (memory s) i))) = content (memory s) (nat (pte_frame (ent (memory s) i)))"
      if "i < 4" "i \<noteq> j" "live (ent (memory s) i)"
    proof -
      have "pte_frame (ent (memory s) i) \<noteq> pte_frame (ent (memory s) j)"
        using running_resident [OF R] that j unfolding resident_def by blast
      then show ?thesis
        using C [of "nat (pte_frame (ent (memory s) i))"] pte_ranges(4,5) [of "memory s" i] pte_ranges(4) [of "memory s" j]
        by auto
    qed
    then show "flat_of ?t i = ((flat_of s)(j \<mapsto> (pte_prot (ent (memory s) j), (content (memory s) ?f)[off := b]))) i"
      using j S(5) C [of ?f] f by (auto simp: flat_of_def E live_def Let_def)
  qed
qed

text \<open>A free frame is given to a new page.\<close>

lemma frame_update:
  assumes R: "running s" and j: "j < 4" "pte_alloc (ent (memory s) j) = 0"
    and i: "1 \<le> i" "i < 4" "free_list s ! i \<noteq> FULL"
    and b: "bf_get 0 1 b = 1" "bf_get 1 1 b = 1" "bf_get 3 2 b = int i"
  shows "running (s\<lparr>free_list := (free_list s)[i := FULL], memory := (memory s)[2 * j := b]\<rparr>)" (is "running ?t")
    and "flat_of (s\<lparr>free_list := (free_list s)[i := FULL], memory := (memory s)[2 * j := b]\<rparr>) =
      (flat_of s)(j \<mapsto> (bf_get 2 1 b, zero_page))"
proof -
  let ?m = "(memory s)[2 * j := b]" and ?fl = "(free_list s)[i := FULL]"
  note Rs = running_resident [OF R] and S = resident_simps [OF running_resident [OF R]]
  have E: "ent ?m x = (if x = j then decode b (memory s ! (2 * j + 1)) else ent (memory s) x)" for x
    using S j by (simp add: ent_update0)
  have L: "live (ent ?m x) \<longleftrightarrow> x = j \<or> live (ent (memory s) x)" for x
    using b j by (auto simp: E live_def decode_def)
  have F: "pte_frame (ent ?m x) = (if x = j then int i else pte_frame (ent (memory s) x))" for x
    using b by (simp add: E decode_def)
  have FL: "?fl ! g = (if g = i then FULL else free_list s ! g)" if "g < 4" for g using that S(4) by (simp add: nth_list_update)
  have C: "content ?m g = content (memory s) g" if "1 \<le> g" for g using that j by (simp add: content_near)
  have low: "1 \<le> pte_frame (ent (memory s) x)" "free_list s ! nat (pte_frame (ent (memory s) x)) = FULL"
    if "x < 4" "live (ent (memory s) x)" for x
    using Rs that unfolding resident_def by blast+
  have nj: "\<not> live (ent (memory s) j)" using j by (simp add: live_def)
  have ni: "pte_frame (ent (memory s) x) \<noteq> int i" if "x < 4" "live (ent (memory s) x)" for x
    using low(2) [OF that] i(3) by auto
  have "resident ?t"
    unfolding resident_def
  proof (intro conjI allI impI)
    show "vm_shape ?t" using S(8) by (simp add: vm_shape_def)
    show "page_table_start ?t = [0, 4, 4, 4]" using S(5) by simp
    show "free_list ?t ! 0 = FULL" using Rs i(1) by (simp add: resident_def)
  next
    fix x assume x: "x < 4" "live (ent (memory ?t) x)"
    then show "1 \<le> pte_frame (ent (memory ?t) x)" using low(1) [of x] i by (auto simp: L F)
    show "free_list ?t ! nat (pte_frame (ent (memory ?t) x)) = FULL"
      using x low(2) [of x] i pte_ranges(4,5) [of "memory s" x] by (auto simp: L F FL)
  next
    fix x y assume "x < 4" "y < 4" "live (ent (memory ?t) x) \<and> live (ent (memory ?t) y) \<and>
      pte_frame (ent (memory ?t) x) = pte_frame (ent (memory ?t) y)"
    then have xy: "x = j \<or> live (ent (memory s) x)" "y = j \<or> live (ent (memory s) y)" "x < 4" "y < 4"
      "(if x = j then int i else pte_frame (ent (memory s) x)) = (if y = j then int i else pte_frame (ent (memory s) y))"
      by (simp_all add: L F)
    have "x = y" if "live (ent (memory s) x)" "live (ent (memory s) y)" "pte_frame (ent (memory s) x) = pte_frame (ent (memory s) y)"
      using Rs that xy(3,4) unfolding resident_def by blast
    then show "x = y" using xy ni [of x] ni [of y] by (cases "x = j"; cases "y = j") simp_all
  next
    fix g assume g: "1 \<le> g \<and> g < 4 \<and> free_list ?t ! g = FULL"
    show "\<exists>x<4. live (ent (memory ?t) x) \<and> pte_frame (ent (memory ?t) x) = int g"
    proof (cases "g = i")
      case True
      then show ?thesis using j(1) by (intro exI [of _ j]) (simp add: L F)
    next
      case False
      then obtain x where "x < 4" "live (ent (memory s) x)" "pte_frame (ent (memory s) x) = int g"
        using Rs g unfolding resident_def by (auto simp: FL)
      then show ?thesis using nj by (intro exI [of _ x]) (auto simp: L F)
    qed
  next
    fix g assume "1 \<le> g \<and> g < 4 \<and> free_list ?t ! g \<noteq> FULL"
    then have "1 \<le> g" "g < 4" "free_list s ! g \<noteq> FULL" by (auto simp: FL split: if_splits)
    then show "content (memory ?t) g = zero_page" using Rs C unfolding resident_def by simp
  qed
  moreover have nf: "free_list s \<noteq> [1, 1, 1, 1]" using i by (auto simp: FULL_def less_Suc_eq numeral_eq_Suc)
  then have none: "\<not> swapped_out s x" for x using R by (auto simp: running_def)
  moreover have "swap_states s = replicate 20 FREE" using R none by (auto simp: running_def)
  moreover have "\<not> swapped_out ?t x" for x
    using none [of x] b by (auto simp: swapped_out_def E decode_def)
  ultimately show "running ?t" by (auto simp: running_def)
  show "flat_of ?t = (flat_of s)(j \<mapsto> (bf_get 2 1 b, zero_page))"
  proof
    fix x
    have z: "content ?m i = zero_page" using Rs i C unfolding resident_def by simp
    have "content ?m (nat (pte_frame (ent (memory s) x))) = content (memory s) (nat (pte_frame (ent (memory s) x)))"
      if "x < 4" "live (ent (memory s) x)"
      using low(1) [OF that] by (intro C) (simp add: le_nat_iff)
    then show "flat_of ?t x = ((flat_of s)(j \<mapsto> (bf_get 2 1 b, zero_page))) x"
      using j S(5) b z by (auto simp: flat_of_def E live_def decode_def Let_def)
  qed
qed

section \<open>The instructions\<close>

lemma skip_own_single:
  assumes "resident s"
  obtains s1 where "skip_own_table 0 s = Inr s1" "resident s1" "1 \<le> nextSwap s1" "nextSwap s1 \<le> 3"
    "memory s1 = memory s" "swap s1 = swap s" "free_list s1 = free_list s" "swap_states s1 = swap_states s"
    "page_table_start s1 = page_table_start s" "flat_of s1 = flat_of s"
proof -
  note S = resident_simps [OF assms]
  have "skip_own_table 0 s = Inr (if nextSwap s = 0 then advance s else s)"
    using S by (simp add: skip_own_table_def aget_def in_bounds_def)
  then show ?thesis using that S assms by (auto split: if_splits)
qed

lemma frame_owner:
  assumes "resident s" "free_list s = [1, 1, 1, 1]" "1 \<le> f" "f < 4"
  obtains k where "k < 4" "live (ent (memory s) k)" "pte_frame (ent (memory s) k) = int f"
proof -
  have "free_list s ! f = FULL" using assms by (auto simp: FULL_def less_Suc_eq numeral_eq_Suc)
  then show ?thesis using assms that unfolding resident_def by blast
qed

lemma entry_writes:
  assumes "length m = 64" "j < 4"
  shows "set_alloc m (int j * 2) v = Inr (m[2 * j := bf_set 0 1 v (m ! (2 * j))])"
    "set_valid m (int j * 2) v = Inr (m[2 * j := bf_set 1 1 v (m ! (2 * j))])"
    "set_protection m (int j * 2) v = Inr (m[2 * j := bf_set 2 1 v (m ! (2 * j))])"
    "set_frame m (int j * 2) v = Inr (m[2 * j := bf_set 3 2 v (m ! (2 * j))])"
    "set_swapspace m (int j * 2) v = Inr (m[Suc (2 * j) := word_of_int v])"
  using assms
  by (simp_all add: field_defs set_field_Inr_iff aset_Inr_iff in_bounds_def nat_mult_distrib nat_add_distrib mult.commute)

definition filled :: "int \<Rightarrow> int \<Rightarrow> byte \<Rightarrow> byte" where
  "filled prot f b = bf_set 3 2 f (bf_set 2 1 prot (bf_set 1 1 1 (bf_set 0 1 1 b)))"

lemma filled_fields:
  "bf_get 0 1 (filled prot f b) = 1" "bf_get 1 1 (filled prot f b) = 1"
  "bf_get 2 1 (filled prot f b) = prot mod 2" "bf_get 3 2 (filled prot f b) = f mod 4"
  by (simp_all add: filled_def bf_fields)

lemma fill_entry_single:
  "length (memory s) = 64 \<Longrightarrow> j < 4 \<Longrightarrow>
   fill_entry (int j * 2) prot f s = Inr (s\<lparr>memory := (memory s)[2 * j := filled prot f (memory s ! (2 * j))]\<rparr>)"
  by (simp add: fill_entry_def entry_writes filled_def)

lemma live_iff: "live (ent m j) \<longleftrightarrow> \<not> (pte_alloc (ent m j) = 0 \<or> pte_valid (ent m j) = 0)"
  using pte_ranges(1,2) [of m j] by (auto simp: live_def)

lemma length_replaced: "resident s \<Longrightarrow> 1 \<le> f \<Longrightarrow> f < 4 \<Longrightarrow> length (memory (replaced k f s)) = 64"
  using swap_page_length [of s 0] by (simp add: replaced_def resident_simps)

lemma replaced_byte:
  assumes "resident s" "1 \<le> f" "f < 4" "k < 4" "j < 4" "j \<noteq> k"
  shows "memory (replaced k f s) ! (2 * j) = memory s ! (2 * j)"
proof -
  note S = resident_simps [OF assms(1)]
  have "length (swap s ! 0) = 16" using swap_page_length [OF S(8)] by simp
  then have "memory (replaced k f s) ! (2 * j) =
      (memory s)[2 * k := bf_set 1 1 0 (memory s ! (2 * k)), 2 * k + 1 := 0] ! (2 * j)"
    using assms S by (simp add: replaced_def nth_blit)
  moreover have "2 * j \<noteq> 2 * k + 1" by presburger
  ultimately show ?thesis using assms by simp
qed

lemma bring_page_single:
  assumes R: "running s" and j: "j < 4" "pte_alloc (ent (memory s) j) = 1"
  obtains s' where "bring_page 0 (int j * 2) s = Inr s'" "running s'" "flat_of s' = flat_of s"
    "live (ent (memory s') j)" "replies (out s') = replies (out s)"
proof (cases "pte_valid (ent (memory s) j) = 0")
  case False
  moreover have "live (ent (memory s) j)" using False j by (simp add: live_iff)
  ultimately show ?thesis
    using that [of s] R j resident_simps(1) [OF running_resident [OF R]] by (simp add: bring_page_def field_ent)
next
  case True
  note S = resident_simps [OF running_resident [OF R]]
  have so: "swapped_out s j" using True j by (simp add: swapped_out_def)
  then have slot: "pte_slot (ent (memory s) j) = 0" and full: "free_list s = [1, 1, 1, 1]"
    using R by (auto simp: running_def)
  obtain s1 where s1: "skip_own_table 0 s = Inr s1" "resident s1" "1 \<le> nextSwap s1" "nextSwap s1 \<le> 3"
    "memory s1 = memory s" "swap s1 = swap s" "free_list s1 = free_list s" "flat_of s1 = flat_of s"
    by (rule skip_own_single [OF running_resident [OF R]])
  define f where "f = nat (nextSwap s1)"
  have f: "1 \<le> f" "f < 4" "nextSwap s1 = int f" using s1(3,4) by (auto simp: f_def)
  obtain k where k: "k < 4" "live (ent (memory s1) k)" "pte_frame (ent (memory s1) k) = int f"
    by (rule frame_owner [OF s1(2) _ f(1,2)]) (use s1(7) full in simp)
  have nl: "\<not> live (ent (memory s1) j)" using True s1(5) by (simp add: live_iff)
  then have jk: "j \<noteq> k" using k by auto
  define b where "b = bf_set 3 2 (int f) (bf_set 1 1 1 (memory s1 ! (2 * j)))"
  have b: "bf_get 0 1 b = 1" "bf_get 1 1 b = 1" "bf_get 3 2 b = int f" "bf_get 2 1 b = pte_prot (ent (memory s1) j)"
    using j s1(5) f by (simp_all add: b_def bf_fields ent_def decode_def)
  have "bring_page 0 (int j * 2) s = Inr (installed k f j b s1)"
    using S s1 j True slot f swapPage_resident [OF s1(2) f(1,2) k]
      length_replaced [OF s1(2) f(1,2), of k] replaced_byte [OF s1(2) f(1,2) k(1) j(1) jk]
    by (simp add: bring_page_def field_ent entry_writes installed_def b_def)
  moreover have "running (installed k f j b s1)"
    using installed_running [OF s1(2) _ f(1,2) k j(1) nl b(1-3)] s1(7) full by simp
  moreover have "flat_of (installed k f j b s1) = flat_of s"
  proof -
    have "flat_of s1 j = Some (pte_prot (ent (memory s1) j), swap s1 ! 0)"
      using j True slot s1(5) resident_simps(5) [OF s1(2)] by (simp add: flat_of_def)
    then show ?thesis
      using installed_flat [OF s1(2) _ f(1,2) k j(1) nl b(1-3)] s1(7,8) full b(4) by (simp add: fun_upd_idem)
  qed
  moreover have "live (ent (memory (installed k f j b s1)) j)"
    using installed_memory(2) [OF s1(2) f(1,2) k(1) j(1) jk b(1-3) j(1)] by simp
  ultimately show ?thesis using that bring_page_replies [of 0 "int j * 2" s] S(8) by (simp add: replies_are_def)
qed

text \<open>The loop over the free list on the four-element array.\<close>

lemma scan_free_cases:
  assumes "length fl = 4" "fl ! 0 = FULL"
  obtains "scan_free fl 0 = 4" "fl = [1, 1, 1, 1]"
  | i where "scan_free fl 0 = int i" "1 \<le> i" "i < 4" "fl ! i \<noteq> FULL"
proof -
  obtain a b c d where fl: "fl = [a, b, c, d]"
    using assms(1) by (auto simp: length_Suc_conv numeral_eq_Suc)
  show ?thesis
    using assms(2) that(1) that(2) [of 1] that(2) [of 2] that(2) [of 3]
    by (cases "b = 1"; cases "c = 1"; cases "d = 1") (simp_all add: fl FULL_def)
qed

lemma running_free_list:
  assumes "running s"
  obtains "scan_free (free_list s) 0 = 4" "free_list s = [1, 1, 1, 1]"
  | i where "scan_free (free_list s) 0 = int i" "1 \<le> i" "i < 4" "free_list s ! i \<noteq> FULL"
  by (rule scan_free_cases [of "free_list s"])
     (use assms resident_simps(4) [OF running_resident [OF assms]] in \<open>auto simp: running_def resident_def\<close>)

lemma replacement_single:
  assumes R: "resident s" and full: "free_list s = [1, 1, 1, 1]"
    and ns: "1 \<le> nextSwap s" "nextSwap s \<le> 3" and j: "j < 4" "\<not> live (ent (memory s) j)"
    and prot: "prot = 0 \<or> prot = 1"
  obtains s' s'' where "swapPage swap_fuel s 0 (nextSwap s) 0 = Inr s'"
    "fill_entry (int j * 2) prot (nextSwap s) s' = Inr s''" "running s''"
    "flat_of s'' = (flat_of s)(j \<mapsto> (prot, swap s ! 0))" "pte_alloc (ent (memory s'') j) = 1"
    "pte_prot (ent (memory s'') j) = prot"
proof -
  define f where "f = nat (nextSwap s)"
  have f: "1 \<le> f" "f < 4" "nextSwap s = int f" using ns by (auto simp: f_def)
  obtain k where k: "k < 4" "live (ent (memory s) k)" "pte_frame (ent (memory s) k) = int f"
    by (rule frame_owner [OF R full f(1,2)])
  have jk: "j \<noteq> k" using j k by auto
  define b where "b = filled prot (int f) (memory s ! (2 * j))"
  have b: "bf_get 0 1 b = 1" "bf_get 1 1 b = 1" "bf_get 3 2 b = int f" "bf_get 2 1 b = prot"
    using f prot filled_fields by (auto simp: b_def)
  have "fill_entry (int j * 2) prot (nextSwap s) (replaced k f s) = Inr (installed k f j b s)"
    using fill_entry_single [OF length_replaced [OF R f(1,2)] j(1)] replaced_byte [OF R f(1,2) k(1) j(1) jk] f(3)
    by (simp add: installed_def b_def)
  moreover note swapPage_resident [OF R f(1,2) k] installed_running [OF R full f(1,2) k j b(1-3)]
    installed_flat [OF R full f(1,2) k j b(1-3)] installed_memory(6,7) [OF R f(1,2) k(1) j(1) jk b(1-3)]
  ultimately show ?thesis using that f(3) b(4) by simp
qed

text \<open>The first page that goes to the swap space gets slot 0, and its entry says so.\<close>

lemma new_slot_single:
  assumes R: "resident s" and full: "free_list s = [1, 1, 1, 1]" and states: "swap_states s = replicate 20 FREE"
    and j: "j < 4" "pte_alloc (ent (memory s) j) = 0"
  obtains s' where
    "cbind (append_page_to_swap s zero_page) (\<lambda>(_, s2).
       cbind (set_swapspace (memory s2) (int j * 2) (get_num_pages_in_swap s2 - 1)) (\<lambda>m. Inr (s2\<lparr>memory := m\<rparr>))) = Inr s'"
    "resident s'" "free_list s' = free_list s" "nextSwap s' = nextSwap s" "\<not> live (ent (memory s') j)"
    "swap s' ! 0 = zero_page" "\<And>x. (flat_of s')(j \<mapsto> x) = (flat_of s)(j \<mapsto> x)"
    "swapspace (memory s') (int j * 2) = Inr 0"
proof -
  note S = resident_simps [OF R]
  let ?s2 = "s\<lparr>swap := (swap s)[0 := zero_page], swap_states := (swap_states s)[0 := CATALONIA]\<rparr>"
  define s3 where "s3 = ?s2\<lparr>memory := (memory s)[Suc (2 * j) := 0]\<rparr>"
  have num: "get_num_pages_in_swap ?s2 = 1" using states by (simp add: get_num_pages_in_swap_def numeral_eq_Suc)
  have app: "append_page_to_swap s zero_page = Inr (Some 0, ?s2)"
    using states S by (auto simp: append_page_to_swap_def aset_def in_bounds_def numeral_eq_Suc)
  have nl: "\<not> live (ent (memory s) j)" using j by (simp add: live_def)
  have E: "ent (memory s3) i = (if i = j then (ent (memory s) j)\<lparr>pte_slot := 0\<rparr> else ent (memory s) i)" for i
    using S j by (simp add: s3_def ent_update1 ent_def decode_def)
  have L: "live (ent (memory s3) i) = live (ent (memory s) i)"
    "pte_frame (ent (memory s3) i) = pte_frame (ent (memory s) i)" for i by (simp_all add: E live_def)
  have C: "content (memory s3) g = content (memory s) g" if "1 \<le> g" for g
    using that j by (simp add: s3_def content_near)
  have F: "free_list s3 = free_list s" "page_table_start s3 = page_table_start s" by (simp_all add: s3_def)
  have "vm_shape s3"
    using S(8) set_update_subset_insert [of "swap s" 0 zero_page]
    by (auto simp: s3_def vm_shape_def list_all_iff zero_page_def)
  then have R3: "resident s3" using R unfolding resident_def L F by (simp add: C)
  have flat3: "flat_of s3 i = flat_of s i" if ij: "i \<noteq> j" for i
  proof (cases "i < 4")
    case True
    then have li: "live (ent (memory s) i)" using others_live [OF R full j(1) nl] ij by blast
    then have "1 \<le> pte_frame (ent (memory s) i)" using R True unfolding resident_def by blast
    then have "content (memory s3) (nat (pte_frame (ent (memory s) i))) = content (memory s) (nat (pte_frame (ent (memory s) i)))"
      by (intro C) (simp add: le_nat_iff)
    with li ij F True show ?thesis by (simp add: flat_of_def E live_def Let_def)
  qed (simp add: flat_of_def)
  show ?thesis
  proof (rule that [of s3])
    show "cbind (append_page_to_swap s zero_page) (\<lambda>(_, s2).
       cbind (set_swapspace (memory s2) (int j * 2) (get_num_pages_in_swap s2 - 1)) (\<lambda>m. Inr (s2\<lparr>memory := m\<rparr>))) = Inr s3"
      using app num S j by (simp add: entry_writes s3_def)
    show "swapspace (memory s3) (int j * 2) = Inr 0" using S j E [of j] by (simp add: field_ent s3_def)
    show "swap s3 ! 0 = zero_page" using S by (auto simp: s3_def)
    show "nextSwap s3 = nextSwap s" by (simp add: s3_def)
    show "(flat_of s3)(j \<mapsto> x) = (flat_of s)(j \<mapsto> x)" for x using flat3 by auto
  qed (use R3 F nl L in auto)
qed

lemma new_page_single:
  assumes R: "running s" and j: "j < 4" "pte_alloc (ent (memory s) j) = 0" and prot: "prot = 0 \<or> prot = 1"
  obtains s' where "map_page 0 va prot (int j * 2) s = Inr s'" "running s'"
    "flat_of s' = (flat_of s)(j \<mapsto> (prot, zero_page))"
  using R
proof (cases rule: running_free_list)
  case (2 i)
  note S = resident_simps [OF running_resident [OF R]]
  let ?s = "emit (Mapped va (va div 16) (int i)) s"
  let ?b = "filled prot (int i) (memory s ! (2 * j))"
  have b: "bf_get 0 1 ?b = 1" "bf_get 1 1 ?b = 1" "bf_get 3 2 ?b = int i" "bf_get 2 1 ?b = prot"
    using 2 prot filled_fields by auto
  have st: "map_page 0 va prot (int j * 2) s = Inr (?s\<lparr>free_list := (free_list s)[i := FULL], memory := (memory s)[2 * j := ?b]\<rparr>)"
    using 2 j S by (auto simp: map_page_def aset_def in_bounds_def fill_entry_single Let_def)
  have "running ?s" using R by simp
  from frame_update [OF this, of j i ?b] st b j 2 show ?thesis
    by (intro that [OF st]) simp_all
next
  case 1
  note Rs = running_resident [OF R]
  obtain s1 where s1: "skip_own_table 0 s = Inr s1" "resident s1" "1 \<le> nextSwap s1" "nextSwap s1 \<le> 3"
    "memory s1 = memory s" "swap s1 = swap s" "free_list s1 = free_list s" "swap_states s1 = swap_states s"
    "page_table_start s1 = page_table_start s" "flat_of s1 = flat_of s"
    by (rule skip_own_single [OF Rs])
  have nl: "\<not> live (ent (memory s) j)" using j by (simp add: live_def)
  have "\<not> swapped_out s i" for i
    using others_live [OF Rs 1(2) j(1) nl, of i] j by (cases "i = j") (auto simp: swapped_out_def live_def)
  then have states: "swap_states s1 = replicate 20 FREE" using R s1(8) by (auto simp: running_def)
  have j1: "pte_alloc (ent (memory s1) j) = 0" using j s1(5) by simp
  obtain s3 where s3: "cbind (append_page_to_swap s1 zero_page) (\<lambda>(_, s2).
       cbind (set_swapspace (memory s2) (int j * 2) (get_num_pages_in_swap s2 - 1)) (\<lambda>m. Inr (s2\<lparr>memory := m\<rparr>))) = Inr s3"
    "resident s3" "free_list s3 = free_list s1" "nextSwap s3 = nextSwap s1" "\<not> live (ent (memory s3) j)"
    "swap s3 ! 0 = zero_page" "\<And>x. (flat_of s3)(j \<mapsto> x) = (flat_of s1)(j \<mapsto> x)"
    "swapspace (memory s3) (int j * 2) = Inr 0"
    by (rule new_slot_single [OF s1(2) _ states j(1) j1]) (use s1(7) 1 in auto)
  obtain s4 s5 where s45: "swapPage swap_fuel s3 0 (nextSwap s3) 0 = Inr s4"
    "fill_entry (int j * 2) prot (nextSwap s3) s4 = Inr s5" "running s5" "flat_of s5 = (flat_of s3)(j \<mapsto> (prot, swap s3 ! 0))"
    by (rule replacement_single [OF s3(2) _ _ _ j(1) s3(5) prot]) (use s1 s3 1 in auto)
  have "alloc (memory s1) (int j * 2) = Inr 0"
    using resident_simps(1) [OF s1(2)] j j1 by (simp add: field_ent)
  then have "map_page 0 va prot (int j * 2) s = Inr s5"
    using 1 s1(1) s3(1,4,8) s45(1,2) by (simp add: map_page_def)
  then show ?thesis using that s45(3,4) s3(6,7) s1(10) by simp
qed

lemma map_table_single:
  assumes "single s"
  obtains s' where "map_table 0 s = Inr s'" "running s'" "flat_of s' = flat_of s"
  using assms unfolding single_def
proof
  assume R: "running s"
  then have "map_table 0 s = Inr s"
    using resident_simps(5) [OF running_resident [OF R]]
    by (simp add: map_table_def aget_def in_bounds_def in_memory_def)
  then show ?thesis using R that by blast
next
  assume F: "fresh s"
  let ?s = "emit (PutTable 0 0) (s\<lparr>page_table_start := [0, 4, 4, 4], free_list := [1, 0, 0, 0]\<rparr>)"
  have zero: "pte_alloc (ent (replicate 64 0) j) = 0" if "j < 4" for j
    using that by (simp add: ent_def decode_def bf_get_def)
  have fl: "[1, 0, 0, 0] ! f \<noteq> (1 :: int)" if "1 \<le> f" "f < 4" for f
    using that by (auto simp: less_Suc_eq numeral_eq_Suc)
  have "map_table 0 s = Inr ?s"
    using F by (simp add: fresh_def map_table_def aget_def aset_def in_bounds_def in_memory_def set_table_def
        EMPTY_def FULL_def)
  moreover have "resident ?s"
    using F fl [simplified] zero
    by (auto simp: resident_def live_def fresh_def vm_shape_def FULL_def content_def zero_page_def nth_Cons')
  then have "running ?s"
    using F zero by (auto simp: running_def swapped_out_def fresh_def)
  moreover have "flat_of ?s = flat_of s"
    using F zero by (auto simp: flat_of_def fun_eq_iff fresh_def Let_def)
  ultimately show ?thesis by (rule that)
qed

lemma page_no_bound:
  assumes "0 \<le> va" "va < 64"
  shows "page_no va < 4" "int (page_no va) = va div 16" "offset va < 16" "va mod 16 = int (offset va)"
  using assms by (auto simp: page_no_def offset_def)

lemma flat_of_live:
  "running s \<Longrightarrow> j < 4 \<Longrightarrow> live (ent (memory s) j) \<Longrightarrow>
   flat_of s j = Some (pte_prot (ent (memory s) j), content (memory s) (nat (pte_frame (ent (memory s) j))))"
  by (simp add: flat_of_def live_def Let_def resident_simps(5) [OF running_resident])

lemma flat_of_None:
  "running s \<Longrightarrow> j < 4 \<Longrightarrow> flat_of s j = None \<longleftrightarrow> pte_alloc (ent (memory s) j) = 0"
  using pte_ranges(1) [of "memory s" j]
  by (auto simp: flat_of_def Let_def resident_simps(5) [OF running_resident])

lemma flat_of_prot:
  "running s \<Longrightarrow> j < 4 \<Longrightarrow> flat_of s j = Some (pr, bs) \<Longrightarrow>
   pte_alloc (ent (memory s) j) = 1 \<and> pte_prot (ent (memory s) j) = pr"
  by (auto simp: flat_of_def Let_def split: if_splits)

text \<open>The protection of an allocated page is the last thing a \<^verbatim>\<open>map\<close> writes.\<close>

lemma swapped_in_single:
  assumes R: "running s" and j: "j < 4" "pte_alloc (ent (memory s) j) = 1" "pte_valid (ent (memory s) j) = 0"
    and prot: "prot = 0 \<or> prot = 1"
  obtains s' where "map_page 0 va prot (int j * 2) s = Inr s'" "running s'"
    "flat_of s' = flat_map j prot (flat_of s)" "pte_alloc (ent (memory s') j) = 1"
    "pte_prot (ent (memory s') j) = prot"
proof -
  note Rs = running_resident [OF R]
  have so: "swapped_out s j" using j by (simp add: swapped_out_def)
  then have slot: "pte_slot (ent (memory s) j) = 0" and full: "free_list s = [1, 1, 1, 1]"
    using R by (auto simp: running_def)
  have nl: "\<not> live (ent (memory s) j)" using j by (simp add: live_def)
  have fs: "flat_of s j = Some (pte_prot (ent (memory s) j), swap s ! 0)"
    using j slot resident_simps(5) [OF Rs] by (simp add: flat_of_def)
  obtain s1 where s1: "skip_own_table 0 s = Inr s1" "resident s1" "1 \<le> nextSwap s1" "nextSwap s1 \<le> 3"
    "memory s1 = memory s" "swap s1 = swap s" "free_list s1 = free_list s" "flat_of s1 = flat_of s"
    by (rule skip_own_single [OF Rs])
  obtain s4 s5 where s45: "swapPage swap_fuel s1 0 (nextSwap s1) 0 = Inr s4"
    "fill_entry (int j * 2) prot (nextSwap s1) s4 = Inr s5" "running s5"
    "flat_of s5 = (flat_of s1)(j \<mapsto> (prot, swap s1 ! 0))" "pte_alloc (ent (memory s5) j) = 1"
    "pte_prot (ent (memory s5) j) = prot"
    by (rule replacement_single [OF s1(2) _ s1(3,4) j(1) _ prot]) (use s1 full nl in auto)
  have "scan_free (free_list s) 0 = 4" using full by (simp add: FULL_def)
  moreover have "length (memory s1) = 64" using resident_simps(1) [OF s1(2)] .
  ultimately have "map_page 0 va prot (int j * 2) s = Inr s5"
    using s1 j slot s45(1,2) by (simp add: map_page_def field_ent)
  moreover have "flat_of s5 = flat_map j prot (flat_of s)"
    using s45(4) s1(6,8) fs by (simp add: flat_map_def)
  ultimately show ?thesis using that s45 by blast
qed

lemma flat_map_same: "\<sigma> j = Some (prot, bs) \<Longrightarrow> flat_map j prot \<sigma> = \<sigma>"
  by (simp add: flat_map_def fun_upd_idem)

lemma flat_map_twice: "flat_map j p (flat_map j q \<sigma>) = flat_map j p \<sigma>"
  by (simp add: flat_map_def)

lemma protect_single:
  assumes R: "running s" and j: "j < 4" "pte_alloc (ent (memory s) j) = 1" and prot: "prot = 0 \<or> prot = 1"
  obtains m where "set_protection (memory s) (int j * 2) prot = Inr m"
    "running ((emit msg s)\<lparr>memory := m\<rparr>)" "flat_of ((emit msg s)\<lparr>memory := m\<rparr>) = flat_map j prot (flat_of s)"
proof -
  let ?b = "bf_set 2 1 prot (memory s ! (2 * j))"
  have b: "bf_get 0 1 ?b = pte_alloc (ent (memory (emit msg s)) j)" "bf_get 1 1 ?b = pte_valid (ent (memory (emit msg s)) j)"
    "bf_get 3 2 ?b = pte_frame (ent (memory (emit msg s)) j)" "bf_get 2 1 ?b = prot"
    using prot by (auto simp: bf_fields ent_def decode_def)
  have "running (emit msg s)" using R by simp
  note P = protection_update [OF this j(1) b(1-3)]
  show ?thesis
    by (rule that [of "(memory s)[2 * j := ?b]"])
       (use P j b(4) entry_writes resident_simps(1) [OF running_resident [OF R]] in simp_all)
qed

lemma mapInst_single:
  assumes S: "single s" and va: "0 \<le> va" "va < 64" and prot: "prot = 0 \<or> prot = 1"
  obtains s' where "mapInst 0 va prot s = Inr s'" "running s'" "flat_of s' = flat_map (page_no va) prot (flat_of s)"
proof -
  let ?j = "page_no va"
  note j = page_no_bound [OF va]
  obtain s1 where s1: "map_table 0 s = Inr s1" "running s1" "flat_of s1 = flat_of s"
    by (rule map_table_single [OF S])
  have R1: "resident s1" by (rule running_resident [OF s1(2)])
  note S1 = resident_simps [OF R1]
  have a: "0 * 16 + va div 16 * 2 = int ?j * 2" using j(2) by simp
  let ?e = "ent (memory s1) ?j"
  consider (new) "pte_alloc ?e = 0" | (out) "pte_alloc ?e = 1" "pte_valid ?e = 0" | (here) "pte_alloc ?e = 1" "pte_valid ?e = 1"
    using pte_ranges(1,2) [of "memory s1" ?j] by blast
  then show ?thesis
  proof cases
    case new
    have R: "running (emit AllocatingNew s1)" using s1(2) by simp
    obtain s3 where s3: "map_page 0 va prot (int ?j * 2) (emit AllocatingNew s1) = Inr s3" "running s3"
      "flat_of s3 = (flat_of (emit AllocatingNew s1))(?j \<mapsto> (prot, zero_page))"
      by (rule new_page_single [OF R j(1) _ prot]) (use new in auto)
    have "mapInst 0 va prot s = Inr s3"
      using s1(1) S1 a new j(1) s3(1)
      by (simp add: mapInst_def aget_def in_bounds_def field_ent Let_def)
    moreover have "flat_of s ?j = None" using flat_of_None [OF s1(2) j(1)] new s1(3) by simp
    then have "flat_of s3 = flat_map ?j prot (flat_of s)" using s3(3) s1(3) by (simp add: flat_map_def)
    ultimately show ?thesis using that s3(2) by blast
  next
    case out
    obtain s3 where s3: "map_page 0 va prot (int ?j * 2) s1 = Inr s3" "running s3"
      "flat_of s3 = flat_map ?j prot (flat_of s1)" "pte_alloc (ent (memory s3) ?j) = 1"
      "pte_prot (ent (memory s3) ?j) = prot"
      by (rule swapped_in_single [OF s1(2) j(1) out prot])
    obtain m where m: "set_protection (memory s3) (int ?j * 2) prot = Inr m"
      "running ((emit UpdatingProtection s3)\<lparr>memory := m\<rparr>)"
      "flat_of ((emit UpdatingProtection s3)\<lparr>memory := m\<rparr>) = flat_map ?j prot (flat_of s3)"
      by (rule protect_single [OF s3(2) j(1) s3(4) prot])
    have "mapInst 0 va prot s = Inr (if pte_prot ?e = prot then emit (AlreadyMapped (va div 16) prot) s3
        else (emit UpdatingProtection s3)\<lparr>memory := m\<rparr>)"
      using s1(1) S1 a out j(1) s3(1) m(1) by (simp add: mapInst_def aget_def in_bounds_def field_ent Let_def)
    then show ?thesis
      using that s3(2,3) m s1(3) by (cases "pte_prot ?e = prot") (simp_all add: flat_map_twice)
  next
    case here
    obtain m where m: "set_protection (memory s1) (int ?j * 2) prot = Inr m"
      "running ((emit UpdatingProtection s1)\<lparr>memory := m\<rparr>)"
      "flat_of ((emit UpdatingProtection s1)\<lparr>memory := m\<rparr>) = flat_map ?j prot (flat_of s1)"
      by (rule protect_single [OF s1(2) j(1) here(1) prot])
    have "mapInst 0 va prot s = Inr (if pte_prot ?e = prot then emit (AlreadyMapped (va div 16) prot) s1
        else (emit UpdatingProtection s1)\<lparr>memory := m\<rparr>)"
      using s1(1) S1 a here j(1) m(1) by (simp add: mapInst_def aget_def in_bounds_def field_ent Let_def)
    moreover have "live ?e" using here by (simp add: live_def)
    ultimately show ?thesis
      using that s1(2,3) m flat_of_live [OF s1(2) j(1)] by (cases "pte_prot ?e = prot") (simp_all add: flat_map_same)
  qed
qed

lemma fresh_access:
  assumes "fresh s"
  shows "storeInst 0 va v s = Inr (emit NotAllocatedYet s)" "loadInst 0 va s = Inr (emit NotAllocatedYet s)"
    "flat_of s = (\<lambda>_. None)" "fresh (emit msg s)"
  using assms by (auto simp: fresh_def storeInst_def loadInst_def aget_def in_bounds_def NOTALLOC_def flat_of_def)

lemma bring_table_single: "running s \<Longrightarrow> bring_table 0 s = Inr s"
  using resident_simps(5) [OF running_resident] by (simp add: bring_table_def aget_def in_bounds_def)

lemma storeInst_running:
  assumes R: "running s" and va: "0 \<le> va" "va < 64"
  obtains s' where "storeInst 0 va v s = Inr s'" "running s'" "flat_of s' = flat_store va (word_of_int v) (flat_of s)"
    "replies (out s') = replies (out s) @ flat_answer store va v (flat_of s)"
proof -
  let ?j = "page_no va" and ?e = "ent (memory s) (page_no va)"
  note j = page_no_bound [OF va] and S = resident_simps [OF running_resident [OF R]]
  have a: "0 * 16 + va div 16 * 2 = int ?j * 2" using j(2) by simp
  note bt = bring_table_single [OF R]
  consider (none) "pte_alloc ?e = 0" | (ro) "pte_alloc ?e = 1" "pte_prot ?e = 0" | (rw) "pte_alloc ?e = 1" "pte_prot ?e = 1"
    using pte_ranges(1,3) [of "memory s" ?j] by blast
  then show ?thesis
  proof cases
    case none
    have "storeInst 0 va v s = Inr (emit NotAllocatedYet s)"
      using bt S a none j(1) by (simp add: storeInst_def aget_def in_bounds_def field_ent Let_def NOTALLOC_def)
    moreover have "flat_of s ?j = None" using flat_of_None [OF R j(1)] none by simp
    ultimately show ?thesis using that R by (simp add: flat_store_def flat_answer_def)
  next
    case ro
    have "storeInst 0 va v s = Inr (emit ReadOnly s)"
      using bt S a ro j(1) by (simp add: storeInst_def aget_def in_bounds_def field_ent Let_def NOTALLOC_def)
    moreover obtain bs where "flat_of s ?j = Some (0, bs)"
      using flat_of_None [OF R j(1)] flat_of_prot [OF R j(1)] ro by (cases "flat_of s ?j") auto
    ultimately show ?thesis using that R by (simp add: flat_store_def flat_answer_def)
  next
    case rw
    obtain s2 where s2: "bring_page 0 (int ?j * 2) s = Inr s2" "running s2" "flat_of s2 = flat_of s"
      "live (ent (memory s2) ?j)" "replies (out s2) = replies (out s)" by (rule bring_page_single [OF R j(1) rw(1)])
    let ?f = "pte_frame (ent (memory s2) ?j)"
    note S2 = resident_simps [OF running_resident [OF s2(2)]]
    have f: "0 \<le> ?f" "?f \<le> 3" using pte_ranges(4,5) by auto
    have na: "nat (va mod 16 + ?f * 16) = 16 * nat ?f + offset va" "0 \<le> va mod 16 + ?f * 16" "va mod 16 + ?f * 16 < 64"
      using f j(3,4) by (simp_all add: nat_add_distrib nat_mult_distrib)
    let ?m = "(memory s2)[16 * nat ?f + offset va := word_of_int v]"
    let ?s = "(emit (StoredValue v va (va mod 16 + ?f * 16)) s2)\<lparr>memory := ?m\<rparr>"
    have st: "storeInst 0 va v s = Inr ?s"
      using bt S S2 a rw j(1) s2(1) na
      by (simp add: storeInst_def aget_def aset_def in_bounds_def field_ent Let_def NOTALLOC_def)
    have R2: "running (emit (StoredValue v va (va mod 16 + ?f * 16)) s2)" using s2(2) by simp
    have pr: "flat_of s ?j = Some (1, content (memory s2) (nat ?f))"
      using flat_of_live [OF s2(2) j(1) s2(4)] s2(3) flat_of_prot [OF R j(1)] rw(2) by auto
    then have pr2: "pte_prot (ent (memory s2) ?j) = 1" using flat_of_live [OF s2(2) j(1) s2(4)] s2(3) by simp
    note B = byte_update [OF R2 j(1) _ j(3), of "word_of_int v"]
    show ?thesis
      by (rule that [OF st]) (use B s2(3,4,5) pr pr2 in \<open>simp_all add: flat_store_def flat_answer_def\<close>)
  qed
qed

lemma loadInst_running:
  assumes R: "running s" and va: "0 \<le> va" "va < 64"
  obtains s' where "loadInst 0 va s = Inr s'" "running s'" "flat_of s' = flat_of s"
    "replies (out s') = replies (out s) @ flat_answer load va v (flat_of s)"
proof -
  let ?j = "page_no va" and ?e = "ent (memory s) (page_no va)"
  note j = page_no_bound [OF va] and S = resident_simps [OF running_resident [OF R]]
  have a: "0 * 16 + va div 16 * 2 = int ?j * 2" using j(2) by simp
  note bt = bring_table_single [OF R]
  show ?thesis
  proof (cases "pte_alloc ?e = 0")
    case True
    then have "loadInst 0 va s = Inr (emit NotAllocatedYet s)"
      using bt S a j(1) by (simp add: loadInst_def aget_def in_bounds_def field_ent Let_def NOTALLOC_def)
    moreover have "flat_of s ?j = None" using flat_of_None [OF R j(1)] True by simp
    ultimately show ?thesis using that R by (simp add: flat_answer_def)
  next
    case False
    then have al: "pte_alloc ?e = 1" using pte_ranges(1) [of "memory s" ?j] by simp
    obtain s2 where s2: "bring_page 0 (int ?j * 2) s = Inr s2" "running s2" "flat_of s2 = flat_of s"
      "live (ent (memory s2) ?j)" "replies (out s2) = replies (out s)" by (rule bring_page_single [OF R j(1) al])
    let ?f = "pte_frame (ent (memory s2) ?j)"
    note S2 = resident_simps [OF running_resident [OF s2(2)]]
    have f: "0 \<le> ?f" "?f \<le> 3" using pte_ranges(4,5) by auto
    have na: "nat (va mod 16 + ?f * 16) = 16 * nat ?f + offset va" "0 \<le> va mod 16 + ?f * 16" "va mod 16 + ?f * 16 < 64"
      using f j(3,4) by (simp_all add: nat_add_distrib nat_mult_distrib)
    let ?b = "memory s2 ! (16 * nat ?f + offset va)"
    have "loadInst 0 va s = Inr (emit (LoadedValue (uint ?b) va (va mod 16 + ?f * 16)) s2)"
      using bt S S2 a al j(1) s2(1) na
      by (simp add: loadInst_def aget_def in_bounds_def field_ent Let_def NOTALLOC_def)
    moreover have "?b = content (memory s2) (nat ?f) ! offset va" using S2 j(3) f by (simp add: content_def)
    ultimately show ?thesis
      using that s2(2,3,5) flat_of_live [OF s2(2) j(1) s2(4)] by (simp add: flat_answer_def)
  qed
qed

section \<open>Simulation\<close>

definition access_ok :: "instructions \<Rightarrow> int \<Rightarrow> int \<Rightarrow> bool" where
  "access_ok instr va v \<longleftrightarrow> 0 \<le> va \<and> va < 64 \<and> (instr = map_instr \<longrightarrow> v = 0 \<or> v = 1)"

lemma single_shape: "single s \<Longrightarrow> vm_shape s"
  by (auto simp: single_def fresh_def running_def resident_def)

lemma process_single:
  assumes S: "single s" and ok: "access_ok instr va v"
  obtains s' where "process 0 instr va v s = Inr s'" "single s'" "flat_of s' = flat_step instr va v (flat_of s)"
    "replies (out s') = replies (out s) @ flat_answer instr va v (flat_of s)"
proof (cases instr)
  case map_instr
  then obtain s' where s': "mapInst 0 va v s = Inr s'" "running s'" "flat_of s' = flat_map (page_no va) v (flat_of s)"
    using ok by (auto simp: access_ok_def intro: mapInst_single [OF S])
  then have "replies_are (replies (out s)) s'"
    using mapInst_replies [OF s'(1), of "replies (out s)"] single_shape [OF S] by (simp add: replies_are_def)
  then show ?thesis
    using that s' map_instr by (simp add: process_def single_def flat_step_def flat_answer_def replies_are_def)
next
  case store
  show ?thesis
  proof (cases "fresh s")
    case True
    then show ?thesis using that fresh_access [OF True] store
      by (simp add: process_def single_def flat_step_def flat_store_def flat_answer_def)
  next
    case False
    then obtain s' where "storeInst 0 va v s = Inr s'" "running s'" "flat_of s' = flat_store va (word_of_int v) (flat_of s)"
      "replies (out s') = replies (out s) @ flat_answer store va v (flat_of s)"
      using S ok by (auto simp: access_ok_def single_def intro: storeInst_running [of s va])
    then show ?thesis using that store by (simp add: process_def single_def flat_step_def)
  qed
next
  case load
  show ?thesis
  proof (cases "fresh s")
    case True
    then show ?thesis using that fresh_access [OF True] load
      by (simp add: process_def single_def flat_step_def flat_answer_def)
  next
    case False
    then obtain s' where "loadInst 0 va s = Inr s'" "running s'" "flat_of s' = flat_of s"
      "replies (out s') = replies (out s) @ flat_answer load va v (flat_of s)"
      using S ok by (auto simp: access_ok_def single_def intro: loadInst_running [of s va])
    then show ?thesis using that load by (simp add: process_def single_def flat_step_def)
  qed
qed

text \<open>Whole sessions: a command is an instruction, an address and a value, typed as one word.\<close>

type_synonym command = "instructions \<times> nat \<times> nat"

fun instruction_name :: "instructions \<Rightarrow> string" where
  "instruction_name store = ''store''"
| "instruction_name load = ''load''"
| "instruction_name map_instr = ''map''"

definition command_line :: "nat \<Rightarrow> command \<Rightarrow> string" where
  "command_line pid c =
     (case c of (instr, va, v) \<Rightarrow> join CHR '','' [print_nat pid, instruction_name instr, print_nat va, print_nat v])"

fun command_ok :: "command \<Rightarrow> bool" where
  "command_ok (instr, va, v) = (access_ok instr (int va) (int v) \<and> int v \<le> INT_MAX)"

fun flat_run :: "command list \<Rightarrow> flat \<Rightarrow> flat" where
  "flat_run [] \<sigma> = \<sigma>"
| "flat_run ((instr, va, v) # cs) \<sigma> = flat_run cs (flat_step instr (int va) (int v) \<sigma>)"

fun flat_answers :: "command list \<Rightarrow> flat \<Rightarrow> reply list" where
  "flat_answers [] \<sigma> = []"
| "flat_answers ((instr, va, v) # cs) \<sigma> =
     flat_answer instr (int va) (int v) \<sigma> @ flat_answers cs (flat_step instr (int va) (int v) \<sigma>)"

lemma preProcess_line:
  assumes "int pid \<le> INT_MAX" "int va \<le> INT_MAX" "int v \<le> INT_MAX"
  shows "preProcess (command_line pid (instr, va, v)) =
    \<lparr>ui_valid = 1, ui_pid = Some (int pid), ui_instruction = Some instr,
     ui_virtual_address = Some (int va), ui_value = Some (int v)\<rparr>"
proof -
  have "CHR '','' \<notin> set (print_nat n)" for n using print_nat_digits digit_not(4) by blast
  then have "tokens CHR '','' (command_line pid (instr, va, v)) =
      [print_nat pid, instruction_name instr, print_nat va, print_nat v]"
    unfolding command_line_def prod.case by (intro tokens_join) (cases instr, auto)
  moreover have "parse_instruction (instruction_name instr) = Some instr"
    by (cases instr) (simp_all add: parse_instruction_def)
  ultimately show ?thesis using assms by (simp add: preProcess_def atoi_print_nat)
qed

lemma command_line_length:
  assumes "int pid \<le> INT_MAX" "int va \<le> INT_MAX" "int v \<le> INT_MAX"
  shows "length (command_line pid (instr, va, v)) < 100"
proof -
  have "length (print_nat n) \<le> 10" if "int n \<le> INT_MAX" for n
    using that print_nat_length [of n 9] by (simp add: INT_MAX_def)
  then have "length (print_nat pid) \<le> 10" "length (print_nat va) \<le> 10" "length (print_nat v) \<le> 10"
    using assms by simp_all
  then show ?thesis by (cases instr) (simp_all add: command_line_def)
qed

lemma main_step_line:
  assumes "command_ok (instr, va, v)" "int pid \<le> INT_MAX"
  shows "main_step (command_line pid (instr, va, v)) s =
    process (int pid) instr (int va) (int v) (emit (InputReceived (command_line pid (instr, va, v))) (emit Prompt s))"
proof -
  have "int va \<le> INT_MAX" using assms by (simp add: access_ok_def INT_MAX_def)
  then show ?thesis
    using assms preProcess_line [of pid va v instr] command_line_length [of pid va v instr]
    by (simp add: main_step_def call_process_def)
qed

lemma single_emit [simp]: "single (emit msg s) = single s"
  by (auto simp: single_def fresh_def)

lemma main_loop_single:
  "single s \<Longrightarrow> list_all command_ok cs \<Longrightarrow>
   \<exists>s'. main_loop (map (command_line 0) cs) s = Inr s' \<and> single s' \<and> flat_of s' = flat_run cs (flat_of s) \<and>
     replies (out s') = replies (out s) @ flat_answers cs (flat_of s)"
proof (induction cs arbitrary: s)
  case (Cons c cs)
  obtain instr va v where c: "c = (instr, va, v)" by (cases c)
  let ?s0 = "emit (InputReceived (command_line 0 c)) (emit Prompt s)"
  have ok: "access_ok instr (int va) (int v)" using Cons.prems c by simp
  have "single ?s0" using Cons.prems by simp
  then obtain s1 where s1: "process 0 instr (int va) (int v) ?s0 = Inr s1" "single s1"
    "flat_of s1 = flat_step instr (int va) (int v) (flat_of ?s0)"
    "replies (out s1) = replies (out ?s0) @ flat_answer instr (int va) (int v) (flat_of ?s0)"
    by (rule process_single [OF _ ok])
  have "main_step (command_line 0 c) s = Inr s1"
    using Cons.prems c s1(1) main_step_line [of instr va v 0 s] by (simp add: INT_MAX_def)
  moreover obtain s' where "main_loop (map (command_line 0) cs) s1 = Inr s'" "single s'"
    "flat_of s' = flat_run cs (flat_of s1)" "replies (out s') = replies (out s1) @ flat_answers cs (flat_of s1)"
    using Cons.IH [OF s1(2)] Cons.prems by auto
  ultimately show ?case using s1(3,4) c by simp
qed simp

lemma init_single: "single init_vm" and init_flat: "flat_of init_vm = (\<lambda>_. None)" "replies (out init_vm) = []"
proof -
  have "fresh init_vm"
    using init_vm_shape by (simp add: fresh_def init_vm_def NOTALLOC_def EMPTY_def numeral_eq_Suc)
  then show "single init_vm" "flat_of init_vm = (\<lambda>_. None)" by (simp_all add: single_def fresh_access(3))
  show "replies (out init_vm) = []" by (simp add: init_vm_def replies_def)
qed

end
