(* ===== verification/Mem_Properties.thy ===== *)
theory Mem_Properties
  imports Single_Process
begin

text \<open>
  The properties of the memory manager (src/project-4/main.c): the refinement of a program that runs
  alone to a flat address space, the termination and the invariants of the page replacement, reads
  after writes, the parser, and the runs that leave the bounds of the swap space.
\<close>

section \<open>More fuel gives the same result\<close>

definition fuel_le :: "'a cres \<Rightarrow> 'a cres \<Rightarrow> bool" where
  "fuel_le r r' \<longleftrightarrow> r = Inl OutOfFuel \<or> r' = r"

lemma fuel_le_refl [simp]: "fuel_le r r"
  by (simp add: fuel_le_def)

lemma fuel_le_cbind: "fuel_le m m' \<Longrightarrow> (\<And>x. m = Inr x \<Longrightarrow> fuel_le (f x) (f' x)) \<Longrightarrow> fuel_le (cbind m f) (cbind m' f')"
  by (cases m) (auto simp: fuel_le_def)

lemma evict_remote_mono:
  assumes "\<And>s slot f. fuel_le (rec s slot f pid) (rec' s slot f pid)"
  shows "fuel_le (evict_remote rec slot f pid si so i j s) (evict_remote rec' slot f pid si so i j s)"
  unfolding evict_remote_def Let_def by (intro fuel_le_cbind assms) simp_all

lemma swap_scan_mono:
  assumes rec: "\<And>s slot f. fuel_le (rec s slot f pid) (rec' s slot f pid)"
  shows "fuel_le (swap_scan rec slot f pid si so is s) (swap_scan rec' slot f pid si so is s)"
proof (induction "is")
  case (Cons i "is")
  then show ?case
    unfolding swap_scan.simps Let_def
    by (intro fuel_le_cbind) (auto intro!: fuel_le_cbind rec evict_remote_mono split: option.splits)
qed simp

lemma swapPage_mono: "fuel_le (swapPage fuel s slot f pid) (swapPage (Suc fuel) s slot f pid)"
proof (induction fuel arbitrary: s slot f)
  case 0
  show ?case by (simp add: fuel_le_def)
next
  case (Suc fuel)
  show ?case
    unfolding swapPage.simps(2) [of "Suc fuel"] swapPage.simps(2) [of fuel s] Let_def
    by (intro fuel_le_cbind swap_scan_mono Suc.IH) simp_all
qed

lemma swapPage_more_fuel:
  assumes "swapPage fuel s slot f pid \<noteq> Inl OutOfFuel"
  shows "swapPage (fuel + k) s slot f pid = swapPage fuel s slot f pid"
proof (induction k)
  case (Suc k)
  then show ?case using assms swapPage_mono [of "fuel + k" s slot f pid] by (auto simp: fuel_le_def simp del: swapPage.simps)
qed simp

section \<open>A program that runs alone\<close>

text \<open>C2: for the state of a run in which only process 0 has issued instructions, every instruction
  with an address of the 64-byte virtual space (and, for a map, a protection of 0 or 1) ends
  without fault, page replacement included; it leaves such a state; its effect on the address
  space, page by page wherever the page is, is that of the flat memory; and it tells the user what
  the flat memory would.\<close>

theorem single_process_step:
  assumes "single s" "access_ok instr va v"
  shows "\<exists>s'. process 0 instr va v s = Inr s' \<and> single s' \<and> flat_of s' = flat_step instr va v (flat_of s) \<and>
    replies (out s') = replies (out s) @ flat_answer instr va v (flat_of s)"
  by (rule process_single [OF assms]) blast

theorem single_process_step_witness:
  "\<exists>s'. process 0 map_instr 20 1 init_vm = Inr s' \<and> single s' \<and>
    flat_of s' = flat_step map_instr 20 1 (flat_of init_vm) \<and>
    replies (out s') = replies (out init_vm) @ flat_answer map_instr 20 1 (flat_of init_vm)"
  using single_process_step [OF init_single, of map_instr 20 1] by (simp add: access_ok_def)

text \<open>C1: a whole session of process 0, typed as lines of text, runs to the end of its input
  without fault; the answers printed (values loaded, values stored, accesses refused) are exactly
  those of a flat 64-byte memory with page protection, although only three frames are left beside
  the page table and the fourth page lives in the swap space.\<close>

theorem single_process_session:
  assumes "list_all command_ok cs"
  shows "\<exists>s'. main (map (command_line 0) cs) = Inr s' \<and> replies (out s') = flat_answers cs (\<lambda>_. None) \<and>
    flat_of s' = flat_run cs (\<lambda>_. None)"
  using main_loop_single [OF init_single assms] by (auto simp: main_def init_flat)

text \<open>Five pages' worth of traffic: the fourth page replaces the first, which comes back when it is read.\<close>

definition session :: "command list" where
  "session = [(map_instr, 0, 1), (store, 5, 77), (map_instr, 16, 1), (map_instr, 32, 0), (map_instr, 48, 1),
     (store, 50, 300), (store, 33, 1), (load, 5, 0), (load, 50, 0), (load, 63, 0)]"

theorem single_process_session_witness:
  "\<exists>s'. main (map (command_line 0) session) = Inr s' \<and>
    replies (out s') = [StoredAt 77 5, StoredAt 300 50, WriteRefused, LoadedFrom 77 5, LoadedFrom 44 50, LoadedFrom 0 63] \<and>
    flat_of s' = flat_run session (\<lambda>_. None)"
proof -
  have "list_all command_ok session" by (simp add: session_def access_ok_def INT_MAX_def)
  moreover have "flat_answers session (\<lambda>_. None) =
      [StoredAt 77 5, StoredAt 300 50, WriteRefused, LoadedFrom 77 5, LoadedFrom 44 50, LoadedFrom 0 63]"
    by (simp add: session_def flat_answer_def flat_step_def flat_map_def flat_store_def page_no_def offset_def zero_page_def)
  ultimately show ?thesis using single_process_session by metis
qed

section \<open>Page replacement\<close>

text \<open>C11: a page replacement on behalf of a process never moves the page table of that process,
  through any number of refusals and nested replacements: a table in frame \<open>t\<close> is still in frame
  \<open>t\<close> afterwards. The instructions go on to write through an address inside that table.\<close>

theorem swapPage_keeps_own_table:
  assumes "vm_shape s" "0 \<le> t" "aget (page_table_start s) pid = Inr t" "swapPage fuel s slot f pid = Inr s'"
  shows "aget (page_table_start s') pid = Inr t"
  using swapPage_own_table [OF assms(4), of t] assms(1-3) by (simp add: own_table_def)

text \<open>Frame 0 holds the table of process 0 and is the victim: the swap is refused and frame 1 is taken.\<close>

definition swap_example :: vm where
  "swap_example = \<lparr>memory = [3 + 8, 0, 3 + 16, 0] @ replicate 60 0, swap_states = replicate 20 FREE,
     swap = replicate 20 zero_page, page_table_start = [0, 4, 4, 4], free_list = [1, 1, 1, 0], nextSwap = 0, out = []\<rparr>"

lemma swap_example_result:
  "vm_shape swap_example" "aget (page_table_start swap_example) 0 = Inr 0"
  "swapPage 3 swap_example 0 0 0 = Inr \<lparr>memory = [1 + 8, 0, 3 + 16, 0] @ replicate 60 0,
     swap_states = CATALONIA # replicate 19 FREE, swap = replicate 20 zero_page, page_table_start = [0, 4, 4, 4],
     free_list = [1, 1, 1, 0], nextSwap = 2, out = [Swapped 0 0, SwapRefused, Swapped 1 0]\<rparr>"
  by code_simp+

theorem swapPage_keeps_own_table_witness:
  "\<exists>s'. swapPage 3 swap_example 0 0 0 = Inr s' \<and> aget (page_table_start s') 0 = Inr 0"
  using swapPage_keeps_own_table [OF swap_example_result(1) _ swap_example_result(2,3)] swap_example_result(3) by simp

text \<open>C10: the recursion of the page replacement ends: on every well-shaped state, for every slot,
  frame and process, twenty levels are enough and any larger bound gives the same result, so the
  bound in the model of the callers is no restriction.\<close>

theorem swapPage_terminates:
  assumes "vm_shape s"
  shows "swapPage swap_fuel s slot f pid \<noteq> Inl OutOfFuel \<and>
    swapPage (swap_fuel + k) s slot f pid = swapPage swap_fuel s slot f pid"
proof -
  have "no_fuel_fault (swapPage swap_fuel s slot f pid)"
    using swapPage_enough_fuel [OF assms swap_need_bound [OF assms]] .
  then show ?thesis using swapPage_more_fuel by (auto simp: no_fuel_fault_def)
qed

theorem swapPage_terminates_witness:
  "swapPage swap_fuel init_vm 0 0 0 \<noteq> Inl OutOfFuel \<and>
   swapPage (swap_fuel + 5) init_vm 0 0 0 = swapPage swap_fuel init_vm 0 0 0"
  by (rule swapPage_terminates [OF init_vm_shape])


text \<open>A page replacement neither takes a frame from the free list nor returns one, and prints no
  answer of its own.\<close>

theorem swapPage_frame_condition:
  assumes "vm_shape s" "swapPage fuel s slot f pid = Inr s'"
  shows "vm_shape s' \<and> free_list s' = free_list s \<and> replies (out s') = replies (out s)"
  using swapPage_shape [OF assms(2,1)] swapPage_free_list [OF assms(2,1)] swapPage_replies [OF assms(2,1)] by simp

theorem swapPage_frame_condition_witness:
  "\<exists>s'. swapPage 3 swap_example 0 0 0 = Inr s' \<and> vm_shape s' \<and> free_list s' = [1, 1, 1, 0] \<and> replies (out s') = []"
  using swapPage_frame_condition [OF swap_example_result(1,3)] swap_example_result(3)
  by (simp add: swap_example_def)

section \<open>The swap space\<close>

lemma first_free_prefix: "first_free (replicate k CATALONIA @ FREE # r) i = Some (i + int k)"
  by (induction k arbitrary: i) simp_all

text \<open>When the occupied slots are the first \<open>k\<close>, appending a page takes slot \<open>k\<close>, keeps the
  occupied slots a prefix, leaves the other slots alone, and \<^verbatim>\<open>get_num_pages_in_swap() - 1\<close> is the
  slot just taken, which is how \<^verbatim>\<open>mapInst\<close> finds it.\<close>

theorem append_page_takes_next_slot:
  assumes "swap_states s = replicate k CATALONIA @ replicate (20 - k) FREE" "length (swap s) = 20" "k < 20"
  shows "\<exists>s'. append_page_to_swap s p = Inr (Some (int k), s') \<and>
    swap_states s' = replicate (Suc k) CATALONIA @ replicate (20 - Suc k) FREE \<and>
    get_num_pages_in_swap s' - 1 = int k \<and> get_page_from_swap s' (int k) = Inr p \<and>
    (\<forall>i. i \<noteq> int k \<longrightarrow> get_page_from_swap s' i = get_page_from_swap s i)"
proof -
  obtain d where d: "20 - k = Suc d" using assms(3) by (cases "20 - k") auto
  let ?sts = "replicate (Suc k) CATALONIA @ replicate d FREE"
  let ?s = "s\<lparr>swap := (swap s)[k := p], swap_states := ?sts\<rparr>"
  have "(swap_states s)[k := CATALONIA] = replicate k CATALONIA @ CATALONIA # replicate d FREE"
    using assms(1) d by (simp add: list_update_append)
  also have "\<dots> = ?sts" by (simp add: replicate_app_Cons_same)
  finally have "append_page_to_swap s p = Inr (Some (int k), ?s)"
    using assms d first_free_prefix [of k "replicate d FREE" 0]
    by (simp add: append_page_to_swap_def aset_def in_bounds_def)
  moreover have "get_num_pages_in_swap ?s - 1 = int k"
    by (simp add: get_num_pages_in_swap_def)
  moreover have "20 - Suc k = d" using d by simp
  moreover have "get_page_from_swap ?s (int k) = Inr p"
    using assms(2,3) by (simp add: get_page_from_swap_def aget_def in_bounds_def)
  moreover have "get_page_from_swap ?s i = get_page_from_swap s i" if "i \<noteq> int k" for i
    using that by (auto simp: get_page_from_swap_def aget_def in_bounds_def nth_list_update)
  ultimately show ?thesis by (intro exI [of _ ?s]) simp
qed

theorem append_page_takes_next_slot_witness:
  "\<exists>s'. append_page_to_swap init_vm zero_page = Inr (Some 0, s') \<and>
    swap_states s' = CATALONIA # replicate 19 FREE \<and> get_num_pages_in_swap s' - 1 = 0"
  using append_page_takes_next_slot [of init_vm 0 zero_page] by (auto simp: init_vm_def)

text \<open>The encoding of "table in swap slot \<open>n\<close>" as a page-table number: the two conversions are
  inverse to each other, and no slot is encoded as a frame number or as \<^verbatim>\<open>NOTALLOC\<close>.\<close>

theorem swap_index_roundtrip:
  "indexToSwap (swapToIndex slot) = slot \<and> swapToIndex (indexToSwap pt) = pt \<and>
   (slot \<ge> 0 \<longleftrightarrow> swapToIndex slot < 0) \<and> \<not> (in_memory (swapToIndex \<bar>slot\<bar>) \<or> swapToIndex \<bar>slot\<bar> = NOTALLOC)"
  by (auto simp: indexToSwap_def swapToIndex_def in_memory_def NOTALLOC_def)

section \<open>Accesses that hit\<close>

text \<open>Process \<open>pid\<close> has its table in frame \<open>t\<close>, and the entry of address \<open>va\<close> there is \<open>e\<close>.\<close>

definition maps_to :: "vm \<Rightarrow> int \<Rightarrow> int \<Rightarrow> int \<Rightarrow> pte \<Rightarrow> bool" where
  "maps_to s pid va t e \<longleftrightarrow> vm_shape s \<and> 0 \<le> va \<and> va < 64 \<and> 0 \<le> t \<and> t \<le> 3 \<and>
     aget (page_table_start s) pid = Inr t \<and> ent (drop (16 * nat t) (memory s)) (page_no va) = e"

lemma maps_to_entry:
  assumes "maps_to s pid va t e"
  defines "a \<equiv> t * 16 + va div 16 * 2"
  shows "alloc (memory s) a = Inr (pte_alloc e)" "valid (memory s) a = Inr (pte_valid e)"
    "protection (memory s) a = Inr (pte_prot e)" "frame (memory s) a = Inr (pte_frame e)"
    "aget (page_table_start s) pid = Inr t" "t \<noteq> NOTALLOC" "bring_table pid s = Inr s"
proof -
  have b: "0 \<le> va" "va < 64" "0 \<le> t" "t \<le> 3" "length (memory s) = 64"
    and e: "e = ent (drop (16 * nat t) (memory s)) (page_no va)" and t: "aget (page_table_start s) pid = Inr t"
    using assms by (auto simp: maps_to_def vm_shape_def)
  have n: "nat a = 16 * nat t + 2 * page_no va" "nat (a + 1) = Suc (16 * nat t + 2 * page_no va)"
    "0 \<le> a" "a + 1 < 64"
    using b by (auto simp: a_def page_no_def nat_add_distrib nat_mult_distrib)
  then show "alloc (memory s) a = Inr (pte_alloc e)" "valid (memory s) a = Inr (pte_valid e)"
    "protection (memory s) a = Inr (pte_prot e)" "frame (memory s) a = Inr (pte_frame e)"
    using b by (auto simp: field_defs get_field_Inr_iff aget_Inr_iff in_bounds_def e ent_def decode_def)
  show "aget (page_table_start s) pid = Inr t" "t \<noteq> NOTALLOC" "bring_table pid s = Inr s"
    using t b by (simp_all add: NOTALLOC_def bring_table_def)
qed

lemma loadInst_hit:
  assumes M: "maps_to s pid va t e" and e: "pte_alloc e = 1" "pte_valid e = 1"
  shows "loadInst pid va s = Inr (emit (LoadedValue (uint (memory s ! nat (va mod 16 + pte_frame e * 16))) va
    (va mod 16 + pte_frame e * 16)) s)"
proof -
  have f: "0 \<le> pte_frame e" "pte_frame e \<le> 3" and m: "length (memory s) = 64"
    using M pte_ranges(4,5) by (auto simp: maps_to_def vm_shape_def)
  have "aget (memory s) (va mod 16 + pte_frame e * 16) = Inr (memory s ! nat (va mod 16 + pte_frame e * 16))"
    using f m by (simp add: aget_def in_bounds_def)
  then show ?thesis
    using maps_to_entry [OF M] e by (simp add: loadInst_def bring_page_def Let_def)
qed

text \<open>C38: for every process, when its page table and the page are in memory and the page is
  writable, a store changes exactly one byte of memory, the one at the page's frame and the
  address's offset, and a load from the same address right after it returns the value modulo 256;
  the page must not share its frame with the page table.\<close>

theorem store_then_load:
  assumes M: "maps_to s pid va t e" and e: "pte_alloc e = 1" "pte_valid e = 1" "pte_prot e = 1" "pte_frame e \<noteq> t"
  defines "pa \<equiv> va mod 16 + pte_frame e * 16"
  shows "\<exists>s'. storeInst pid va v s = Inr s' \<and> memory s' = (memory s)[nat pa := word_of_int v] \<and>
    loadInst pid va s' = Inr (emit (LoadedValue (v mod 256) va pa) s')"
proof -
  have f: "0 \<le> pte_frame e" "pte_frame e \<le> 3" and m: "length (memory s) = 64" and b: "0 \<le> va" "va < 64" "0 \<le> t" "t \<le> 3"
    using M pte_ranges(4,5) by (auto simp: maps_to_def vm_shape_def)
  have o: "0 \<le> va mod 16" "va mod 16 < 16" by simp_all
  have pa: "0 \<le> pa" "pa < 64" using f o unfolding pa_def by linarith+
  let ?m = "(memory s)[nat pa := word_of_int v]"
  let ?s = "(emit (StoredValue v va pa) s)\<lparr>memory := ?m\<rparr>"
  have "aset (memory s) pa (word_of_int v) = Inr ?m" using pa m by (simp add: aset_def in_bounds_def)
  then have st: "storeInst pid va v s = Inr ?s"
    using maps_to_entry [OF M] e by (simp add: storeInst_def bring_page_def Let_def pa_def)
  have far: "nat pa < 16 * nat t \<or> 16 * nat t + 16 \<le> nat pa"
    using e(4) f o b(3) unfolding pa_def by linarith
  have "ent (drop (16 * nat t) ?m) (page_no va) = ent (drop (16 * nat t) (memory s)) (page_no va)"
    using far page_no_bound(1) [OF b(1,2)] by (auto simp: ent_def drop_update_swap)
  then have M': "maps_to ?s pid va t e" using M by (auto simp: maps_to_def vm_shape_def)
  have "loadInst pid va ?s = Inr (emit (LoadedValue (v mod 256) va pa) ?s)"
    using loadInst_hit [OF M' e(1,2)] pa m by (simp add: pa_def [symmetric] uint_word_of_int)
  with st show ?thesis by (intro exI [of _ ?s]) simp
qed

definition hit_example :: vm where
  "hit_example = swap_example\<lparr>memory := (memory swap_example)[0 := 15]\<rparr>"

lemma hit_example_maps:
  "maps_to hit_example 0 7 0 \<lparr>pte_alloc = 1, pte_valid = 1, pte_prot = 1, pte_frame = 1, pte_slot = 0\<rparr>"
  by code_simp

theorem store_then_load_witness:
  "\<exists>s'. storeInst 0 7 513 hit_example = Inr s' \<and> memory s' = (memory hit_example)[23 := 513] \<and>
    loadInst 0 7 s' = Inr (emit (LoadedValue 1 7 23) s')"
  using store_then_load [OF hit_example_maps, of 513] by simp

text \<open>A store that may not happen changes nothing but the output: without a page table, with no
  page at the address, or on a read-only page the answer is the error line and the memory, the swap
  space, the tables and the victim pointer are as before.\<close>

theorem store_refused:
  "(aget (page_table_start s) pid = Inr NOTALLOC \<longrightarrow> storeInst pid va v s = Inr (emit NotAllocatedYet s)) \<and>
   (maps_to s pid va t e \<and> pte_alloc e = 0 \<longrightarrow> storeInst pid va v s = Inr (emit NotAllocatedYet s)) \<and>
   (maps_to s pid va t e \<and> pte_alloc e = 1 \<and> pte_prot e = 0 \<longrightarrow> storeInst pid va v s = Inr (emit ReadOnly s))"
  using maps_to_entry [of s pid va t e] by (auto simp: storeInst_def Let_def)

theorem store_refused_witness:
  "storeInst 1 7 513 hit_example = Inr (emit NotAllocatedYet hit_example) \<and>
   storeInst 0 17 513 hit_example = Inr (emit ReadOnly hit_example)"
proof -
  have "aget (page_table_start hit_example) 1 = Inr NOTALLOC" by code_simp
  moreover have "maps_to hit_example 0 17 0 \<lparr>pte_alloc = 1, pte_valid = 1, pte_prot = 0, pte_frame = 2, pte_slot = 0\<rparr>"
    by code_simp
  ultimately show ?thesis using store_refused [of hit_example 1] store_refused [of hit_example 0 17 513 0] by fastforce
qed

section \<open>The parser\<close>

text \<open>C39: a line made of a process number, an instruction's name, an address and a value, joined by
  commas, is parsed back into exactly these four, for all numbers that fit an \<open>int\<close>, and marked valid.\<close>

theorem preProcess_roundtrip:
  assumes "int pid \<le> INT_MAX" "int va \<le> INT_MAX" "int v \<le> INT_MAX"
  shows "preProcess (command_line pid (instr, va, v)) =
    \<lparr>ui_valid = 1, ui_pid = Some (int pid), ui_instruction = Some instr,
     ui_virtual_address = Some (int va), ui_value = Some (int v)\<rparr>"
  by (rule preProcess_line [OF assms])

theorem preProcess_roundtrip_witness:
  "preProcess (command_line 2 (store, 19, 117)) =
    \<lparr>ui_valid = 1, ui_pid = Some 2, ui_instruction = Some store, ui_virtual_address = Some 19, ui_value = Some 117\<rparr>"
  using preProcess_roundtrip [of 2 19 117 store] by (simp add: INT_MAX_def)

section \<open>Runs that go wrong\<close>


text \<open>A line that does not parse is reported as invalid and executed all the same: \<^verbatim>\<open>process\<close> is
  called with fields that were never set (line 455).\<close>

theorem invalid_line_still_processed:
  assumes "length (tokens CHR '','' w) < 4" "length w < 100"
  shows "main (w # ws) = Inl Indeterminate"
proof -
  have "preProcess w = unparsed"
    using assms(1) by (auto simp: preProcess_def split: list.splits)
  then show ?thesis using assms(2) by (simp add: main_def main_step_def call_process_def unparsed_def)
qed

theorem invalid_line_still_processed_witness: "main [''0,map,3''] = Inl Indeterminate"
proof -
  have "length (tokens CHR '','' ''0,map,3'') < 4" by code_simp
  then show ?thesis using invalid_line_still_processed [of "''0,map,3''" "[]"] by simp
qed

end
