(* ===== verification/Lines.thy ===== *)
theory Lines
  imports Prelude
begin

text \<open>
  The lines of waiting threads that the two synchronisation programs keep as linked lists
  (src/project-3): an interface for lines that keep their members apart, and its extension to
  lines ordered by a key. The intersection implements the second, the costume shop the first.
\<close>

text \<open>Adding and removing change just the one member.\<close>

locale member_line =
  fixes add del :: "'c \<Rightarrow> 'c list \<Rightarrow> 'c list"
  assumes add_set: "set (add c l) = insert c (set l)"
    and add_distinct: "distinct l \<Longrightarrow> c \<notin> set l \<Longrightarrow> distinct (add c l)"
    and del_set: "distinct l \<Longrightarrow> set (del c l) = set l - {c}"
    and del_distinct: "distinct l \<Longrightarrow> distinct (del c l)"
begin

lemma add_not_Nil: "add c l \<noteq> []"
  using add_set [of c l] by auto

lemma add_del_member: "distinct l \<Longrightarrow> c \<notin> set l \<Longrightarrow> set (del c (add c l)) = set l"
  by (simp add: del_set add_distinct add_set)

lemma members_bounded:
  "distinct l \<Longrightarrow> set l \<subseteq> A \<Longrightarrow> c \<in> A \<Longrightarrow> set (add c l) \<subseteq> A" "distinct l \<Longrightarrow> set l \<subseteq> A \<Longrightarrow> set (del c l) \<subseteq> A"
  by (auto simp: add_set del_set)

end

text \<open>
  What \<^verbatim>\<open>move\<close> relies on in addition: the line is ordered by the key, and adding a member in the middle leaves
  the front where it was.
\<close>

locale waiting_line = member_line add del
  for add del :: "'c \<Rightarrow> 'c list \<Rightarrow> 'c list" +
  fixes key :: "'c \<Rightarrow> 'k :: linorder"
  assumes add_sorted: "sorted (map key l) \<Longrightarrow> sorted (map key (add c l))"
    and add_front: "hd (add c l) = c \<or> l \<noteq> [] \<and> hd (add c l) = hd l"
    and del_sorted: "sorted (map key l) \<Longrightarrow> sorted (map key (del c l))"
begin

definition line :: "'c list \<Rightarrow> bool" where
  "line l \<longleftrightarrow> distinct l \<and> sorted (map key l)"

lemma line_Nil: "line []"
  by (simp add: line_def)

lemma line_add: "line l \<Longrightarrow> c \<notin> set l \<Longrightarrow> line (add c l)"
  by (simp add: line_def add_distinct add_sorted)

lemma line_del: "line l \<Longrightarrow> line (del c l)"
  by (simp add: line_def del_distinct del_sorted)

lemma front_least: "line l \<Longrightarrow> x \<in> set l \<Longrightarrow> key (hd l) \<le> key x"
  by (cases l) (auto simp: line_def)

lemma del_members: "line l \<Longrightarrow> set (del c l) = set l - {c}"
  by (simp add: line_def del_set)

end

section \<open>Searching a line\<close>

text \<open>The member after \<open>x\<close>: the \<^verbatim>\<open>next\<close> field of its node, \<open>None\<close> at the end or when \<open>x\<close> is in no line.\<close>

fun next_in_line :: "'c \<Rightarrow> 'c list \<Rightarrow> 'c option" where
  "next_in_line x [] = None"
| "next_in_line x [y] = None"
| "next_in_line x (y # z # r) = (if y = x then Some z else next_in_line x (z # r))"

lemma next_in_line_member: "next_in_line x l = Some y \<Longrightarrow> x \<in> set l \<and> y \<in> set l"
  by (induction x l rule: next_in_line.induct) (auto split: if_splits)

text \<open>The loop that looks for a successor node equal to \<open>c\<close> and unlinks it.\<close>

fun unlink_next :: "'c \<Rightarrow> 'c list \<Rightarrow> int \<times> 'c list" where
  "unlink_next c [] = (0, [])"
| "unlink_next c [x] = (0, [x])"
| "unlink_next c (x # y # r) = (if y = c then (1, x # r) else (case unlink_next c (y # r) of (k, l) \<Rightarrow> (k, x # l)))"

lemma unlink_next_remove1: "l \<noteq> [] \<Longrightarrow> hd l \<noteq> c \<Longrightarrow> unlink_next c l = (if c \<in> set l then 1 else 0, remove1 c l)"
  by (induction c l rule: unlink_next.induct) auto

end
