(* ===== verification/Intersection.thy ===== *)
theory Intersection
  imports Lines
begin

text \<open>
  The four-way intersection (src/project-3/problem2/main.c): twenty car threads, four quadrants, a
  line of waiting cars per quadrant ordered by spawn time, at most three cars on the road, and one
  semaphore around \<^verbatim>\<open>move\<close>.

  A car is the structure its thread allocates once; the number of the thread is the pointer. The linked
  lists of \<^verbatim>\<open>struct intents\<close> are lists of such pointers (\<^verbatim>\<open>malloc\<close> does not fail). \<^verbatim>\<open>move\<close> is the whole
  critical section. The threads interleave in the relation \<open>step\<close>: acquiring the semaphore, the
  critical section with the release, the end of the sleep, and the spawning of a new car with the time
  and the random numbers the system delivers.
\<close>

section \<open>Cars and lines\<close>

type_synonym ull = "64 word"

record car =
  spawn_time :: ull
  tid :: int
  spawn_location :: int
  moves_left :: int
  cur_location :: int

fun contains_car :: "nat \<Rightarrow> nat list \<Rightarrow> int" where
  "contains_car c [] = 0"
| "contains_car c (x # xs) = (if x = c then 1 else contains_car c xs)"

text \<open>The \<^verbatim>\<open>while\<close> loop of \<^verbatim>\<open>add_car\<close>, with the cursor on the first element, and the insertion after it.\<close>

fun insert_after :: "car list \<Rightarrow> nat \<Rightarrow> nat list \<Rightarrow> nat list" where
  "insert_after cs c [] = [c]"
| "insert_after cs c [x] = [x, c]"
| "insert_after cs c (x # y # r) =
     (if spawn_time (cs ! y) < spawn_time (cs ! c) then x # insert_after cs c (y # r) else x # c # y # r)"

definition add_car :: "car list \<Rightarrow> nat \<Rightarrow> nat list \<Rightarrow> nat list" where
  "add_car cs c l =
     (case l of
        [] \<Rightarrow> [c]
      | x # r \<Rightarrow> if spawn_time (cs ! x) > spawn_time (cs ! c) then c # l else insert_after cs c l)"

definition remove_car :: "nat \<Rightarrow> nat list \<Rightarrow> int \<times> nat list" where
  "remove_car c l =
     (case l of
        [] \<Rightarrow> (0, [])
      | x # r \<Rightarrow> if x = c then (1, r) else unlink_next c l)"

section \<open>The lines as ordered lines\<close>

lemma contains_car_iff: "contains_car c l = (if c \<in> set l then 1 else 0)"
  by (induction l) auto

lemma insert_after_set [simp]: "set (insert_after cs c l) = insert c (set l)"
  by (induction cs c l rule: insert_after.induct) auto

lemma insert_after_distinct: "distinct l \<Longrightarrow> c \<notin> set l \<Longrightarrow> distinct (insert_after cs c l)"
  by (induction cs c l rule: insert_after.induct) auto

lemma insert_after_hd: "l \<noteq> [] \<Longrightarrow> hd (insert_after cs c l) = hd l"
  by (cases "(cs, c, l)" rule: insert_after.cases) auto

lemma insert_after_sorted:
  "sorted (map (\<lambda>x. spawn_time (cs ! x)) l) \<Longrightarrow> l \<noteq> [] \<Longrightarrow> spawn_time (cs ! hd l) \<le> spawn_time (cs ! c) \<Longrightarrow>
   sorted (map (\<lambda>x. spawn_time (cs ! x)) (insert_after cs c l))"
proof (induction cs c l rule: insert_after.induct)
  case (3 cs c x y r)
  show ?case
  proof (cases "spawn_time (cs ! y) < spawn_time (cs ! c)")
    case True
    then have "sorted (map (\<lambda>x. spawn_time (cs ! x)) (insert_after cs c (y # r)))" using 3 by auto
    then show ?thesis using True 3 by auto
  next
    case False
    then show ?thesis using 3 by auto
  qed
qed auto

lemma add_car_sorted:
  "sorted (map (\<lambda>x. spawn_time (cs ! x)) l) \<Longrightarrow> sorted (map (\<lambda>x. spawn_time (cs ! x)) (add_car cs c l))"
  using insert_after_sorted [of cs l c] by (cases l) (auto simp: add_car_def)

lemma remove_car_remove1: "remove_car c l = (if c \<in> set l then 1 else 0, remove1 c l)"
  using unlink_next_remove1 [of l c] by (cases l) (auto simp: remove_car_def)

interpretation car_line: waiting_line "add_car cs" "\<lambda>c l. snd (remove_car c l)" "\<lambda>x. spawn_time (cs ! x)" for cs
proof unfold_locales
  fix c :: nat and l
  show "set (add_car cs c l) = insert c (set l)" by (cases l) (auto simp: add_car_def)
  show "distinct l \<Longrightarrow> c \<notin> set l \<Longrightarrow> distinct (add_car cs c l)"
    using insert_after_distinct by (cases l) (auto simp: add_car_def)
  show "hd (add_car cs c l) = c \<or> l \<noteq> [] \<and> hd (add_car cs c l) = hd l"
    using insert_after_hd [of l cs c] by (cases l) (auto simp: add_car_def)
  show "sorted (map (\<lambda>x. spawn_time (cs ! x)) l) \<Longrightarrow> sorted (map (\<lambda>x. spawn_time (cs ! x)) (snd (remove_car c l)))"
    by (simp add: remove_car_remove1 sorted_map_remove1)
qed (auto simp: remove_car_remove1 add_car_sorted)

section \<open>State and moves\<close>

datatype event =
    MovedFromLane int int
  | BlockedInLane int int
  | FirstInLine int
  | QuadEmpty bool
  | ThreeCars
  | Leaving int int
  | MovedOn int int int
  | BlockedInQuad int int int
  | Spawned int int int

record crossing =
  quads :: "int list"
  driving_permits :: int
  quad_intents :: "nat list list"
  cars :: "car list"
  events :: "event list"

definition say :: "event \<Rightarrow> crossing \<Rightarrow> crossing" where
  "say e s = s\<lparr>events := events s @ [e]\<rparr>"

definition set_quad :: "int \<Rightarrow> int \<Rightarrow> crossing \<Rightarrow> crossing cres" where
  "set_quad q v s = cbind (aset (quads s) q v) (\<lambda>qs. Inr (s\<lparr>quads := qs\<rparr>))"

definition update_car :: "nat \<Rightarrow> (car \<Rightarrow> car) \<Rightarrow> crossing \<Rightarrow> crossing" where
  "update_car c f s = s\<lparr>cars := (cars s)[c := f (cars s ! c)]\<rparr>"

text \<open>\<^verbatim>\<open>if(!contains_car(car, quad_intents[q])) add_car(car, q);\<close> and \<^verbatim>\<open>remove_car(car, q);\<close>\<close>

definition join_line :: "nat \<Rightarrow> int \<Rightarrow> crossing \<Rightarrow> crossing cres" where
  "join_line c q s =
     cbind (aget (quad_intents s) q) (\<lambda>l.
     if contains_car c l = 0
     then cbind (aset (quad_intents s) q (add_car (cars s) c l)) (\<lambda>qi. Inr (s\<lparr>quad_intents := qi\<rparr>))
     else Inr s)"

definition leave_line :: "nat \<Rightarrow> int \<Rightarrow> crossing \<Rightarrow> crossing cres" where
  "leave_line c q s =
     cbind (aget (quad_intents s) q) (\<lambda>l.
     cbind (aset (quad_intents s) q (snd (remove_car c l))) (\<lambda>qi. Inr (s\<lparr>quad_intents := qi\<rparr>)))"

text \<open>\<^verbatim>\<open>quad_intents[q]->car->tid\<close>\<close>

definition first_tid :: "int \<Rightarrow> crossing \<Rightarrow> int cres" where
  "first_tid q s =
     cbind (aget (quad_intents s) q) (\<lambda>l. case l of [] \<Rightarrow> Inl NullPointer | x # _ \<Rightarrow> Inr (tid (cars s ! x)))"

text \<open>The car is in its lane (lines 101-125).\<close>

definition enter_road :: "nat \<Rightarrow> int \<Rightarrow> crossing \<Rightarrow> (int \<times> crossing) cres" where
  "enter_road c loc s =
     cbind (leave_line c (loc - 1) (say (MovedFromLane (tid (cars s ! c)) loc) s)) (\<lambda>s1.
     (let s2 = update_car c (\<lambda>x. x\<lparr>cur_location := loc\<rparr>) (s1\<lparr>driving_permits := driving_permits s1 - 1\<rparr>) in
     cbind (set_quad (loc - 1) 0 s2) (\<lambda>s3. Inr (1, s3))))"

definition stay_in_lane :: "nat \<Rightarrow> int \<Rightarrow> crossing \<Rightarrow> (int \<times> crossing) cres" where
  "stay_in_lane c loc s =
     (let s1 = say (BlockedInLane (tid (cars s ! c)) loc) s in
      if driving_permits s \<noteq> 0 then
        cbind (first_tid (loc - 1) s1) (\<lambda>t.
        cbind (aget (quads s1) (loc - 1)) (\<lambda>q.
        Inr (0, say (QuadEmpty (q \<noteq> 0)) (say (FirstInLine t) s1))))
      else Inr (0, say ThreeCars s1))"

definition move_from_lane :: "nat \<Rightarrow> crossing \<Rightarrow> (int \<times> crossing) cres" where
  "move_from_lane c s =
     (let loc = spawn_location (cars s ! c) in
      cbind (join_line c (loc - 1) s) (\<lambda>s1.
      cbind (aget (quads s1) (loc - 1)) (\<lambda>q.
      if q = 1 \<and> driving_permits s1 \<noteq> 0 then
        cbind (first_tid (loc - 1) s1) (\<lambda>t.
        if t = tid (cars s1 ! c) then enter_road c loc s1 else stay_in_lane c loc s1)
      else stay_in_lane c loc s1)))"

text \<open>The car leaves the intersection (lines 126-134).\<close>

definition leave_road :: "nat \<Rightarrow> crossing \<Rightarrow> (int \<times> crossing) cres" where
  "leave_road c s =
     (let x = cars s ! c;
          s1 = say (Leaving (tid x) (cur_location x)) s;
          s2 = s1\<lparr>driving_permits := driving_permits s1 + 1\<rparr> in
      cbind (set_quad (cur_location x - 1) 1 s2) (\<lambda>s3.
      Inr (1, update_car c (\<lambda>x. x\<lparr>cur_location := 0, moves_left := moves_left x - 1\<rparr>) s3)))"

text \<open>The car goes on to the next quadrant (lines 136-154).\<close>

definition enter_next :: "nat \<Rightarrow> crossing \<Rightarrow> (int \<times> crossing) cres" where
  "enter_next c s =
     (let cur = cur_location (cars s ! c); nxt = cur mod 4 in
      cbind (leave_line c nxt (say (MovedOn (tid (cars s ! c)) cur (nxt + 1)) s)) (\<lambda>s1.
      cbind (set_quad (cur - 1) 1 s1) (\<lambda>s2.
      cbind (set_quad nxt 0 (update_car c (\<lambda>x. x\<lparr>cur_location := nxt + 1\<rparr>) s2)) (\<lambda>s3.
      Inr (1, update_car c (\<lambda>x. x\<lparr>moves_left := moves_left x - 1\<rparr>) s3)))))"

definition stay_in_quad :: "nat \<Rightarrow> crossing \<Rightarrow> (int \<times> crossing) cres" where
  "stay_in_quad c s =
     (let cur = cur_location (cars s ! c); nxt = cur mod 4;
          s1 = say (BlockedInQuad (tid (cars s ! c)) cur (nxt + 1)) s in
      cbind (first_tid nxt s1) (\<lambda>t.
      cbind (aget (quads s1) nxt) (\<lambda>q.
      Inr (0, say (QuadEmpty (q \<noteq> 0)) (say (FirstInLine t) s1)))))"

definition move_on :: "nat \<Rightarrow> crossing \<Rightarrow> (int \<times> crossing) cres" where
  "move_on c s =
     (let nxt = cur_location (cars s ! c) mod 4 in
      cbind (join_line c nxt s) (\<lambda>s1.
      cbind (aget (quads s1) nxt) (\<lambda>q.
      if q = 1 then
        cbind (first_tid nxt s1) (\<lambda>t.
        if t = tid (cars s1 ! c) \<or> driving_permits s1 = 0 then enter_next c s1 else stay_in_quad c s1)
      else stay_in_quad c s1)))"

definition move :: "nat \<Rightarrow> crossing \<Rightarrow> (int \<times> crossing) cres" where
  "move c s =
     (if cur_location (cars s ! c) = 0 then move_from_lane c s
      else if moves_left (cars s ! c) = 1 then leave_road c s
      else move_on c s)"

section \<open>Threads\<close>

definition getCurJSEpoch :: "ull \<Rightarrow> ull \<Rightarrow> ull" where
  "getCurJSEpoch tv_sec tv_usec = tv_sec * 1000 + tv_usec div 1000"

text \<open>\<open>r\<close> is what \<^verbatim>\<open>lrand48\<close> returns, a number from 0 to \<open>2\<^sup>3\<^sup>1 - 1\<close>.\<close>

definition generateRandomInt :: "int \<Rightarrow> int \<Rightarrow> int \<Rightarrow> int" where
  "generateRandomInt r min_v max_v = r mod (max_v - min_v + 1) + min_v"

definition generateSpawnPoint :: "int \<Rightarrow> int" where
  "generateSpawnPoint r = generateRandomInt r 1 4"

definition spawn :: "nat \<Rightarrow> ull \<Rightarrow> int \<Rightarrow> int \<Rightarrow> crossing \<Rightarrow> crossing" where
  "spawn c now r1 r2 s =
     (let s1 = update_car c (\<lambda>x. x\<lparr>spawn_time := now, cur_location := 0,
                 spawn_location := generateSpawnPoint r1, moves_left := generateRandomInt r2 1 3\<rparr>) s
      in say (Spawned (tid (cars s ! c)) (generateSpawnPoint r1) (generateRandomInt r2 1 3)) s1)"

text \<open>Where a thread is: about to spawn, waiting for the semaphore, in \<^verbatim>\<open>move\<close>, or asleep after it.\<close>

datatype pc = AtSpawn | AtWait | InMove | Asleep

record world =
  road :: crossing
  sem :: int
  pcs :: "pc list"

inductive step :: "world \<Rightarrow> world \<Rightarrow> bool" where
  Spawn: "c < length (pcs w) \<Longrightarrow> pcs w ! c = AtSpawn \<Longrightarrow>
    step w (w\<lparr>road := spawn c (getCurJSEpoch sec usec) r1 r2 (road w), pcs := (pcs w)[c := AtWait]\<rparr>)"
| Acquire: "c < length (pcs w) \<Longrightarrow> pcs w ! c = AtWait \<Longrightarrow> sem w > 0 \<Longrightarrow>
    step w (w\<lparr>sem := sem w - 1, pcs := (pcs w)[c := InMove]\<rparr>)"
| Move: "c < length (pcs w) \<Longrightarrow> pcs w ! c = InMove \<Longrightarrow> move c (road w) = Inr (r, s') \<Longrightarrow>
    step w (w\<lparr>road := s', sem := sem w + 1, pcs := (pcs w)[c := Asleep]\<rparr>)"
| Wake: "c < length (pcs w) \<Longrightarrow> pcs w ! c = Asleep \<Longrightarrow>
    step w (w\<lparr>pcs := (pcs w)[c := (if moves_left (cars (road w) ! c) > 0 then AtWait else AtSpawn)]\<rparr>)"

definition num_threads :: nat where "num_threads = 20"

text \<open>\<^verbatim>\<open>main\<close> after its loops: one thread per car, whose structure holds nothing but its thread id yet.\<close>

definition start :: "car list \<Rightarrow> world" where
  "start cs = \<lparr>road = \<lparr>quads = replicate 4 1, driving_permits = 3, quad_intents = replicate 4 [], cars = cs, events = []\<rparr>,
     sem = 1, pcs = replicate (length cs) AtSpawn\<rparr>"

inductive reachable :: "world \<Rightarrow> bool" where
  Start: "length cs = num_threads \<Longrightarrow> distinct (map tid cs) \<Longrightarrow> reachable (start cs)"
| Step: "reachable w \<Longrightarrow> step w w' \<Longrightarrow> reachable w'"

section \<open>Invariant\<close>

text \<open>
  \<open>A\<close> is the set of the threads that have spawned a car and not yet finished it. \<open>on_road\<close> are those in a
  quadrant; \<open>wants\<close> says which line a car stands in.
\<close>

definition car_ok :: "car \<Rightarrow> bool" where
  "car_ok x \<longleftrightarrow> 1 \<le> spawn_location x \<and> spawn_location x \<le> 4 \<and> 0 \<le> cur_location x \<and> cur_location x \<le> 4 \<and>
     0 \<le> moves_left x \<and> moves_left x \<le> 3 \<and> (cur_location x \<noteq> 0 \<longrightarrow> 1 \<le> moves_left x)"

definition wants :: "car \<Rightarrow> nat \<Rightarrow> bool" where
  "wants x q \<longleftrightarrow>
     (if cur_location x = 0 then 1 \<le> moves_left x \<and> spawn_location x = int q + 1
      else 2 \<le> moves_left x \<and> cur_location x mod 4 = int q)"

definition on_road :: "nat set \<Rightarrow> car list \<Rightarrow> nat set" where
  "on_road A cs = {c \<in> A. cur_location (cs ! c) \<noteq> 0}"

definition occupied :: "nat set \<Rightarrow> car list \<Rightarrow> nat \<Rightarrow> bool" where
  "occupied A cs q \<longleftrightarrow> (\<exists>c \<in> A. cur_location (cs ! c) = int q + 1)"

definition cars_inv :: "nat set \<Rightarrow> car list \<Rightarrow> bool" where
  "cars_inv A cs \<longleftrightarrow> A \<subseteq> {..<length cs} \<and> distinct (map tid cs) \<and> (\<forall>c \<in> A. car_ok (cs ! c)) \<and>
     inj_on (\<lambda>c. cur_location (cs ! c)) (on_road A cs) \<and> card (on_road A cs) \<le> 3"

definition flags_inv :: "nat set \<Rightarrow> car list \<Rightarrow> int list \<Rightarrow> int \<Rightarrow> bool" where
  "flags_inv A cs qs permits \<longleftrightarrow> length qs = 4 \<and> (\<forall>q < 4. qs ! q = (if occupied A cs q then 0 else 1)) \<and>
     permits = 3 - int (card (on_road A cs))"

definition lines_inv :: "nat set \<Rightarrow> car list \<Rightarrow> nat list list \<Rightarrow> bool" where
  "lines_inv A cs qi \<longleftrightarrow> length qi = 4 \<and>
     (\<forall>q < 4. car_line.line cs (qi ! q) \<and> (\<forall>c \<in> set (qi ! q). c \<in> A \<and> wants (cs ! c) q))"

definition crossing_inv :: "nat set \<Rightarrow> crossing \<Rightarrow> bool" where
  "crossing_inv A s \<longleftrightarrow> cars_inv A (cars s) \<and> flags_inv A (cars s) (quads s) (driving_permits s) \<and>
     lines_inv A (cars s) (quad_intents s)"

lemma say_fields [simp]:
  "quads (say e s) = quads s" "driving_permits (say e s) = driving_permits s"
  "quad_intents (say e s) = quad_intents s" "cars (say e s) = cars s"
  by (simp_all add: say_def)

lemma crossing_inv_say [simp]: "crossing_inv A (say e s) = crossing_inv A s"
  by (simp add: crossing_inv_def)

section \<open>One car changes\<close>

lemma line_cong:
  "(\<And>d. d \<in> set l \<Longrightarrow> spawn_time (cs' ! d) = spawn_time (cs ! d)) \<Longrightarrow> car_line.line cs' l = car_line.line cs l"
  by (simp add: car_line.line_def cong: map_cong)

lemma wants_unique: "wants x q \<Longrightarrow> wants x q' \<Longrightarrow> q = q'"
  by (auto simp: wants_def split: if_splits)

lemma wants_bound: "car_ok x \<Longrightarrow> wants x q \<Longrightarrow> q < 4"
proof -
  assume "car_ok x" "wants x q"
  then have "int q < 4"
    by (cases "cur_location x = 0") (auto simp: wants_def car_ok_def, (metis pos_mod_bound zero_less_numeral)?)
  then show ?thesis by simp
qed

lemma on_road_update:
  "c \<in> A \<Longrightarrow> c < length cs \<Longrightarrow>
   on_road A (cs[c := x]) = (if cur_location x = 0 then on_road A cs - {c} else insert c (on_road A cs))"
  by (auto simp: on_road_def nth_list_update)

lemma occupied_update:
  "c \<in> A \<Longrightarrow> c < length cs \<Longrightarrow>
   occupied A (cs[c := x]) q \<longleftrightarrow> cur_location x = int q + 1 \<or> (\<exists>d \<in> A - {c}. cur_location (cs ! d) = int q + 1)"
  by (auto simp: occupied_def nth_list_update)

lemma occupied_split:
  "c \<in> A \<Longrightarrow> occupied A cs q \<longleftrightarrow> cur_location (cs ! c) = int q + 1 \<or> (\<exists>d \<in> A - {c}. cur_location (cs ! d) = int q + 1)"
  by (auto simp: occupied_def)

lemma finite_on_road: "cars_inv A cs \<Longrightarrow> finite (on_road A cs)"
  using finite_subset [of A "{..<length cs}"] by (auto simp: cars_inv_def on_road_def)

lemma cars_inv_update:
  assumes I: "cars_inv A cs" and c: "c \<in> A" and x: "tid x = tid (cs ! c)" "car_ok x"
    and apart: "\<And>d. d \<in> A \<Longrightarrow> d \<noteq> c \<Longrightarrow> cur_location x \<noteq> 0 \<Longrightarrow> cur_location (cs ! d) \<noteq> cur_location x"
    and room: "card (on_road A (cs[c := x])) \<le> 3"
  shows "cars_inv A (cs[c := x])"
proof -
  have len: "c < length cs" using I c by (auto simp: cars_inv_def)
  have "map tid (cs[c := x]) = map tid cs" using x(1) len by (metis list_update_id map_update nth_map)
  moreover have "inj_on (\<lambda>d. cur_location (cs[c := x] ! d)) (on_road A (cs[c := x]))"
  proof (rule inj_onI)
    fix d e
    assume "d \<in> on_road A (cs[c := x])" "e \<in> on_road A (cs[c := x])"
      and eq: "cur_location (cs[c := x] ! d) = cur_location (cs[c := x] ! e)"
    then have de: "d \<in> A" "e \<in> A" "cur_location (cs[c := x] ! d) \<noteq> 0" by (auto simp: on_road_def)
    have inj: "inj_on (\<lambda>d. cur_location (cs ! d)) (on_road A cs)" using I by (simp add: cars_inv_def)
    consider "d = c" | "e = c" "d \<noteq> c" | "d \<noteq> c" "e \<noteq> c" by blast
    then show "d = e"
    proof cases
      case 1
      with eq de len apart [of e] show ?thesis by (cases "e = c") auto
    next
      case 2
      with eq de len apart [of d] show ?thesis by auto
    next
      case 3
      with eq de have "d \<in> on_road A cs" "e \<in> on_road A cs" "cur_location (cs ! d) = cur_location (cs ! e)"
        by (auto simp: on_road_def)
      with inj show ?thesis by (auto dest: inj_onD)
    qed
  qed
  ultimately show ?thesis using I c len x room by (auto simp: cars_inv_def nth_list_update)
qed

text \<open>A line without the car does not see its fields.\<close>

definition in_no_line :: "nat \<Rightarrow> nat list list \<Rightarrow> bool" where
  "in_no_line c qi \<longleftrightarrow> (\<forall>q < 4. c \<notin> set (qi ! q))"

lemma lines_inv_update:
  "lines_inv A cs qi \<Longrightarrow> in_no_line c qi \<Longrightarrow> A - {c} \<subseteq> B \<Longrightarrow> lines_inv B (cs[c := x]) qi"
proof -
  assume L: "lines_inv A cs qi" and n: "in_no_line c qi" and AB: "A - {c} \<subseteq> B"
  have "car_line.line (cs[c := x]) (qi ! q) \<and> (\<forall>d \<in> set (qi ! q). d \<in> B \<and> wants (cs[c := x] ! d) q)" if q: "q < 4" for q
  proof -
    have c: "c \<notin> set (qi ! q)" using n q by (simp add: in_no_line_def)
    have "cs[c := x] ! d = cs ! d" if "d \<in> set (qi ! q)" for d using c that by (metis nth_list_update_neq)
    moreover from this have "car_line.line (cs[c := x]) (qi ! q) = car_line.line cs (qi ! q)" by (intro line_cong) simp
    ultimately show ?thesis using L q c AB unfolding lines_inv_def by auto
  qed
  then show ?thesis using L by (simp add: lines_inv_def)
qed

lemma lines_inv_remove:
  assumes L: "lines_inv A cs qi" and w: "wants (cs ! c) q" "q < 4"
  shows "lines_inv A cs (qi[q := snd (remove_car c (qi ! q))])" "in_no_line c (qi[q := snd (remove_car c (qi ! q))])"
proof -
  have ln: "car_line.line cs (qi ! q)" and len: "length qi = 4" using L w(2) by (auto simp: lines_inv_def)
  note D = car_line.line_del [OF ln, of c] car_line.del_members [OF ln, of c]
  show "lines_inv A cs (qi[q := snd (remove_car c (qi ! q))])"
    using L D w len by (auto simp: lines_inv_def nth_list_update)
  have "c \<notin> set (qi ! p)" if "p < 4" "p \<noteq> q" for p
    using L that w wants_unique unfolding lines_inv_def by blast
  then show "in_no_line c (qi[q := snd (remove_car c (qi ! q))])"
    using D(2) len w(2) by (auto simp: in_no_line_def nth_list_update)
qed

lemma lines_inv_add:
  assumes L: "lines_inv A cs qi" and c: "c \<in> A" "wants (cs ! c) q" "q < 4" "c \<notin> set (qi ! q)"
  shows "lines_inv A cs (qi[q := add_car cs c (qi ! q)])"
proof -
  have ln: "car_line.line cs (qi ! q)" and len: "length qi = 4" using L c by (auto simp: lines_inv_def)
  then show ?thesis
    using L c car_line.line_add [OF ln c(4)] by (auto simp: lines_inv_def nth_list_update car_line.add_set)
qed

lemma first_tid_line:
  "length (quad_intents s) = 4 \<Longrightarrow> q < 4 \<Longrightarrow> quad_intents s ! q \<noteq> [] \<Longrightarrow>
   first_tid (int q) s = Inr (tid (cars s ! hd (quad_intents s ! q)))"
  by (cases "quad_intents s ! q") (auto simp: first_tid_def aget_def in_bounds_def)

lemma tid_eq_iff: "cars_inv A cs \<Longrightarrow> c \<in> A \<Longrightarrow> d \<in> A \<Longrightarrow> tid (cs ! d) = tid (cs ! c) \<longleftrightarrow> d = c"
  by (auto simp: cars_inv_def distinct_conv_nth subset_iff)

lemma crossing_inv_parts:
  assumes "crossing_inv A s"
  shows "cars_inv A (cars s)" "flags_inv A (cars s) (quads s) (driving_permits s)" "lines_inv A (cars s) (quad_intents s)"
    "length (quads s) = 4" "length (quad_intents s) = 4"
  using assms by (auto simp: crossing_inv_def flags_inv_def lines_inv_def)

lemma quad_flag: "crossing_inv A s \<Longrightarrow> q < 4 \<Longrightarrow> aget (quads s) (int q) = Inr (if occupied A (cars s) q then 0 else 1)"
  using crossing_inv_parts(2,4) by (auto simp: flags_inv_def aget_def in_bounds_def)

section \<open>Every move keeps the invariant\<close>

text \<open>The state after a car entered quadrant \<open>q\<close> from its lane.\<close>

definition entered :: "nat \<Rightarrow> nat \<Rightarrow> crossing \<Rightarrow> crossing" where
  "entered c q s = (say (MovedFromLane (tid (cars s ! c)) (int q + 1)) s)
     \<lparr>quad_intents := (quad_intents s)[q := snd (remove_car c (quad_intents s ! q))],
      driving_permits := driving_permits s - 1,
      cars := (cars s)[c := (cars s ! c)\<lparr>cur_location := int q + 1\<rparr>],
      quads := (quads s)[q := 0]\<rparr>"

lemma enter_road_eq:
  "length (quads s) = 4 \<Longrightarrow> length (quad_intents s) = 4 \<Longrightarrow> q < 4 \<Longrightarrow>
   enter_road c (int q + 1) s = Inr (1, entered c q s)"
  by (simp add: enter_road_def leave_line_def set_quad_def update_car_def entered_def aget_def aset_def in_bounds_def)

lemma entered_inv:
  assumes I: "crossing_inv A s" and c: "c \<in> A" and lane: "cur_location (cars s ! c) = 0" "wants (cars s ! c) q" "q < 4"
    and free: "\<not> occupied A (cars s) q" and permit: "driving_permits s \<noteq> 0"
  shows "crossing_inv A (entered c q s)"
proof -
  note P = crossing_inv_parts [OF I]
  let ?x = "(cars s ! c)\<lparr>cur_location := int q + 1\<rparr>"
  have len: "c < length (cars s)" using P(1) c by (auto simp: cars_inv_def)
  have ok: "car_ok (cars s ! c)" using P(1) c by (auto simp: cars_inv_def)
  have road: "on_road A ((cars s)[c := ?x]) = insert c (on_road A (cars s))" "c \<notin> on_road A (cars s)"
    using c len lane by (auto simp: on_road_update, auto simp: on_road_def)
  have card: "card (on_road A ((cars s)[c := ?x])) = Suc (card (on_road A (cars s)))"
    using road finite_on_road [OF P(1)] by simp
  have okx: "car_ok ?x" using ok lane by (auto simp: car_ok_def wants_def)
  have le: "Suc (card (on_road A (cars s))) \<le> 3" using P(1,2) permit by (auto simp: flags_inv_def cars_inv_def)
  have "cars_inv A ((cars s)[c := ?x])"
    by (rule cars_inv_update [OF P(1) c]) (use okx le card free in \<open>auto simp: occupied_def\<close>)
  moreover have "flags_inv A ((cars s)[c := ?x]) ((quads s)[q := 0]) (driving_permits s - 1)"
  proof -
    have "occupied A ((cars s)[c := ?x]) p \<longleftrightarrow> p = q \<or> occupied A (cars s) p" for p
      unfolding occupied_update [OF c len] occupied_split [OF c, of "cars s"] using lane by auto
    then show ?thesis using P(2) card lane(3) by (auto simp: flags_inv_def nth_list_update)
  qed
  moreover have "lines_inv A ((cars s)[c := ?x]) ((quad_intents s)[q := snd (remove_car c (quad_intents s ! q))])"
    using lines_inv_update [OF lines_inv_remove [OF P(3) lane(2,3)], of A] by blast
  ultimately show ?thesis by (simp add: crossing_inv_def entered_def)
qed

text \<open>The state after a car left the intersection from quadrant \<open>p\<close>.\<close>

definition left :: "nat \<Rightarrow> nat \<Rightarrow> crossing \<Rightarrow> crossing" where
  "left c p s = (say (Leaving (tid (cars s ! c)) (int p + 1)) s)
     \<lparr>driving_permits := driving_permits s + 1, quads := (quads s)[p := 1],
      cars := (cars s)[c := (cars s ! c)\<lparr>cur_location := 0, moves_left := moves_left (cars s ! c) - 1\<rparr>]\<rparr>"

lemma leave_road_eq:
  "length (quads s) = 4 \<Longrightarrow> p < 4 \<Longrightarrow> cur_location (cars s ! c) = int p + 1 \<Longrightarrow>
   leave_road c s = Inr (1, left c p s)"
  by (simp add: leave_road_def set_quad_def update_car_def left_def aset_def in_bounds_def Let_def)

lemma last_move_in_no_line:
  "lines_inv A cs qi \<Longrightarrow> cur_location (cs ! c) \<noteq> 0 \<Longrightarrow> moves_left (cs ! c) = 1 \<Longrightarrow> in_no_line c qi"
  unfolding lines_inv_def in_no_line_def by (fastforce simp: wants_def)

lemma left_inv:
  assumes I: "crossing_inv A s" and c: "c \<in> A" and p: "cur_location (cars s ! c) = int p + 1" "p < 4" "moves_left (cars s ! c) = 1"
  shows "crossing_inv A (left c p s)"
proof -
  note P = crossing_inv_parts [OF I]
  let ?x = "(cars s ! c)\<lparr>cur_location := 0, moves_left := moves_left (cars s ! c) - 1\<rparr>"
  have len: "c < length (cars s)" and ok: "car_ok (cars s ! c)" using P(1) c by (auto simp: cars_inv_def)
  have road: "on_road A ((cars s)[c := ?x]) = on_road A (cars s) - {c}" "c \<in> on_road A (cars s)"
    using c len p by (auto simp: on_road_update, auto simp: on_road_def)
  have card: "Suc (card (on_road A ((cars s)[c := ?x]))) = card (on_road A (cars s))"
    unfolding road(1) by (rule card_Suc_Diff1 [OF finite_on_road [OF P(1)] road(2)])
  have okx: "car_ok ?x" using ok p by (auto simp: car_ok_def)
  have apart: "cur_location (cars s ! d) \<noteq> int p + 1" if "d \<in> A" "d \<noteq> c" for d
    using P(1) that road(2) p(1) by (auto simp: cars_inv_def on_road_def inj_on_def)
  have "cars_inv A ((cars s)[c := ?x])"
    by (rule cars_inv_update [OF P(1) c]) (use okx card P(1) in \<open>auto simp: cars_inv_def\<close>)
  moreover have "flags_inv A ((cars s)[c := ?x]) ((quads s)[p := 1]) (driving_permits s + 1)"
  proof -
    have "occupied A ((cars s)[c := ?x]) r \<longleftrightarrow> r \<noteq> p \<and> occupied A (cars s) r" for r
      unfolding occupied_update [OF c len] occupied_split [OF c, of "cars s"] using p apart by auto
    then show ?thesis using P(2) card p(2) by (auto simp: flags_inv_def nth_list_update)
  qed
  moreover have "lines_inv A ((cars s)[c := ?x]) (quad_intents s)"
    using lines_inv_update [OF P(3) last_move_in_no_line [OF P(3)]] p by auto
  ultimately show ?thesis by (simp add: crossing_inv_def left_def)
qed

text \<open>The state after a car went on from quadrant \<open>p\<close> to quadrant \<open>q\<close>.\<close>

definition moved_on :: "nat \<Rightarrow> nat \<Rightarrow> nat \<Rightarrow> crossing \<Rightarrow> crossing" where
  "moved_on c p q s = (say (MovedOn (tid (cars s ! c)) (int p + 1) (int q + 1)) s)
     \<lparr>quad_intents := (quad_intents s)[q := snd (remove_car c (quad_intents s ! q))],
      quads := (quads s)[p := 1, q := 0],
      cars := (cars s)[c := (cars s ! c)\<lparr>cur_location := int q + 1, moves_left := moves_left (cars s ! c) - 1\<rparr>]\<rparr>"

lemma enter_next_eq:
  assumes "length (quads s) = 4" "length (quad_intents s) = 4" "p < 4" "q = Suc p mod 4" "c < length (cars s)"
    and "cur_location (cars s ! c) = int p + 1"
  shows "enter_next c s = Inr (1, moved_on c p q s)"
proof -
  have "(int p + 1) mod 4 = int q" using assms(4) by (simp add: zmod_int add.commute)
  moreover have "q < 4" using assms(4) by simp
  ultimately show ?thesis using assms
    by (simp add: enter_next_def leave_line_def set_quad_def update_car_def moved_on_def aget_def aset_def in_bounds_def Let_def)
qed

lemma moved_on_inv:
  assumes I: "crossing_inv A s" and c: "c \<in> A" and p: "cur_location (cars s ! c) = int p + 1" "p < 4" "p \<noteq> q"
    and q: "wants (cars s ! c) q" "q < 4" and free: "\<not> occupied A (cars s) q"
  shows "crossing_inv A (moved_on c p q s)"
proof -
  note P = crossing_inv_parts [OF I]
  let ?x = "(cars s ! c)\<lparr>cur_location := int q + 1, moves_left := moves_left (cars s ! c) - 1\<rparr>"
  have len: "c < length (cars s)" and ok: "car_ok (cars s ! c)" using P(1) c by (auto simp: cars_inv_def)
  have road: "on_road A ((cars s)[c := ?x]) = on_road A (cars s)" "c \<in> on_road A (cars s)"
    using c len p by (auto simp: on_road_update, auto simp: on_road_def)
  have okx: "car_ok ?x" using ok p q by (auto simp: car_ok_def wants_def)
  have apart: "cur_location (cars s ! d) \<noteq> int p + 1" if "d \<in> A" "d \<noteq> c" for d
    using P(1) that road(2) p(1) by (auto simp: cars_inv_def on_road_def inj_on_def)
  have "cars_inv A ((cars s)[c := ?x])"
    by (rule cars_inv_update [OF P(1) c]) (use okx road free P(1) in \<open>auto simp: occupied_def cars_inv_def\<close>)
  moreover have "flags_inv A ((cars s)[c := ?x]) ((quads s)[p := 1, q := 0]) (driving_permits s)"
  proof -
    have "occupied A ((cars s)[c := ?x]) r \<longleftrightarrow> r = q \<or> r \<noteq> p \<and> occupied A (cars s) r" for r
      unfolding occupied_update [OF c len] occupied_split [OF c, of "cars s"] using p apart by auto
    then show ?thesis using P(2) road p(2,3) q(2) by (auto simp: flags_inv_def nth_list_update)
  qed
  moreover have "lines_inv A ((cars s)[c := ?x]) ((quad_intents s)[q := snd (remove_car c (quad_intents s ! q))])"
    using lines_inv_update [OF lines_inv_remove [OF P(3) q], of A] by blast
  ultimately show ?thesis by (simp add: crossing_inv_def moved_on_def)
qed

text \<open>
  What a move does, on every path. A car in its lane enters quadrant \<open>q\<close> when the quadrant is free, a
  permit is left and the car is at the front of the line; a car in a quadrant leaves on its last move, and
  otherwise goes on when the next quadrant is free and it is at the front or no permit is left. In all
  other cases only the line and the output change.
\<close>

definition joined :: "nat \<Rightarrow> nat \<Rightarrow> crossing \<Rightarrow> crossing" where
  "joined c q s = (if c \<in> set (quad_intents s ! q) then s
     else s\<lparr>quad_intents := (quad_intents s)[q := add_car (cars s) c (quad_intents s ! q)]\<rparr>)"

definition front :: "nat \<Rightarrow> nat \<Rightarrow> crossing \<Rightarrow> bool" where
  "front c q s \<longleftrightarrow> hd (quad_intents (joined c q s) ! q) = c"

lemma joined_fields [simp]:
  "cars (joined c q s) = cars s" "quads (joined c q s) = quads s" "driving_permits (joined c q s) = driving_permits s"
  by (simp_all add: joined_def)

lemma joined_line:
  assumes I: "crossing_inv A s" and c: "c \<in> A" "wants (cars s ! c) q" "q < 4"
  shows "join_line c (int q) s = Inr (joined c q s)" "crossing_inv A (joined c q s)"
    "c \<in> set (quad_intents (joined c q s) ! q)"
    "\<not> front c q s \<Longrightarrow> quad_intents s ! q \<noteq> [] \<and> hd (quad_intents s ! q) \<noteq> c \<and>
      hd (quad_intents (joined c q s) ! q) = hd (quad_intents s ! q)"
proof -
  note P = crossing_inv_parts [OF I]
  have get: "aget (quad_intents s) (int q) = Inr (quad_intents s ! q)" using P(5) c by (simp add: aget_def in_bounds_def)
  then show "join_line c (int q) s = Inr (joined c q s)"
    using P(5) c by (simp add: join_line_def joined_def contains_car_iff aset_def in_bounds_def)
  show "crossing_inv A (joined c q s)"
    using I lines_inv_add [OF P(3) c] by (auto simp: crossing_inv_def joined_def)
  show "c \<in> set (quad_intents (joined c q s) ! q)"
    using P(5) c by (simp add: joined_def car_line.add_set)
  show "\<not> front c q s \<Longrightarrow> quad_intents s ! q \<noteq> [] \<and> hd (quad_intents s ! q) \<noteq> c \<and>
      hd (quad_intents (joined c q s) ! q) = hd (quad_intents s ! q)"
    using P(5) c car_line.add_front [of "cars s" c "quad_intents s ! q"] by (auto simp: front_def joined_def)
qed

lemma first_tid_joined:
  assumes I: "crossing_inv A s" and c: "c \<in> A" "wants (cars s ! c) q" "q < 4"
  obtains t where "first_tid (int q) (joined c q s) = Inr t" "t = tid (cars s ! c) \<longleftrightarrow> front c q s"
proof -
  note J = joined_line [OF I c] and P = crossing_inv_parts [OF I]
  let ?l = "quad_intents (joined c q s) ! q"
  have ne: "?l \<noteq> []" using J(3) by auto
  then have "hd ?l \<in> A" using crossing_inv_parts(3) [OF J(2)] c(3) unfolding lines_inv_def by auto
  moreover have "first_tid (int q) (joined c q s) = Inr (tid (cars s ! hd ?l))"
    using first_tid_line [OF crossing_inv_parts(5) [OF J(2)] c(3) ne] by simp
  ultimately show ?thesis using that tid_eq_iff [OF P(1) c(1)] by (simp add: front_def)
qed

lemma first_tid_events [simp]: "first_tid q (s\<lparr>events := es\<rparr>) = first_tid q s"
  by (simp add: first_tid_def cong: list.case_cong)

lemma move_lane:
  assumes I: "crossing_inv A s" and c: "c \<in> A" "cur_location (cars s ! c) = 0" "1 \<le> moves_left (cars s ! c)"
    and q: "spawn_location (cars s ! c) = int q + 1"
  shows "if \<not> occupied A (cars s) q \<and> driving_permits s \<noteq> 0 \<and> front c q s
    then move c s = Inr (1, entered c q (joined c q s))
    else \<exists>es. move c s = Inr (0, (joined c q s)\<lparr>events := es\<rparr>)"
proof -
  have w: "wants (cars s ! c) q" using c q by (simp add: wants_def)
  have q4: "q < 4" using crossing_inv_parts(1) [OF I] c(1) w wants_bound by (auto simp: cars_inv_def)
  note J = joined_line [OF I c(1) w q4]
  obtain t where t: "first_tid (int q) (joined c q s) = Inr t" "t = tid (cars s ! c) \<longleftrightarrow> front c q s"
    by (rule first_tid_joined [OF I c(1) w q4])
  have flag: "aget (quads s) (int q) = Inr (if occupied A (cars s) q then 0 else 1)" by (rule quad_flag [OF I q4])
  have stay: "\<exists>es. stay_in_lane c (int q + 1) (joined c q s) = Inr (0, (joined c q s)\<lparr>events := es\<rparr>)"
    using t(1) flag by (auto simp: stay_in_lane_def Let_def say_def)
  have mv: "move c s = (if \<not> occupied A (cars s) q \<and> driving_permits s \<noteq> 0 \<and> front c q s
      then enter_road c (int q + 1) (joined c q s) else stay_in_lane c (int q + 1) (joined c q s))"
    using c(2) q J(1) flag t by (simp add: move_def move_from_lane_def Let_def)
  show ?thesis
    unfolding mv using stay enter_road_eq [OF crossing_inv_parts(4,5) [OF J(2)] q4] by simp
qed

lemma move_quad:
  assumes I: "crossing_inv A s" and c: "c \<in> A" "cur_location (cars s ! c) = int p + 1" "moves_left (cars s ! c) \<noteq> 1"
    and q: "q = Suc p mod 4"
  shows "if \<not> occupied A (cars s) q \<and> (front c q s \<or> driving_permits s = 0)
    then move c s = Inr (1, moved_on c p q (joined c q s))
    else \<exists>es. move c s = Inr (0, (joined c q s)\<lparr>events := es\<rparr>)"
proof -
  have ok: "car_ok (cars s ! c)" and len: "c < length (cars s)"
    using crossing_inv_parts(1) [OF I] c(1) by (auto simp: cars_inv_def)
  then have p4: "p < 4" using c(2) by (simp add: car_ok_def)
  have nxt: "(int p + 1) mod 4 = int q" using q by (simp add: zmod_int add.commute)
  have w: "wants (cars s ! c) q" using c ok nxt by (auto simp: wants_def car_ok_def)
  have q4: "q < 4" using q by simp
  note J = joined_line [OF I c(1) w q4]
  obtain t where t: "first_tid (int q) (joined c q s) = Inr t" "t = tid (cars s ! c) \<longleftrightarrow> front c q s"
    by (rule first_tid_joined [OF I c(1) w q4])
  have flag: "aget (quads s) (int q) = Inr (if occupied A (cars s) q then 0 else 1)" by (rule quad_flag [OF I q4])
  have stay: "\<exists>es. stay_in_quad c (joined c q s) = Inr (0, (joined c q s)\<lparr>events := es\<rparr>)"
    using t(1) flag c(2) nxt by (auto simp: stay_in_quad_def Let_def say_def)
  have mv: "move c s = (if \<not> occupied A (cars s) q \<and> (front c q s \<or> driving_permits s = 0)
      then enter_next c (joined c q s) else stay_in_quad c (joined c q s))"
    using c(2,3) nxt J(1) flag t by (simp add: move_def move_on_def Let_def)
  show ?thesis
    unfolding mv using stay enter_next_eq [OF crossing_inv_parts(4,5) [OF J(2)] p4 q, of c] len c(2) by simp
qed

lemma move_last:
  assumes I: "crossing_inv A s" and c: "c \<in> A" "cur_location (cars s ! c) = int p + 1" "moves_left (cars s ! c) = 1"
  shows "move c s = Inr (1, left c p s)"
proof -
  have "p < 4" using crossing_inv_parts(1) [OF I] c by (auto simp: cars_inv_def car_ok_def)
  then show ?thesis using leave_road_eq [OF crossing_inv_parts(4) [OF I]] c by (simp add: move_def)
qed

lemma crossing_inv_events [simp]: "crossing_inv A (s\<lparr>events := es\<rparr>) = crossing_inv A s"
  by (simp add: crossing_inv_def)

lemma location_cases:
  assumes "crossing_inv A s" "c \<in> A" "1 \<le> moves_left (cars s ! c)"
  obtains q where "cur_location (cars s ! c) = 0" "spawn_location (cars s ! c) = int q + 1" "wants (cars s ! c) q" "q < 4"
  | p where "cur_location (cars s ! c) = int p + 1" "p < 4" "moves_left (cars s ! c) = 1"
  | p q where "cur_location (cars s ! c) = int p + 1" "p < 4" "q = Suc p mod 4" "p \<noteq> q" "q < 4"
      "wants (cars s ! c) q" "moves_left (cars s ! c) \<noteq> 1"
proof -
  have ok: "car_ok (cars s ! c)" using assms crossing_inv_parts(1) by (auto simp: cars_inv_def)
  show ?thesis
  proof (cases "cur_location (cars s ! c) = 0")
    case True
    let ?q = "nat (spawn_location (cars s ! c) - 1)"
    have "spawn_location (cars s ! c) = int ?q + 1" "?q < 4" using ok by (auto simp: car_ok_def)
    then show ?thesis using that(1) [of ?q] True assms(3) by (simp add: wants_def)
  next
    case False
    let ?p = "nat (cur_location (cars s ! c) - 1)"
    have p: "cur_location (cars s ! c) = int ?p + 1" "?p < 4" using ok False by (auto simp: car_ok_def)
    have "p \<noteq> Suc p mod 4" for p :: nat by presburger
    then have "?p \<noteq> Suc ?p mod 4" by blast
    moreover have "(int ?p + 1) mod 4 = int (Suc ?p mod 4)" by (simp add: zmod_int add.commute)
    then have "wants (cars s ! c) (Suc ?p mod 4)" if "moves_left (cars s ! c) \<noteq> 1"
      using that p(1) False assms(3) unfolding wants_def by simp
    ultimately show ?thesis using that(2) [of ?p] that(3) [of ?p "Suc ?p mod 4"] p by fastforce
  qed
qed

lemma move_inv:
  assumes I: "crossing_inv A s" and c: "c \<in> A" "1 \<le> moves_left (cars s ! c)"
  obtains r s' where "move c s = Inr (r, s')" "crossing_inv A s'"
  using I c
proof (cases rule: location_cases)
  case (1 q)
  note J = joined_line [OF I c(1) 1(3,4)]
  show ?thesis
  proof (cases "\<not> occupied A (cars s) q \<and> driving_permits s \<noteq> 0 \<and> front c q s")
    case True
    then have "move c s = Inr (1, entered c q (joined c q s))" using move_lane [OF I c(1) 1(1) c(2) 1(2)] by simp
    moreover have "crossing_inv A (entered c q (joined c q s))" using entered_inv [OF J(2) c(1)] 1 True by simp
    ultimately show ?thesis by (rule that)
  next
    case False
    then obtain es where "move c s = Inr (0, (joined c q s)\<lparr>events := es\<rparr>)"
      using move_lane [OF I c(1) 1(1) c(2) 1(2)] by (simp only: if_False) blast
    then show ?thesis using that J(2) by simp
  qed
next
  case (2 p)
  then show ?thesis using that move_last [OF I c(1)] left_inv [OF I c(1)] by blast
next
  case (3 p q)
  note J = joined_line [OF I c(1) 3(6,5)]
  show ?thesis
  proof (cases "\<not> occupied A (cars s) q \<and> (front c q s \<or> driving_permits s = 0)")
    case True
    then have "move c s = Inr (1, moved_on c p q (joined c q s))" using move_quad [OF I c(1) 3(1,7,3)] by simp
    moreover have "crossing_inv A (moved_on c p q (joined c q s))" using moved_on_inv [OF J(2) c(1)] 3 True by simp
    ultimately show ?thesis by (rule that)
  next
    case False
    then obtain es where "move c s = Inr (0, (joined c q s)\<lparr>events := es\<rparr>)"
      using move_quad [OF I c(1) 3(1,7,3)] by (simp only: if_False) blast
    then show ?thesis using that J(2) by simp
  qed
qed

section \<open>Reachable states\<close>

lemma random_range: "min_v \<le> max_v \<Longrightarrow> min_v \<le> generateRandomInt r min_v max_v \<and> generateRandomInt r min_v max_v \<le> max_v"
  using pos_mod_bound [of "max_v - min_v + 1" r] pos_mod_sign [of "max_v - min_v + 1" r]
  by (simp add: generateRandomInt_def)

lemma spawn_inv:
  assumes I: "crossing_inv A s" and c: "c \<notin> A" "c < length (cars s)"
  shows "crossing_inv (insert c A) (spawn c now r1 r2 s)"
proof -
  note P = crossing_inv_parts [OF I]
  let ?x = "(cars s ! c)\<lparr>spawn_time := now, cur_location := 0,
    spawn_location := generateSpawnPoint r1, moves_left := generateRandomInt r2 1 3\<rparr>"
  let ?cs = "(cars s)[c := ?x]"
  have okx: "car_ok ?x"
    using random_range [of 1 4 r1] random_range [of 1 3 r2] by (simp add: car_ok_def generateSpawnPoint_def)
  have same: "?cs ! d = cars s ! d" if "d \<in> A" for d using that c by (metis nth_list_update_neq)
  have road: "on_road (insert c A) ?cs = on_road A (cars s)" using same c by (auto simp: on_road_def)
  have occ: "occupied (insert c A) ?cs q = occupied A (cars s) q" for q using same c by (auto simp: occupied_def)
  have "map tid ?cs = map tid (cars s)" using c by (simp add: map_update list_update_same_conv)
  moreover have "inj_on (\<lambda>d. cur_location (?cs ! d)) (on_road A (cars s))"
    using P(1) same by (auto simp: cars_inv_def on_road_def inj_on_def)
  ultimately have "cars_inv (insert c A) ?cs" using P(1) same okx c by (auto simp: cars_inv_def road)
  moreover have "flags_inv (insert c A) ?cs (quads s) (driving_permits s)" using P(2) by (simp add: flags_inv_def road occ)
  moreover have "in_no_line c (quad_intents s)" using P(3) c by (auto simp: lines_inv_def in_no_line_def)
  then have "lines_inv (insert c A) ?cs (quad_intents s)" using lines_inv_update [OF P(3)] by blast
  ultimately show ?thesis by (simp add: crossing_inv_def spawn_def update_car_def Let_def)
qed

lemma finish_inv:
  assumes I: "crossing_inv A s" and c: "c \<in> A" "moves_left (cars s ! c) \<le> 0"
  shows "crossing_inv (A - {c}) s"
proof -
  note P = crossing_inv_parts [OF I]
  have "car_ok (cars s ! c)" using P(1) c by (auto simp: cars_inv_def)
  then have lane: "cur_location (cars s ! c) = 0" using c by (auto simp: car_ok_def)
  have road: "on_road (A - {c}) (cars s) = on_road A (cars s)" using lane by (auto simp: on_road_def)
  have occ: "occupied (A - {c}) (cars s) q = occupied A (cars s) q" for q using lane by (auto simp: occupied_def)
  have "c \<notin> set (quad_intents s ! q)" if "q < 4" for q
    using P(3) that c lane unfolding lines_inv_def by (fastforce simp: wants_def)
  then have "lines_inv (A - {c}) (cars s) (quad_intents s)" using P(3) unfolding lines_inv_def by fastforce
  then show ?thesis using P(1,2) by (auto simp: crossing_inv_def cars_inv_def flags_inv_def road occ)
qed

text \<open>The invariant of the whole system: the threads with a car, the semaphore, and what each thread is at.\<close>

definition active :: "pc list \<Rightarrow> nat set" where
  "active ps = {c. c < length ps \<and> ps ! c \<noteq> AtSpawn}"

definition movers :: "pc list \<Rightarrow> nat set" where
  "movers ps = {c. c < length ps \<and> ps ! c = InMove}"

definition world_inv :: "world \<Rightarrow> bool" where
  "world_inv w \<longleftrightarrow> crossing_inv (active (pcs w)) (road w) \<and> length (cars (road w)) = length (pcs w) \<and>
     (\<forall>c < length (pcs w). pcs w ! c = AtWait \<or> pcs w ! c = InMove \<longrightarrow> 1 \<le> moves_left (cars (road w) ! c)) \<and>
     (sem w = 1 \<and> movers (pcs w) = {} \<or> sem w = 0 \<and> (\<exists>c. movers (pcs w) = {c}))"

lemma active_update:
  "c < length ps \<Longrightarrow> active (ps[c := p]) = (if p = AtSpawn then active ps - {c} else insert c (active ps))"
  by (auto simp: active_def nth_list_update)

lemma movers_update:
  "c < length ps \<Longrightarrow> movers (ps[c := p]) = (if p = InMove then insert c (movers ps) else movers ps - {c})"
  by (auto simp: movers_def nth_list_update)

lemma start_inv:
  assumes "distinct (map tid cs)"
  shows "world_inv (start cs)"
proof -
  have none: "active (pcs (start cs)) = {}" "movers (pcs (start cs)) = {}" by (auto simp: active_def movers_def start_def)
  have "crossing_inv {} (road (start cs))"
    using assms by (auto simp: start_def crossing_inv_def cars_inv_def flags_inv_def lines_inv_def on_road_def
        occupied_def car_line.line_Nil)
  then show ?thesis by (auto simp: world_inv_def none) (auto simp: start_def)
qed

text \<open>A move writes to no other car.\<close>

lemma line_ops_cars:
  "join_line c q s = Inr s' \<Longrightarrow> cars s' = cars s" "leave_line c q s = Inr s' \<Longrightarrow> cars s' = cars s"
  "set_quad q v s = Inr s' \<Longrightarrow> cars s' = cars s"
  by (auto simp: join_line_def leave_line_def set_quad_def split: if_splits)

definition same_but :: "nat \<Rightarrow> car list \<Rightarrow> car list \<Rightarrow> bool" where
  "same_but c cs cs' \<longleftrightarrow> length cs' = length cs \<and> (\<forall>d. d \<noteq> c \<longrightarrow> cs' ! d = cs ! d)"

lemma same_but_update [simp]: "same_but c cs (cars (update_car c f s)) = same_but c cs (cars s)"
  by (auto simp: same_but_def update_car_def)

lemma same_but_refl [simp]: "same_but c cs cs"
  by (simp add: same_but_def)

lemma move_cars: "move c s = Inr (r, s') \<Longrightarrow> same_but c (cars s) (cars s')"
  unfolding move_def move_from_lane_def leave_road_def move_on_def enter_road_def stay_in_lane_def enter_next_def
    stay_in_quad_def Let_def
  by (auto split: if_splits dest!: line_ops_cars)

lemma crossing_step_inv: "step w w' \<Longrightarrow> world_inv w \<Longrightarrow> world_inv w'"
proof (induction rule: step.induct)
  case (Spawn c w sec usec r1 r2)
  let ?s = "spawn c (getCurJSEpoch sec usec) r1 r2 (road w)"
  have "c \<notin> active (pcs w)" "movers (pcs w) - {c} = movers (pcs w)" using Spawn by (auto simp: active_def movers_def)
  moreover have "c < length (cars (road w))" using Spawn by (simp add: world_inv_def)
  moreover have "crossing_inv (insert c (active (pcs w))) ?s"
    using spawn_inv calculation Spawn by (simp add: world_inv_def)
  moreover have "length (cars ?s) = length (cars (road w))"
    "\<And>d. d < length (cars (road w)) \<Longrightarrow> moves_left (cars ?s ! d) = (if d = c then generateRandomInt r2 1 3 else moves_left (cars (road w) ! d))"
    by (auto simp: spawn_def update_car_def Let_def)
  moreover have "1 \<le> generateRandomInt r2 1 3" using random_range [of 1 3] by simp
  ultimately show ?case
    using Spawn by (auto simp: world_inv_def active_update movers_update nth_list_update)
next
  case (Acquire c w)
  have "insert c (active (pcs w)) = active (pcs w)" using Acquire by (auto simp: active_def)
  moreover have "sem w = 1" "movers (pcs w) = {}" using Acquire by (auto simp: world_inv_def)
  ultimately show ?case
    using Acquire by (auto simp: world_inv_def active_update movers_update nth_list_update)
next
  case (Move c w r s')
  have a: "insert c (active (pcs w)) = active (pcs w)" "c \<in> active (pcs w)" "1 \<le> moves_left (cars (road w) ! c)" using Move by (auto simp: active_def world_inv_def)
  have "c \<in> movers (pcs w)" using Move by (simp add: movers_def)
  then have m: "movers (pcs w) = {c}" "sem w = 0" using Move by (auto simp: world_inv_def)
  have I: "crossing_inv (active (pcs w)) (road w)" using Move by (simp add: world_inv_def)
  have "crossing_inv (active (pcs w)) s'" by (rule move_inv [OF I a(2,3)]) (use Move in auto)
  moreover have "length (cars s') = length (cars (road w))" "\<And>d. d \<noteq> c \<Longrightarrow> cars s' ! d = cars (road w) ! d"
    using move_cars [OF Move.hyps(3)] by (auto simp: same_but_def)
  ultimately show ?case
    using Move a m by (auto simp: world_inv_def active_update movers_update nth_list_update)
next
  case (Wake c w)
  have a: "insert c (active (pcs w)) = active (pcs w)" "c \<in> active (pcs w)" "movers (pcs w) - {c} = movers (pcs w)"
    using Wake by (auto simp: active_def movers_def)
  have I: "crossing_inv (active (pcs w)) (road w)" using Wake by (simp add: world_inv_def)
  show ?case
    using Wake a I finish_inv [OF I a(2)] by (auto simp: world_inv_def active_update movers_update nth_list_update)
qed

lemma crossing_reachable_inv: "reachable w \<Longrightarrow> world_inv w"
  by (induction rule: reachable.induct) (auto simp: start_inv crossing_step_inv)

section \<open>Some car can always move\<close>

definition can_go :: "nat \<Rightarrow> crossing \<Rightarrow> bool" where
  "can_go c s \<longleftrightarrow> 1 \<le> moves_left (cars s ! c) \<and> (\<exists>s'. move c s = Inr (1, s'))"

lemma wants_moves: "wants x q \<Longrightarrow> 1 \<le> moves_left x"
  by (auto simp: wants_def split: if_splits)

lemma front_can_go:
  assumes I: "crossing_inv A s" and c: "c \<in> A" "wants (cars s ! c) q" and free: "\<not> occupied A (cars s) q"
    and go: "front c q s \<and> driving_permits s \<noteq> 0 \<or> cur_location (cars s ! c) \<noteq> 0 \<and> driving_permits s = 0"
  shows "can_go c s"
  using I c(1) wants_moves [OF c(2)]
proof (cases rule: location_cases)
  case (1 q')
  then have q: "q' = q" using wants_unique [OF c(2)] by simp
  then show ?thesis
    using move_lane [OF I c(1) 1(1) wants_moves [OF c(2)] 1(2)] go free 1(1) wants_moves [OF c(2)]
    by (auto simp: can_go_def)
next
  case (2 p)
  then show ?thesis using c(2) by (simp add: wants_def)
next
  case (3 p q')
  then have q: "q' = q" using wants_unique [OF c(2)] by simp
  then show ?thesis
    using move_quad [OF I c(1) 3(1,7,3)] go free wants_moves [OF c(2)] by (auto simp: can_go_def)
qed

lemma waiting_can_go:
  assumes I: "crossing_inv A s" and c: "c \<in> A" "wants (cars s ! c) q" "q < 4"
    and free: "\<not> occupied A (cars s) q" "driving_permits s \<noteq> 0"
  shows "\<exists>d \<in> A. can_go d s"
proof (cases "front c q s")
  case True
  then show ?thesis using front_can_go [OF I c(1,2) free(1)] free(2) c(1) by blast
next
  case False
  let ?h = "hd (quad_intents s ! q)"
  have "?h \<in> set (quad_intents s ! q)" using joined_line(4) [OF I c False] by simp
  then have h: "?h \<in> A" "wants (cars s ! ?h) q" "front ?h q s"
    using crossing_inv_parts(3) [OF I] c(3) by (auto simp: lines_inv_def front_def joined_def)
  then show ?thesis using front_can_go [OF I h(1,2) free(1)] free(2) by blast
qed

lemma gap_exists:
  assumes C: "cars_inv A cs" and r: "r < 4" "occupied A cs r"
  shows "\<exists>p < 4. occupied A cs p \<and> \<not> occupied A cs (Suc p mod 4)"
proof (rule ccontr)
  assume "\<not> (\<exists>p < 4. occupied A cs p \<and> \<not> occupied A cs (Suc p mod 4))"
  then have nxt: "occupied A cs (Suc p mod 4)" if "p < 4" "occupied A cs p" for p using that by blast
  have e: "Suc 0 mod 4 = (1 :: nat)" "Suc 1 mod 4 = (2 :: nat)" "Suc 2 mod 4 = (3 :: nat)" "Suc 3 mod 4 = (0 :: nat)"
    by simp_all
  have ring: "occupied A cs 0 \<Longrightarrow> occupied A cs 1" "occupied A cs 1 \<Longrightarrow> occupied A cs 2"
    "occupied A cs 2 \<Longrightarrow> occupied A cs 3" "occupied A cs 3 \<Longrightarrow> occupied A cs 0"
    using nxt [of 0, unfolded e] nxt [of 1, unfolded e] nxt [of 2, unfolded e] nxt [of 3, unfolded e]
    by (simp_all del: One_nat_def)
  have all: "occupied A cs 0 \<and> occupied A cs 1 \<and> occupied A cs 2 \<and> occupied A cs 3"
    using r(1) by (rule less_4_cases) (use r(2) ring in blast)+
  have "(\<lambda>c. cur_location (cs ! c)) ` on_road A cs \<supseteq> {1, 2, 3, 4}"
    using all unfolding occupied_def on_road_def by force
  then have "card {1, 2, 3, 4 :: int} \<le> card ((\<lambda>c. cur_location (cs ! c)) ` on_road A cs)"
    using finite_on_road [OF C] by (intro card_mono) auto
  also have "\<dots> \<le> card (on_road A cs)" using finite_on_road [OF C] by (rule card_image_le)
  finally show False using C by (simp add: cars_inv_def)
qed

lemma some_car_can_go:
  assumes I: "crossing_inv A s" and c: "c \<in> A" "1 \<le> moves_left (cars s ! c)"
  shows "\<exists>d \<in> A. can_go d s"
proof (cases "\<exists>r < 4. occupied A (cars s) r")
  case True
  note P = crossing_inv_parts [OF I]
  from True obtain p where p: "p < 4" "occupied A (cars s) p" "\<not> occupied A (cars s) (Suc p mod 4)"
    using gap_exists [OF P(1)] by blast
  then obtain d where d: "d \<in> A" "cur_location (cars s ! d) = int p + 1" by (auto simp: occupied_def)
  then have dm: "1 \<le> moves_left (cars s ! d)" using P(1) by (auto simp: cars_inv_def car_ok_def)
  show ?thesis
    using I d(1) dm
  proof (cases rule: location_cases)
    case (2 p')
    then have "can_go d s" using move_last [OF I d(1) 2(1,3)] dm by (auto simp: can_go_def)
    then show ?thesis using d(1) by blast
  next
    case (3 p' q)
    then have q: "q = Suc p mod 4" using d(2) by simp
    show ?thesis
      using front_can_go [OF I d(1) 3(6)] waiting_can_go [OF I d(1) 3(6,5)] p(3) q d by (cases "driving_permits s = 0") auto
  qed (use d in auto)
next
  case False
  then have none: "cur_location (cars s ! d) = 0" if "d \<in> A" for d
    using location_cases [OF I that] crossing_inv_parts(1) [OF I] that
    by (auto simp: cars_inv_def car_ok_def occupied_def) (metis add.commute add_le_cancel_left nat_less_iff zle_diff1_eq)
  then have "on_road A (cars s) = {}" by (auto simp: on_road_def)
  then have "driving_permits s \<noteq> 0" using crossing_inv_parts(2) [OF I] by (simp add: flags_inv_def)
  moreover obtain q where "wants (cars s ! c) q" "q < 4"
    using I c by (rule location_cases) (use none [OF c(1)] in auto)
  ultimately show ?thesis using waiting_can_go [OF I c(1)] False by blast
qed

section \<open>Properties\<close>

text \<open>C3: no two cars are ever in the same quadrant and never more than three on the road; the number
  of permits left is three minus the cars on the road, and the flag of a quadrant says exactly whether a
  car is in it. For every interleaving of the twenty threads and every sequence of spawn times and turns.\<close>

theorem intersection_safe:
  assumes "reachable w"
  defines "A \<equiv> active (pcs w)" and "cs \<equiv> cars (road w)"
  shows "inj_on (\<lambda>c. cur_location (cs ! c)) (on_road A cs) \<and> card (on_road A cs) \<le> 3 \<and>
    driving_permits (road w) = 3 - int (card (on_road A cs)) \<and>
    (\<forall>q < 4. quads (road w) ! q = (if occupied A cs q then 0 else 1))"
  using crossing_reachable_inv [OF assms(1)]
  by (simp add: world_inv_def crossing_inv_def cars_inv_def flags_inv_def A_def cs_def)

text \<open>A reachable state for the witnesses: car 0 has spawned in lane 1 for a right turn and is in \<^verbatim>\<open>move\<close>.\<close>

definition example_cars :: "car list" where
  "example_cars = map (\<lambda>i. \<lparr>spawn_time = 0, tid = int i, spawn_location = 0, moves_left = 0, cur_location = 0\<rparr>) [0..<20]"

definition example_world :: world where
  "example_world = \<lparr>road = spawn 0 (getCurJSEpoch 1 0) 0 0 (road (start example_cars)),
     sem = 0, pcs = InMove # replicate 19 AtSpawn\<rparr>"

lemma crossing_example_reachable: "reachable example_world"
proof -
  let ?w0 = "start example_cars"
  have l: "pcs ?w0 = AtSpawn # replicate 19 AtSpawn" by (simp add: start_def example_cars_def numeral_eq_Suc)
  have "reachable ?w0"
    by (rule reachable.Start) (simp_all add: example_cars_def num_threads_def distinct_map comp_def inj_on_def)
  moreover have "step ?w0 (?w0\<lparr>road := spawn 0 (getCurJSEpoch 1 0) 0 0 (road ?w0), pcs := (pcs ?w0)[0 := AtWait]\<rparr>)"
    (is "step _ ?w1") by (rule step.Spawn) (simp_all add: l)
  moreover have "step ?w1 (?w1\<lparr>sem := sem ?w1 - 1, pcs := (pcs ?w1)[0 := InMove]\<rparr>)"
    by (rule step.Acquire) (simp_all add: l, simp add: start_def)
  ultimately have "reachable (?w1\<lparr>sem := sem ?w1 - 1, pcs := (pcs ?w1)[0 := InMove]\<rparr>)"
    by (blast intro: reachable.Step)
  moreover have "?w1\<lparr>sem := sem ?w1 - 1, pcs := (pcs ?w1)[0 := InMove]\<rparr> = example_world"
    by (simp add: example_world_def l, simp add: start_def)
  ultimately show ?thesis by simp
qed

lemma example_car:
  "cars (road example_world) ! 0 = \<lparr>spawn_time = 1000, tid = 0, spawn_location = 1, moves_left = 1, cur_location = 0\<rparr>"
  "pcs example_world ! 0 = InMove" "length (pcs example_world) = 20" "0 \<in> active (pcs example_world)"
  by (simp_all add: example_world_def start_def example_cars_def spawn_def update_car_def getCurJSEpoch_def
      generateSpawnPoint_def generateRandomInt_def Let_def active_def)

theorem intersection_safe_witness:
  "card (on_road (active (pcs example_world)) (cars (road example_world))) \<le> 3 \<and> driving_permits (road example_world) = 3"
proof -
  have "c = 0" if "c \<in> active (pcs example_world)" for c
    using that by (cases c) (auto simp: example_world_def active_def)
  then have "on_road (active (pcs example_world)) (cars (road example_world)) = {}"
    using example_car(1) by (fastforce simp: on_road_def)
  then show ?thesis using intersection_safe [OF crossing_example_reachable] by simp
qed

text \<open>The semaphore works as a lock: its value is 0 or 1, and at most one thread is in \<^verbatim>\<open>move\<close>.\<close>

theorem move_exclusive:
  assumes "reachable w" "c < length (pcs w)" "d < length (pcs w)" "pcs w ! c = InMove" "pcs w ! d = InMove"
  shows "c = d \<and> sem w = 0"
proof -
  have "c \<in> movers (pcs w)" "d \<in> movers (pcs w)" using assms(2-5) by (simp_all add: movers_def)
  then show ?thesis using crossing_reachable_inv [OF assms(1)] by (auto simp: world_inv_def)
qed

theorem move_exclusive_witness: "sem example_world = 0"
  using move_exclusive [OF crossing_example_reachable, of 0 0] example_car(2,3) by simp

text \<open>C19: \<^verbatim>\<open>move\<close> never indexes outside an array and never follows the null pointer of an empty line,
  in any reachable state in which a thread is about to execute it.\<close>

theorem move_never_faults:
  assumes "reachable w" "c < length (pcs w)" "pcs w ! c = InMove"
  shows "\<exists>r s'. move c (road w) = Inr (r, s')"
proof -
  have W: "world_inv w" by (rule crossing_reachable_inv [OF assms(1)])
  have "c \<in> active (pcs w)" "1 \<le> moves_left (cars (road w) ! c)" using W assms(2,3) by (auto simp: world_inv_def active_def)
  then show ?thesis using W by (auto simp: world_inv_def elim: move_inv)
qed

theorem move_never_faults_witness: "\<exists>r s'. move 0 (road example_world) = Inr (r, s')"
  using move_never_faults [OF crossing_example_reachable, of 0] example_car(2,3) by simp

text \<open>C5: no deadlock. Whenever some car still has a move to make, there is a car whose next call of
  \<^verbatim>\<open>move\<close> succeeds: the rule for a full road (no permit left, so the front of the line does not matter)
  and the order of the lines never block each other.\<close>

theorem intersection_progress:
  assumes "reachable w" "c \<in> active (pcs w)" "1 \<le> moves_left (cars (road w) ! c)"
  shows "\<exists>d \<in> active (pcs w). 1 \<le> moves_left (cars (road w) ! d) \<and> (\<exists>s'. move d (road w) = Inr (1, s'))"
proof -
  have "crossing_inv (active (pcs w)) (road w)" using crossing_reachable_inv [OF assms(1)] by (simp add: world_inv_def)
  from some_car_can_go [OF this assms(2,3)] show ?thesis by (simp add: can_go_def)
qed

theorem intersection_progress_witness:
  "\<exists>d \<in> active (pcs example_world). 1 \<le> moves_left (cars (road example_world) ! d) \<and>
    (\<exists>s'. move d (road example_world) = Inr (1, s'))"
  using intersection_progress [OF crossing_example_reachable, of 0] example_car by simp



text \<open>The successful calls of \<^verbatim>\<open>move\<close> a car still needs.\<close>

definition calls_left :: "car \<Rightarrow> int" where
  "calls_left x = (if cur_location x = 0 \<and> moves_left x > 0 then moves_left x + 1 else moves_left x)"

text \<open>C21: the route. A call of \<^verbatim>\<open>move\<close> returns 0 or 1; with 0 the car stays where it is; with 1 it is in
  the quadrant of its lane, or in the next quadrant around, or back in the lane after its last move. A car
  that spawned with \<open>m\<close> turns needs exactly \<open>m + 1\<close> successful calls, and the order of the calls of the
  other cars does not matter.\<close>

theorem move_route:
  assumes "reachable w" "c \<in> active (pcs w)" "1 \<le> moves_left (cars (road w) ! c)"
  defines "x \<equiv> cars (road w) ! c"
  shows "\<exists>r s'. move c (road w) = Inr (r, s') \<and> calls_left (cars s' ! c) = calls_left x - r \<and>
    (r = 0 \<and> cars s' ! c = x \<or>
     r = 1 \<and> cur_location (cars s' ! c) =
       (if cur_location x = 0 then spawn_location x else if moves_left x = 1 then 0 else cur_location x mod 4 + 1))"
proof -
  let ?s = "road w"
  have I: "crossing_inv (active (pcs w)) ?s" using crossing_reachable_inv [OF assms(1)] by (simp add: world_inv_def)
  have len: "c < length (cars ?s)" using crossing_inv_parts(1) [OF I] assms(2) by (auto simp: cars_inv_def)
  show ?thesis
    using I assms(2,3)
  proof (cases rule: location_cases)
    case (1 q)
    then show ?thesis
    proof (cases "\<not> occupied (active (pcs w)) (cars ?s) q \<and> driving_permits ?s \<noteq> 0 \<and> front c q ?s")
      case True
      then show ?thesis using move_lane [OF I assms(2) 1(1) assms(3) 1(2)] 1 assms(3) len
        by (simp add: x_def entered_def calls_left_def)
    next
      case False
      then show ?thesis using move_lane [OF I assms(2) 1(1) assms(3) 1(2)] by (auto simp: x_def)
    qed
  next
    case (2 p)
    then show ?thesis using move_last [OF I assms(2) 2(1,3)] len by (simp add: x_def left_def calls_left_def)
  next
    case (3 p q)
    have nxt: "(int p + 1) mod 4 = int q" using 3 by (simp add: zmod_int add.commute)
    show ?thesis
    proof (cases "\<not> occupied (active (pcs w)) (cars ?s) q \<and> (front c q ?s \<or> driving_permits ?s = 0)")
      case True
      then show ?thesis using move_quad [OF I assms(2) 3(1,7,3)] 3(1,7) nxt assms(3) len
        by (simp add: x_def moved_on_def calls_left_def)
    next
      case False
      then show ?thesis using move_quad [OF I assms(2) 3(1,7,3)] by (auto simp: x_def)
    qed
  qed
qed

theorem move_route_witness:
  "\<exists>r s'. move 0 (road example_world) = Inr (r, s') \<and> calls_left (cars s' ! 0) = 2 - r"
proof -
  have "1 \<le> moves_left (cars (road example_world) ! 0)" "calls_left (cars (road example_world) ! 0) = 2"
    by (simp_all add: example_car calls_left_def)
  then show ?thesis using move_route [OF crossing_example_reachable example_car(4)] by metis
qed

text \<open>The list operations. Inserting by spawn time keeps a line sorted and adds just the car, and
  removing finds a car that is in the line wherever it is and takes out exactly its node.\<close>

theorem line_operations:
  "(contains_car c l = 1 \<longleftrightarrow> c \<in> set l) \<and> set (add_car cs c l) = insert c (set l) \<and>
   (sorted (map (\<lambda>x. spawn_time (cs ! x)) l) \<longrightarrow> sorted (map (\<lambda>x. spawn_time (cs ! x)) (add_car cs c l))) \<and>
   length (add_car cs c l) = Suc (length l) \<and> remove_car c l = (contains_car c l, remove1 c l)"
proof -
  have "length (insert_after cs c l) = Suc (length l)" by (induction cs c l rule: insert_after.induct) auto
  then have "length (add_car cs c l) = Suc (length l)" by (cases l) (auto simp: add_car_def)
  then show ?thesis
    using add_car_sorted [of cs l c] car_line.add_set [of cs c l] by (simp add: contains_car_iff remove_car_remove1)
qed

theorem line_operations_witness:
  "add_car (map (\<lambda>t. \<lparr>spawn_time = t, tid = 0, spawn_location = 1, moves_left = 1, cur_location = 0\<rparr>) [5, 9, 7]) 2 [0, 1] = [0, 2, 1] \<and>
   sorted (map (\<lambda>x. spawn_time (map (\<lambda>t. \<lparr>spawn_time = t, tid = 0, spawn_location = 1, moves_left = 1, cur_location = 0\<rparr>)
     [5, 9, 7] ! x)) [0, 2, 1 :: nat])"
  using line_operations [of 2 "[0, 1]" "map (\<lambda>t. \<lparr>spawn_time = t, tid = 0, spawn_location = 1, moves_left = 1, cur_location = 0\<rparr>) [5, 9, 7]"]
  by (simp add: add_car_def)

text \<open>A random number drawn from a range is in the range, so spawn points are lanes 1 to 4 and
  turns are 1 to 3 whatever the generator delivers.\<close>

theorem random_in_range:
  "generateSpawnPoint r \<in> {1..4} \<and> generateRandomInt r lo (lo + int k) \<in> {lo..lo + int k}"
  using random_range [of 1 4 r] random_range [of lo "lo + int k" r] by (simp add: generateSpawnPoint_def)

end
