(* ===== verification/Costume_Shop.thy ===== *)
theory Costume_Shop
  imports Complex_Main Lines
begin

text \<open>
  The costume shop of ninjas and pirates (src/project-3/problem1/main.c): every person is a
  thread that arrives, waits in a line until the shop admits its kind, is served by one of the
  costuming teams, pays, leaves, and comes back at most once.

  A node of the line belongs to one thread, which has at most one at a time, so the number of the
  thread is the pointer and \<^verbatim>\<open>n->next\<close> is the member after it in the line. The steps of a thread are
  its critical sections (everything between taking a lock and giving it back) and the unlocked signal
  after entering; the relation \<open>step\<close> interleaves them. Readings of the clock and random numbers are
  parameters of the steps. A signalled thread that waits becomes runnable; threads may also wake up
  spuriously, as POSIX allows.
\<close>

section \<open>Data\<close>

type_synonym ull = "64 word"

datatype kind = Ninja | Pirate | Both | NoKind

datatype team_status = Ready | Busy

text \<open>Where a thread is: adventuring, at the door with its node, in \<^verbatim>\<open>pthread_cond_wait\<close>, woken, inside before
  and after its signal, billed, out of the shop, and finished.\<close>

datatype pc = Home | AtDoor | Waiting | Woken | Entered | Costuming | Billed | Outside | Gone

record visit_stats =
  visitTime :: ull
  waitTime :: ull

record person =
  race :: kind
  pc :: pc
  start :: ull
  wait :: ull
  team :: int
  costumingTime :: int
  nextVisit :: bool
  visits :: int
  goldOwed :: int
  history :: "visit_stats list"

record person_stats =
  ps_visits :: int
  ps_goldOwed :: int
  ps_race :: kind
  ps_head :: "visit_stats list"

record config =
  teams :: int
  ninjas :: int
  pirates :: int
  nAvgCostume :: int
  pAvgCostume :: int
  nAvgArrive :: int
  pAvgArrive :: int

record shop =
  config :: config
  ninjaIn :: int
  pirateIn :: int
  justChanged :: int
  team_states :: "team_status list"
  time_teams_busy_for :: "ull list"
  revenue :: "32 word"
  line :: "nat list"
  people :: "person list"
  persons :: "person_stats option list"

section \<open>The line\<close>

text \<open>\<open>delete_node\<close> walks \<open>index - 1\<close> nodes from the head and unlinks the next one.\<close>

definition delete_node :: "int \<Rightarrow> 'c list \<Rightarrow> int \<times> 'c list" where
  "delete_node index l =
     (case l of
        [] \<Rightarrow> (0, [])
      | x # r \<Rightarrow>
          if index = 0 then (1, r)
          else
            (let k = nat (index - 1) in
             if length l \<le> Suc k then (0, l) else (1, take (Suc k) l @ drop (Suc (Suc k)) l)))"

definition addNode :: "'c \<Rightarrow> 'c list \<Rightarrow> 'c list" where
  "addNode n l = l @ [n]"

definition delete_node_by_pointer :: "'c \<Rightarrow> 'c list \<Rightarrow> int \<times> 'c list" where
  "delete_node_by_pointer n l =
     (case l of
        [] \<Rightarrow> (0, [])
      | x # r \<Rightarrow> if x = n then (1, r) else unlink_next n l)"

fun contains_node :: "'c \<Rightarrow> 'c list \<Rightarrow> int" where
  "contains_node n [] = 0"
| "contains_node n (x # r) = (if x = n then 1 else contains_node n r)"

section \<open>Time\<close>

definition getCurJSEpoch :: "ull \<Rightarrow> ull \<Rightarrow> ull" where
  "getCurJSEpoch tv_sec tv_usec = tv_sec * 1000 + tv_usec div 1000"

definition timeElapsed :: "ull \<Rightarrow> ull \<Rightarrow> ull" where
  "timeElapsed now t0 = now - t0"

text \<open>
  \<^verbatim>\<open>timeElapsed(node) > 30000 - avg*1000*TIMEMULT\<close>, with \<^verbatim>\<open>TIMEMULT\<close> 1.5. The comparison is made in
  \<open>double\<close>; the right-hand side is the integer below exactly (for averages up to 2147483 seconds, where
  the product does not overflow), and rounding the left-hand side cannot move it across.
\<close>

definition waited_too_long :: "int \<Rightarrow> ull \<Rightarrow> bool" where
  "waited_too_long avg elapsed \<longleftrightarrow> uint elapsed > 30000 - avg * 1500"

text \<open>The loop of \<^verbatim>\<open>canEnter\<close> over the line; \<open>clock\<close> is the time when the node of a thread is looked at.\<close>

fun check_line :: "config \<Rightarrow> person list \<Rightarrow> (nat \<Rightarrow> ull) \<Rightarrow> int \<Rightarrow> nat list \<Rightarrow> kind option" where
  "check_line cf ps clock currentlyIn [] = None"
| "check_line cf ps clock currentlyIn (i # l) =
     (let elapsed = timeElapsed (clock i) (start (ps ! i)) in
      if race (ps ! i) = Pirate \<and> waited_too_long (nAvgCostume cf) elapsed then
        Some (if currentlyIn = 0 \<or> currentlyIn = 2 then Pirate else NoKind)
      else if race (ps ! i) = Ninja \<and> waited_too_long (pAvgCostume cf) elapsed then
        Some (if currentlyIn = 0 \<or> currentlyIn = 1 then Ninja else NoKind)
      else check_line cf ps clock currentlyIn l)"

definition canEnter :: "(nat \<Rightarrow> ull) \<Rightarrow> shop \<Rightarrow> kind \<times> shop" where
  "canEnter clock s =
     (if ninjaIn s = teams (config s) \<or> pirateIn s = teams (config s) then (NoKind, s)
      else if ninjaIn s > 0 \<and> justChanged s \<noteq> 0 then (Ninja, s)
      else if \<not> ninjaIn s > 0 \<and> pirateIn s > 0 \<and> justChanged s \<noteq> 0 then (Pirate, s)
      else
        (let currentlyIn = (if ninjaIn s > 0 then 1 else if pirateIn s > 0 then 2 else 0);
             s1 = (if \<not> ninjaIn s > 0 \<and> \<not> pirateIn s > 0 \<and> pirateIn s + ninjaIn s = 0 then s\<lparr>justChanged := 1\<rparr> else s)
         in case check_line (config s) (people s) clock currentlyIn (line s) of
              Some k \<Rightarrow> (k, s1)
            | None \<Rightarrow> (if currentlyIn = 0 then Both else if currentlyIn = 1 then Ninja else Pirate, s1)))"

text \<open>C division truncates towards zero; \<open>z\<close> is the normally distributed number of the Box-Muller transform.\<close>

definition cdiv :: "int \<Rightarrow> int \<Rightarrow> int" where
  "cdiv a b = sgn a * sgn b * (\<bar>a\<bar> div \<bar>b\<bar>)"

definition scaled_time :: "real \<Rightarrow> int \<Rightarrow> int \<Rightarrow> int" where
  "scaled_time z deviation avg =
     (let ret = z * of_int deviation + of_int avg in if ret < 0 then 0 else \<lceil>ret\<rceil>)"

definition generateTimeBeforeArrival :: "config \<Rightarrow> real \<Rightarrow> kind \<Rightarrow> int" where
  "generateTimeBeforeArrival cf z r =
     (if r = Ninja then scaled_time z (cdiv (nAvgArrive cf) 2) (nAvgArrive cf)
      else scaled_time z (cdiv (pAvgArrive cf) 2) (pAvgArrive cf))"

definition generateCostumingTime :: "config \<Rightarrow> real \<Rightarrow> kind \<Rightarrow> int" where
  "generateCostumingTime cf z r =
     (if r = Ninja then scaled_time z (cdiv (nAvgCostume cf) 3) (nAvgCostume cf)
      else scaled_time z (cdiv (pAvgCostume cf) 3) (pAvgCostume cf))"

section \<open>The shop\<close>

definition enterStore :: "kind \<Rightarrow> shop \<Rightarrow> shop" where
  "enterStore r s = (if r = Ninja then s\<lparr>ninjaIn := ninjaIn s + 1\<rparr> else s\<lparr>pirateIn := pirateIn s + 1\<rparr>)"

definition leaveStore :: "kind \<Rightarrow> shop \<Rightarrow> shop" where
  "leaveStore r s = (if r = Ninja then s\<lparr>ninjaIn := ninjaIn s - 1\<rparr> else s\<lparr>pirateIn := pirateIn s - 1\<rparr>)"

text \<open>The first team that is ready, counting from \<open>k\<close>; the number of teams when there is none.\<close>

fun first_ready :: "team_status list \<Rightarrow> int \<Rightarrow> int" where
  "first_ready [] k = k"
| "first_ready (t # ts) k = (if t = Ready then k else first_ready ts (k + 1))"

definition getCostumingTeam :: "shop \<Rightarrow> int \<times> shop" where
  "getCostumingTeam s =
     (let k = first_ready (team_states s) 0 in
      (k, if k < int (length (team_states s)) then s\<lparr>team_states := (team_states s)[nat k := Busy]\<rparr> else s))"

definition releaseCostumingTeam :: "int \<Rightarrow> shop \<Rightarrow> shop cres" where
  "releaseCostumingTeam k s = cbind (aset (team_states s) k Ready) (\<lambda>ts. Inr (s\<lparr>team_states := ts\<rparr>))"

definition update_person :: "nat \<Rightarrow> (person \<Rightarrow> person) \<Rightarrow> shop \<Rightarrow> shop" where
  "update_person i f s = s\<lparr>people := (people s)[i := f (people s ! i)]\<rparr>"

text \<open>\<^verbatim>\<open>pthread_cond_signal\<close> on the condition of thread \<open>k\<close>: lost unless the thread waits on it.\<close>

definition cond_signal :: "nat \<Rightarrow> shop \<Rightarrow> shop" where
  "cond_signal k s = (if pc (people s ! k) = Waiting then update_person k (\<lambda>p. p\<lparr>pc := Woken\<rparr>) s else s)"

definition signal_next :: "nat \<Rightarrow> shop \<Rightarrow> shop" where
  "signal_next i s = (case next_in_line i (line s) of Some k \<Rightarrow> cond_signal k s | None \<Rightarrow> s)"

section \<open>The thread\<close>

text \<open>Lines 332-341: the node is made.\<close>

definition arrive :: "nat \<Rightarrow> ull \<Rightarrow> shop \<Rightarrow> shop" where
  "arrive i now s = update_person i (\<lambda>p. p\<lparr>start := now, pc := AtDoor\<rparr>) s"

text \<open>Lines 349-361.\<close>

definition enter_shop :: "nat \<Rightarrow> ull \<Rightarrow> shop \<Rightarrow> shop" where
  "enter_shop i now s =
     (let w = timeElapsed now (start (people s ! i));
          s1 = enterStore (race (people s ! i)) s;
          (k, s2) = getCostumingTeam s1
      in update_person i (\<lambda>p. p\<lparr>wait := w, team := k, pc := Entered\<rparr>) s2)"

text \<open>Lines 448-461.\<close>

definition stay_outside :: "nat \<Rightarrow> shop \<Rightarrow> shop" where
  "stay_outside i s =
     (let s1 = (case next_in_line i (line s) of
                  Some k \<Rightarrow> cond_signal k s
                | None \<Rightarrow>
                    if contains_node i (line s) \<noteq> 0 then s\<lparr>justChanged := 0\<rparr>
                    else s\<lparr>line := addNode i (line s)\<rparr>)
      in update_person i (\<lambda>p. p\<lparr>pc := Waiting\<rparr>) s1)"

text \<open>One round of the loop of lines 345-466, under the door lock: \<^verbatim>\<open>canEnter() == race || canEnter() == Both\<close>.\<close>

definition try_enter :: "nat \<Rightarrow> (nat \<Rightarrow> ull) \<Rightarrow> (nat \<Rightarrow> ull) \<Rightarrow> ull \<Rightarrow> shop \<Rightarrow> shop" where
  "try_enter i clock1 clock2 now s =
     (case canEnter clock1 s of (k1, s1) \<Rightarrow>
        if k1 = race (people s ! i) then enter_shop i now s1
        else (case canEnter clock2 s1 of (k2, s2) \<Rightarrow>
          if k2 = Both then enter_shop i now s2 else stay_outside i s2))"

text \<open>Lines 363-371: the signal to the next in line, outside the lock, and the start of the costuming.\<close>

definition begin_costuming :: "nat \<Rightarrow> real \<Rightarrow> shop \<Rightarrow> shop" where
  "begin_costuming i z s =
     update_person i (\<lambda>p. p\<lparr>costumingTime := generateCostumingTime (config s) z (race p), pc := Costuming\<rparr>) (signal_next i s)"

text \<open>Lines 375-399, under the statistics lock.\<close>

definition bill :: "nat \<Rightarrow> shop \<Rightarrow> shop cres" where
  "bill i s =
     (let p = people s ! i; t = costumingTime p; in_time = wait p div 1000 < 30 in
      cbind (aget (time_teams_busy_for s) (team p)) (\<lambda>b.
      cbind (aset (time_teams_busy_for s) (team p) (b + word_of_int (t * 1000 * 1000))) (\<lambda>tb.
      Inr (update_person i (\<lambda>p. p\<lparr>goldOwed := (if in_time then goldOwed p + t else goldOwed p), visits := visits p + 1,
             history := history p @ [\<lparr>visitTime = word_of_int t, waitTime = wait p\<rparr>], pc := Billed\<rparr>)
           (s\<lparr>time_teams_busy_for := tb, revenue := (if in_time then revenue s + word_of_int t else revenue s)\<rparr>)))))"

text \<open>Lines 402-424, under the door lock.\<close>

definition leave_shop :: "nat \<Rightarrow> shop \<Rightarrow> shop cres" where
  "leave_shop i s =
     (let p = people s ! i in
      cbind (releaseCostumingTeam (team p) (leaveStore (race p) s)) (\<lambda>s1.
      (let s2 = s1\<lparr>line := snd (delete_node_by_pointer i (line s1))\<rparr>;
           s3 = (case line s2 of [] \<Rightarrow> s2 | k # _ \<Rightarrow> cond_signal k s2)
       in Inr (update_person i (\<lambda>p. p\<lparr>pc := Outside\<rparr>) s3))))"

text \<open>Lines 427-443: with \<^verbatim>\<open>drand48() > 0.25\<close> or after the second visit the person records its statistics in the
  first free place and is gone; the search for the place has no bound of its own.\<close>

fun first_null :: "'a option list \<Rightarrow> int \<Rightarrow> int cres" where
  "first_null [] k = Inl OutOfBounds"
| "first_null (x # xs) k = (case x of None \<Rightarrow> Inr k | Some _ \<Rightarrow> first_null xs (k + 1))"

definition stats_of :: "person \<Rightarrow> person_stats" where
  "stats_of p = \<lparr>ps_visits = visits p, ps_goldOwed = goldOwed p, ps_race = race p, ps_head = history p\<rparr>"

definition depart :: "nat \<Rightarrow> real \<Rightarrow> shop \<Rightarrow> shop cres" where
  "depart i rnd s =
     (if rnd > 1 / 4 \<or> nextVisit (people s ! i) then
        cbind (first_null (persons s) 0) (\<lambda>k.
        cbind (aset (persons s) k (Some (stats_of (people s ! i)))) (\<lambda>pp.
        Inr (update_person i (\<lambda>p. p\<lparr>pc := Gone\<rparr>) (s\<lparr>persons := pp\<rparr>))))
      else Inr (update_person i (\<lambda>p. p\<lparr>nextVisit := True, pc := Home\<rparr>) s))"

inductive step :: "shop \<Rightarrow> shop \<Rightarrow> bool" where
  Arrive: "i < length (people s) \<Longrightarrow> pc (people s ! i) = Home \<Longrightarrow> step s (arrive i now s)"
| Try: "i < length (people s) \<Longrightarrow> pc (people s ! i) = AtDoor \<or> pc (people s ! i) = Woken \<Longrightarrow>
    step s (try_enter i clock1 clock2 now s)"
| Begin: "i < length (people s) \<Longrightarrow> pc (people s ! i) = Entered \<Longrightarrow> step s (begin_costuming i z s)"
| Bill: "i < length (people s) \<Longrightarrow> pc (people s ! i) = Costuming \<Longrightarrow> bill i s = Inr s' \<Longrightarrow> step s s'"
| Leave: "i < length (people s) \<Longrightarrow> pc (people s ! i) = Billed \<Longrightarrow> leave_shop i s = Inr s' \<Longrightarrow> step s s'"
| Depart: "i < length (people s) \<Longrightarrow> pc (people s ! i) = Outside \<Longrightarrow> depart i rnd s = Inr s' \<Longrightarrow> step s s'"
| Spurious: "i < length (people s) \<Longrightarrow> pc (people s ! i) = Waiting \<Longrightarrow> step s (update_person i (\<lambda>p. p\<lparr>pc := Woken\<rparr>) s)"

section \<open>main\<close>

text \<open>\<^verbatim>\<open>atoi(arg) != 0 || arg[0] == '0'\<close>\<close>

definition number_arg :: "string \<Rightarrow> bool" where
  "number_arg a \<longleftrightarrow> atoi a \<noteq> 0 \<or> (case a of c # _ \<Rightarrow> c = CHR ''0'' | [] \<Rightarrow> False)"

definition parse_args :: "string list \<Rightarrow> config option" where
  "parse_args argv =
     (case argv of
        [_, a1, a2, a3, a4, a5, a6, a7] \<Rightarrow>
          if 2 \<le> atoi a1 \<and> atoi a1 \<le> 4 \<and> 10 \<le> atoi a2 \<and> atoi a2 \<le> 50 \<and> 10 \<le> atoi a3 \<and> atoi a3 \<le> 50 \<and>
             number_arg a4 \<and> number_arg a5 \<and> number_arg a6 \<and> number_arg a7
          then Some \<lparr>teams = atoi a1, ninjas = atoi a2, pirates = atoi a3, nAvgCostume = atoi a4,
            pAvgCostume = atoi a5, nAvgArrive = atoi a6, pAvgArrive = atoi a7\<rparr>
          else None
      | _ \<Rightarrow> None)"

definition new_person :: "kind \<Rightarrow> person" where
  "new_person r = \<lparr>race = r, pc = Home, start = 0, wait = 0, team = 0, costumingTime = 0, nextVisit = False,
     visits = 0, goldOwed = 0, history = []\<rparr>"

definition open_shop :: "config \<Rightarrow> shop" where
  "open_shop cf = \<lparr>config = cf, ninjaIn = 0, pirateIn = 0, justChanged = 0,
     team_states = replicate (nat (teams cf)) Ready, time_teams_busy_for = replicate (nat (teams cf)) 0, revenue = 0, line = [],
     people = replicate (nat (ninjas cf)) (new_person Ninja) @ replicate (nat (pirates cf)) (new_person Pirate),
     persons = replicate (nat (ninjas cf + pirates cf)) None\<rparr>"

inductive reachable :: "shop \<Rightarrow> bool" where
  Open: "parse_args argv = Some cf \<Longrightarrow> reachable (open_shop cf)"
| Step: "reachable s \<Longrightarrow> step s s' \<Longrightarrow> reachable s'"

text \<open>The summary that \<^verbatim>\<open>main\<close> computes after joining the threads (lines 550-589); \<open>NullPointer\<close> is an empty place.\<close>

record totals =
  ninjaCounter :: int
  pirateCounter :: int
  numOfVisits :: int
  totalWaitTime :: ull

fun add_visits :: "visit_stats list \<Rightarrow> totals \<Rightarrow> totals" where
  "add_visits [] t = t"
| "add_visits (v # vs) t =
     add_visits vs (t\<lparr>numOfVisits := numOfVisits t + 1, totalWaitTime := totalWaitTime t + waitTime v\<rparr>)"

fun summarize :: "person_stats option list \<Rightarrow> totals \<Rightarrow> totals cres" where
  "summarize [] t = Inr t"
| "summarize (None # ps) t = Inl NullPointer"
| "summarize (Some p # ps) t =
     (let t1 = (if ps_race p = Ninja then t\<lparr>ninjaCounter := ninjaCounter t + 1\<rparr> else t\<lparr>pirateCounter := pirateCounter t + 1\<rparr>)
      in summarize ps (add_visits (ps_head p) t1))"

definition no_totals :: totals where
  "no_totals = \<lparr>ninjaCounter = 0, pirateCounter = 0, numOfVisits = 0, totalWaitTime = 0\<rparr>"

definition days :: "int \<Rightarrow> int" where
  "days totalTime = \<lceil>real_of_int totalTime / (60 * 24)\<rceil>"

definition costs :: "config \<Rightarrow> int \<Rightarrow> int" where
  "costs cf totalTime = days totalTime * 5 * teams cf"

section \<open>The line as a line of members\<close>

lemma contains_node_iff: "contains_node n l = (if n \<in> set l then 1 else 0)"
  by (induction l) auto

lemma delete_by_pointer_remove1: "delete_node_by_pointer n l = (if n \<in> set l then 1 else 0, remove1 n l)"
  using unlink_next_remove1 [of l n] by (cases l) (auto simp: delete_node_by_pointer_def)

interpretation shop_line: member_line addNode "\<lambda>n l. snd (delete_node_by_pointer n l)"
  by unfold_locales (auto simp: addNode_def delete_by_pointer_remove1)

section \<open>Invariant\<close>

definition in_shop :: "person \<Rightarrow> bool" where
  "in_shop p \<longleftrightarrow> pc p = Entered \<or> pc p = Costuming \<or> pc p = Billed"

definition inside :: "person list \<Rightarrow> nat set" where
  "inside ps = {i. i < length ps \<and> in_shop (ps ! i)}"

definition inside_of :: "kind \<Rightarrow> person list \<Rightarrow> nat set" where
  "inside_of k ps = {i \<in> inside ps. race (ps ! i) = k}"

definition counts_inv :: "person list \<Rightarrow> int \<Rightarrow> int \<Rightarrow> int \<Rightarrow> bool" where
  "counts_inv ps nI pI n \<longleftrightarrow> (\<forall>p \<in> set ps. race p = Ninja \<or> race p = Pirate) \<and>
     nI = int (card (inside_of Ninja ps)) \<and> pI = int (card (inside_of Pirate ps)) \<and>
     (nI = 0 \<or> pI = 0) \<and> nI \<le> n \<and> pI \<le> n"

definition teams_inv :: "person list \<Rightarrow> team_status list \<Rightarrow> bool" where
  "teams_inv ps ts \<longleftrightarrow>
     (\<forall>i \<in> inside ps. 0 \<le> team (ps ! i) \<and> team (ps ! i) < int (length ts) \<and> ts ! nat (team (ps ! i)) = Busy) \<and>
     inj_on (\<lambda>i. team (ps ! i)) (inside ps) \<and>
     (\<forall>k < length ts. ts ! k = Busy \<longrightarrow> (\<exists>i \<in> inside ps. team (ps ! i) = int k))"

definition line_inv :: "person list \<Rightarrow> nat list \<Rightarrow> bool" where
  "line_inv ps l \<longleftrightarrow> distinct l \<and> set l \<subseteq> {..<length ps} \<and>
     (\<forall>i \<in> set l. in_shop (ps ! i) \<or> pc (ps ! i) = Waiting \<or> pc (ps ! i) = Woken) \<and>
     (\<forall>i < length ps. pc (ps ! i) = Waiting \<or> pc (ps ! i) = Woken \<longrightarrow> i \<in> set l)"

definition account_ok :: "person \<Rightarrow> bool" where
  "account_ok p \<longleftrightarrow> visits p = int (length (history p)) \<and>
     visits p = (if nextVisit p then 1 else 0) + (if pc p = Billed \<or> pc p = Outside \<or> pc p = Gone then 1 else 0)"

definition money_inv :: "person list \<Rightarrow> 32 word \<Rightarrow> bool" where
  "money_inv ps gold \<longleftrightarrow> gold = word_of_int (sum_list (map goldOwed ps)) \<and> (\<forall>p \<in> set ps. account_ok p)"

definition gone :: "person list \<Rightarrow> nat set" where
  "gone ps = {i. i < length ps \<and> pc (ps ! i) = Gone}"

definition taken :: "person_stats option list \<Rightarrow> nat set" where
  "taken pp = {k. k < length pp \<and> pp ! k \<noteq> None}"

definition shop_inv :: "shop \<Rightarrow> bool" where
  "shop_inv s \<longleftrightarrow> length (team_states s) = nat (teams (config s)) \<and> 0 < teams (config s) \<and>
     length (time_teams_busy_for s) = nat (teams (config s)) \<and> length (persons s) = length (people s) \<and>
     counts_inv (people s) (ninjaIn s) (pirateIn s) (teams (config s)) \<and> teams_inv (people s) (team_states s) \<and>
     line_inv (people s) (line s) \<and> money_inv (people s) (revenue s) \<and>
     card (taken (persons s)) = card (gone (people s))"

subsection \<open>One person changes\<close>

lemma finite_sets [simp]: "finite (inside ps)" "finite (inside_of k ps)" "finite (gone ps)" "finite (taken pp)"
  by (simp_all add: inside_def inside_of_def gone_def taken_def)

lemma inside_update:
  "i < length ps \<Longrightarrow> inside (ps[i := p]) = (if in_shop p then insert i (inside ps) else inside ps - {i})"
  by (auto simp: inside_def nth_list_update)

lemma inside_of_update:
  "i < length ps \<Longrightarrow> race p = race (ps ! i) \<Longrightarrow>
   inside_of k (ps[i := p]) = (if in_shop p \<and> race p = k then insert i (inside_of k ps) else inside_of k ps - {i})"
  by (auto simp: inside_of_def inside_def nth_list_update)

lemma gone_update:
  "i < length ps \<Longrightarrow> gone (ps[i := p]) = (if pc p = Gone then insert i (gone ps) else gone ps - {i})"
  by (auto simp: gone_def nth_list_update)

text \<open>A change that keeps a person in or out of the shop, with its race, team and account.\<close>

definition same_role :: "person \<Rightarrow> person \<Rightarrow> bool" where
  "same_role p q \<longleftrightarrow> race q = race p \<and> in_shop q = in_shop p \<and> (in_shop p \<longrightarrow> team q = team p)"

lemma counts_inv_same:
  assumes "counts_inv ps nI pI n" "i < length ps" "same_role (ps ! i) q"
  shows "counts_inv (ps[i := q]) nI pI n"
proof -
  have "inside_of k (ps[i := q]) = inside_of k ps" for k
    using assms(2,3) by (auto simp: inside_of_update same_role_def, auto simp: inside_of_def inside_def)
  moreover have "race (ps ! i) = Ninja \<or> race (ps ! i) = Pirate" using assms(1,2) by (auto simp: counts_inv_def)
  then have "\<forall>p \<in> set (ps[i := q]). race p = Ninja \<or> race p = Pirate"
    using assms(1,3) by (intro ball_update) (auto simp: counts_inv_def same_role_def)
  ultimately show ?thesis using assms(1) by (auto simp: counts_inv_def)
qed

lemma teams_inv_same:
  assumes "teams_inv ps ts" "i < length ps" "same_role (ps ! i) q"
  shows "teams_inv (ps[i := q]) ts"
proof -
  have ins: "inside (ps[i := q]) = inside ps"
    using assms(2,3) by (auto simp: inside_update same_role_def, auto simp: inside_def)
  have tm: "team (ps[i := q] ! j) = team (ps ! j)" if "j \<in> inside ps" for j
    using that assms(2,3) by (cases "j = i") (auto simp: same_role_def inside_def)
  have "inj_on (\<lambda>j. team (ps[i := q] ! j)) (inside ps) = inj_on (\<lambda>j. team (ps ! j)) (inside ps)"
    by (rule inj_on_cong) (rule tm)
  then show ?thesis using assms(1) unfolding teams_inv_def ins by (simp add: tm cong: ball_cong bex_cong)
qed

lemma line_inv_update:
  assumes "line_inv ps l" "i < length ps"
    and "i \<in> set l \<Longrightarrow> in_shop q \<or> pc q = Waiting \<or> pc q = Woken"
    and "pc q = Waiting \<or> pc q = Woken \<Longrightarrow> i \<in> set l"
  shows "line_inv (ps[i := q]) l"
  using assms by (auto simp: line_inv_def nth_list_update)

lemma money_inv_update:
  assumes "money_inv ps gold" "i < length ps" "account_ok q"
  shows "money_inv (ps[i := q]) (gold + word_of_int (goldOwed q - goldOwed (ps ! i)))"
proof -
  have "sum_list (map goldOwed (ps[i := q])) = sum_list (map goldOwed ps) + (goldOwed q - goldOwed (ps ! i))"
    by (simp add: sum_list_int_update assms(2))
  then show ?thesis
    using assms unfolding money_inv_def by (intro conjI ball_update) (simp_all del: map_update)
qed

lemma money_person: "money_inv ps gold \<Longrightarrow> i < length ps \<Longrightarrow> account_ok (ps ! i)"
  by (simp add: money_inv_def)

text \<open>
  A step that only moves one person's program counter, outside or inside the shop, keeps the invariant. It
  covers arriving, signalling, waking up and the start of the costuming.
\<close>

definition quiet_change :: "person \<Rightarrow> person \<Rightarrow> bool" where
  "quiet_change p q \<longleftrightarrow> same_role p q \<and> goldOwed q = goldOwed p \<and> visits q = visits p \<and> history q = history p \<and>
     (nextVisit q = nextVisit p \<and> (pc q = Billed \<or> pc q = Outside \<or> pc q = Gone) = (pc p = Billed \<or> pc p = Outside \<or> pc p = Gone)
      \<or> pc p = Outside \<and> pc q = Home \<and> nextVisit q \<and> \<not> nextVisit p) \<and>
     (pc q = Gone) = (pc p = Gone)"

lemma quiet_step:
  assumes I: "shop_inv s" and i: "i < length (people s)" and q: "quiet_change (people s ! i) q"
    and l: "i \<in> set (line s) \<Longrightarrow> in_shop q \<or> pc q = Waiting \<or> pc q = Woken"
      "pc q = Waiting \<or> pc q = Woken \<Longrightarrow> i \<in> set (line s)"
  shows "shop_inv (s\<lparr>people := (people s)[i := q]\<rparr>)"
proof -
  have r: "same_role (people s ! i) q" using q by (simp add: quiet_change_def)
  have M: "money_inv (people s) (revenue s)" using I by (simp add: shop_inv_def)
  have "account_ok q" using money_person [OF M i] q by (auto simp: account_ok_def quiet_change_def)
  then have "money_inv ((people s)[i := q]) (revenue s)"
    using money_inv_update [OF M i, of q] q by (simp add: quiet_change_def)
  moreover have "gone ((people s)[i := q]) = gone (people s)"
    using q i by (auto simp: gone_update quiet_change_def, auto simp: gone_def)
  ultimately show ?thesis
    using I counts_inv_same [OF _ i r] teams_inv_same [OF _ i r] line_inv_update [OF _ i l] by (auto simp: shop_inv_def)
qed

lemma shop_inv_justChanged [simp]: "shop_inv (s\<lparr>justChanged := j\<rparr>) = shop_inv s"
  by (simp add: shop_inv_def)

lemma arrive_inv:
  assumes "shop_inv s" "i < length (people s)" "pc (people s ! i) = Home"
  shows "shop_inv (arrive i now s)"
  unfolding arrive_def update_person_def
  by (rule quiet_step [OF assms(1,2)])
     (use assms in \<open>auto simp: quiet_change_def same_role_def in_shop_def shop_inv_def line_inv_def\<close>)

lemma wake_inv:
  assumes "shop_inv s" "i < length (people s)" "pc (people s ! i) = Waiting"
  shows "shop_inv (update_person i (\<lambda>p. p\<lparr>pc := Woken\<rparr>) s)"
  unfolding update_person_def
  by (rule quiet_step [OF assms(1,2)])
     (use assms in \<open>auto simp: quiet_change_def same_role_def in_shop_def shop_inv_def line_inv_def\<close>)

lemma line_member: "shop_inv s \<Longrightarrow> k \<in> set (line s) \<Longrightarrow> k < length (people s)"
  by (auto simp: shop_inv_def line_inv_def)

lemma signal_inv: "shop_inv s \<Longrightarrow> k < length (people s) \<Longrightarrow> shop_inv (cond_signal k s)"
  using wake_inv by (simp add: cond_signal_def)

lemma cond_signal_fields [simp]:
  "line (cond_signal k s) = line s" "length (people (cond_signal k s)) = length (people s)"
  "config (cond_signal k s) = config s" "persons (cond_signal k s) = persons s"
  "team_states (cond_signal k s) = team_states s" "revenue (cond_signal k s) = revenue s"
  by (simp_all add: cond_signal_def update_person_def)

lemma cond_signal_other:
  "pc (people s ! i) \<noteq> Waiting \<Longrightarrow> people (cond_signal k s) ! i = people s ! i"
  by (cases "i = k") (auto simp: cond_signal_def update_person_def)

lemma signal_next_inv: "shop_inv s \<Longrightarrow> shop_inv (signal_next i s)"
  using next_in_line_member [of i "line s"] line_member by (auto simp: signal_next_def intro!: signal_inv split: option.splits)

lemma signal_next_fields [simp]:
  "line (signal_next k s) = line s" "length (people (signal_next k s)) = length (people s)" "config (signal_next k s) = config s"
  by (simp_all add: signal_next_def split: option.splits)

lemma signal_next_other: "pc (people s ! i) \<noteq> Waiting \<Longrightarrow> people (signal_next k s) ! i = people s ! i"
  by (simp add: signal_next_def cond_signal_other split: option.splits)

lemma begin_costuming_inv:
  assumes "shop_inv s" "i < length (people s)" "pc (people s ! i) = Entered"
  shows "shop_inv (begin_costuming i z s)"
  unfolding begin_costuming_def update_person_def
proof (rule quiet_step)
  show "shop_inv (signal_next i s)" using assms(1) by (rule signal_next_inv)
qed (use assms in \<open>auto simp: signal_next_other quiet_change_def same_role_def in_shop_def\<close>)

lemma come_back_inv:
  assumes "shop_inv s" "i < length (people s)" "pc (people s ! i) = Outside" "\<not> nextVisit (people s ! i)"
  shows "shop_inv (update_person i (\<lambda>p. p\<lparr>nextVisit := True, pc := Home\<rparr>) s)"
  unfolding update_person_def
  by (rule quiet_step [OF assms(1,2)])
     (use assms in \<open>auto simp: quiet_change_def same_role_def in_shop_def shop_inv_def line_inv_def\<close>)

subsection \<open>Waiting\<close>

lemma join_inv:
  assumes I: "shop_inv s" and i: "i < length (people s)" "pc (people s ! i) = AtDoor"
  shows "shop_inv (update_person i (\<lambda>p. p\<lparr>pc := Waiting\<rparr>) (s\<lparr>line := addNode i (line s)\<rparr>))"
proof -
  let ?q = "(people s ! i)\<lparr>pc := Waiting\<rparr>"
  have L: "line_inv (people s) (line s)" and n: "i \<notin> set (line s)"
    using I i by (auto simp: shop_inv_def line_inv_def in_shop_def)
  have "line_inv ((people s)[i := ?q]) (addNode i (line s))"
    using L n i by (auto simp: line_inv_def shop_line.add_set shop_line.add_distinct nth_list_update in_shop_def)
  moreover have r: "same_role (people s ! i) ?q" using i by (simp add: same_role_def in_shop_def)
  moreover have "account_ok ?q" using I i money_person [of "people s" "revenue s" i] by (simp add: shop_inv_def account_ok_def)
  then have "money_inv ((people s)[i := ?q]) (revenue s)"
    using I i money_inv_update [of "people s" "revenue s" i ?q] by (simp add: shop_inv_def)
  moreover have "gone ((people s)[i := ?q]) = gone (people s)" using i by (auto simp: gone_update, auto simp: gone_def)
  ultimately show ?thesis
    using I counts_inv_same [OF _ i(1) r] teams_inv_same [OF _ i(1) r] by (simp add: shop_inv_def update_person_def)
qed

lemma stay_outside_inv:
  assumes I: "shop_inv s" and i: "i < length (people s)" "pc (people s ! i) = AtDoor \<or> pc (people s ! i) = Woken"
  shows "shop_inv (stay_outside i s)"
proof (cases "i \<in> set (line s)")
  case False
  then have "pc (people s ! i) = AtDoor" using I i by (auto simp: shop_inv_def line_inv_def)
  moreover have "next_in_line i (line s) = None"
    using False next_in_line_member [of i "line s"] by (cases "next_in_line i (line s)") auto
  ultimately show ?thesis
    using join_inv [OF I i(1)] False by (simp add: stay_outside_def contains_node_iff)
next
  case True
  then have w: "pc (people s ! i) = Woken" using I i by (auto simp: shop_inv_def line_inv_def in_shop_def)
  have waits: "shop_inv (update_person i (\<lambda>p. p\<lparr>pc := Waiting\<rparr>) t)"
    if t: "shop_inv t" "length (people t) = length (people s)" "people t ! i = people s ! i" "line t = line s" for t
    unfolding update_person_def
    by (rule quiet_step) (use t i True w in \<open>auto simp: quiet_change_def same_role_def in_shop_def\<close>)
  show ?thesis
  proof (cases "next_in_line i (line s)")
    case None
    then show ?thesis using waits [of "s\<lparr>justChanged := 0\<rparr>"] I True by (simp add: stay_outside_def contains_node_iff)
  next
    case (Some k)
    then have "shop_inv (cond_signal k s)" using I next_in_line_member line_member by (fastforce intro: signal_inv)
    then show ?thesis
      using waits [of "cond_signal k s"] w Some by (simp add: stay_outside_def cond_signal_other)
  qed
qed

subsection \<open>Entering\<close>

lemma check_line_kind:
  "check_line cf ps clock cur l = Some k \<Longrightarrow>
   k = NoKind \<or> k = Pirate \<and> (cur = 0 \<or> cur = 2) \<or> k = Ninja \<and> (cur = 0 \<or> cur = 1)"
  by (induction l) (auto simp: Let_def split: if_splits)

lemma shop_counts:
  assumes "shop_inv s"
  shows "0 \<le> ninjaIn s" "0 \<le> pirateIn s" "ninjaIn s = 0 \<or> pirateIn s = 0" "ninjaIn s \<le> teams (config s)"
    "pirateIn s \<le> teams (config s)" "0 < teams (config s)"
  using assms by (auto simp: shop_inv_def counts_inv_def)

text \<open>What an answer of \<^verbatim>\<open>canEnter\<close> is worth: there is a team left and nobody of the other kind inside.\<close>

definition admits :: "kind \<Rightarrow> shop \<Rightarrow> bool" where
  "admits r s \<longleftrightarrow> (r = Ninja \<and> pirateIn s = 0 \<and> ninjaIn s < teams (config s)) \<or>
     (r = Pirate \<and> ninjaIn s = 0 \<and> pirateIn s < teams (config s))"

lemma canEnter_state: "canEnter clock s = (k, s1) \<Longrightarrow> s1 = s \<or> s1 = s\<lparr>justChanged := 1\<rparr>"
  by (auto simp: canEnter_def Let_def split: if_splits option.splits)

lemma canEnter_sound:
  assumes "shop_inv s" "canEnter clock s = (k, s1)"
  shows "k = Ninja \<Longrightarrow> admits Ninja s" "k = Pirate \<Longrightarrow> admits Pirate s" "k = Both \<Longrightarrow> admits Ninja s \<and> admits Pirate s"
proof -
  note C = shop_counts [OF assms(1)]
  show "k = Ninja \<Longrightarrow> admits Ninja s" "k = Pirate \<Longrightarrow> admits Pirate s" "k = Both \<Longrightarrow> admits Ninja s \<and> admits Pirate s"
    using assms(2) C
    by (auto simp: canEnter_def admits_def Let_def dest!: check_line_kind split: if_splits option.splits)
qed

lemma first_ready_found:
  "k < length ts \<Longrightarrow> ts ! k = Ready \<Longrightarrow> \<exists>m < length ts. first_ready ts j = j + int m \<and> ts ! m = Ready"
proof (induction ts arbitrary: j k)
  case (Cons t ts)
  show ?case
  proof (cases "t = Ready")
    case True
    then show ?thesis by (intro exI [of _ 0]) simp
  next
    case False
    then obtain k' where "k = Suc k'" using Cons.prems by (cases k) auto
    then obtain m where "m < length ts" "first_ready ts (j + 1) = j + 1 + int m" "ts ! m = Ready"
      using Cons.IH [of k' "j + 1"] Cons.prems by auto
    then show ?thesis using False by (intro exI [of _ "Suc m"]) simp
  qed
qed simp

lemma card_inside: "counts_inv ps nI pI n \<Longrightarrow> int (card (inside ps)) = nI + pI"
proof -
  assume C: "counts_inv ps nI pI n"
  then have "inside ps = inside_of Ninja ps \<union> inside_of Pirate ps" by (auto simp: inside_of_def inside_def counts_inv_def)
  moreover have "inside_of Ninja ps \<inter> inside_of Pirate ps = {}" by (auto simp: inside_of_def)
  ultimately show ?thesis using C by (simp add: card_Un_disjoint counts_inv_def)
qed

lemma ready_team:
  assumes T: "teams_inv ps ts" and room: "card (inside ps) < length ts"
  shows "\<exists>k < length ts. ts ! k = Ready"
proof (rule ccontr)
  assume "\<not> (\<exists>k < length ts. ts ! k = Ready)"
  then have busy: "ts ! k = Busy" if "k < length ts" for k using that by (cases "ts ! k") auto
  have "int k \<in> (\<lambda>i. team (ps ! i)) ` inside ps" if k: "k < length ts" for k
  proof -
    obtain i where "i \<in> inside ps" "team (ps ! i) = int k" using T busy [OF k] k unfolding teams_inv_def by blast
    then show ?thesis by (metis image_eqI)
  qed
  then have "int ` {..<length ts} \<subseteq> (\<lambda>i. team (ps ! i)) ` inside ps" by blast
  then have "card (int ` {..<length ts}) \<le> card ((\<lambda>i. team (ps ! i)) ` inside ps)" by (intro card_mono) auto
  also have "\<dots> \<le> card (inside ps)" by (rule card_image_le) simp
  finally show False using room by (simp add: card_image)
qed

lemma teams_inv_enter:
  assumes T: "teams_inv ps ts" and i: "i < length ps" "\<not> in_shop (ps ! i)" and m: "m < length ts" "ts ! m = Ready"
    and q: "in_shop q" "team q = int m"
  shows "teams_inv (ps[i := q]) (ts[m := Busy])"
proof -
  have ins: "inside (ps[i := q]) = insert i (inside ps)" "i \<notin> inside ps" using i q by (simp_all add: inside_update) (simp add: inside_def)
  have tm: "team (ps[i := q] ! j) = (if j = i then int m else team (ps ! j))" for j using i q by auto
  have old: "0 \<le> team (ps ! j)" "team (ps ! j) < int (length ts)" "ts ! nat (team (ps ! j)) = Busy" if "j \<in> inside ps" for j
    using T that by (auto simp: teams_inv_def)
  have ne: "team (ps ! j) \<noteq> int m" if "j \<in> inside ps" for j using old [OF that] m by auto
  have inj: "inj_on (\<lambda>j. team (ps ! j)) (inside ps)" using T by (simp add: teams_inv_def)
  have "inj_on (\<lambda>j. team (ps[i := q] ! j)) (insert i (inside ps))"
  proof (rule inj_onI)
    fix j k assume "j \<in> insert i (inside ps)" "k \<in> insert i (inside ps)" "team (ps[i := q] ! j) = team (ps[i := q] ! k)"
    then show "j = k" using ne [of j] ne [of k] inj unfolding tm by (cases "j = i"; cases "k = i") (auto dest: inj_onD)
  qed
  moreover have "\<exists>j \<in> insert i (inside ps). team (ps[i := q] ! j) = int k"
    if k: "k < length ts" "ts[m := Busy] ! k = Busy" for k
  proof (cases "k = m")
    case True
    then show ?thesis by (intro bexI [of _ i]) (simp_all add: tm)
  next
    case False
    then obtain j where "j \<in> inside ps" "team (ps ! j) = int k" using T k unfolding teams_inv_def by auto
    then show ?thesis using ins(2) by (intro bexI [of _ j]) (auto simp: tm)
  qed
  ultimately show ?thesis
    using old m ne ins(2) unfolding teams_inv_def ins(1) tm by (auto simp: nth_list_update)
qed

lemma counts_inv_enter:
  assumes C: "counts_inv ps nI pI n" and i: "i < length ps" "\<not> in_shop (ps ! i)" and q: "in_shop q" "race q = race (ps ! i)"
  shows "race q = Ninja \<Longrightarrow> pI = 0 \<Longrightarrow> nI < n \<Longrightarrow> counts_inv (ps[i := q]) (nI + 1) pI n"
    and "race q = Pirate \<Longrightarrow> nI = 0 \<Longrightarrow> pI < n \<Longrightarrow> counts_inv (ps[i := q]) nI (pI + 1) n"
proof -
  have "i \<notin> inside_of k ps" for k using i by (auto simp: inside_of_def inside_def)
  then have cd: "card (inside_of k (ps[i := q])) = (if race q = k then Suc (card (inside_of k ps)) else card (inside_of k ps))" for k
    using i q by (auto simp: inside_of_update)
  have r: "\<forall>p \<in> set (ps[i := q]). race p = Ninja \<or> race p = Pirate"
    using C i q by (intro ball_update) (auto simp: counts_inv_def)
  show "race q = Ninja \<Longrightarrow> pI = 0 \<Longrightarrow> nI < n \<Longrightarrow> counts_inv (ps[i := q]) (nI + 1) pI n"
    and "race q = Pirate \<Longrightarrow> nI = 0 \<Longrightarrow> pI < n \<Longrightarrow> counts_inv (ps[i := q]) nI (pI + 1) n"
    using C cd r by (auto simp: counts_inv_def)
qed

lemma enter_shop_inv:
  assumes I: "shop_inv s" and i: "i < length (people s)" "pc (people s ! i) = AtDoor \<or> pc (people s ! i) = Woken"
    and adm: "admits (race (people s ! i)) s"
  shows "shop_inv (enter_shop i now s)"
proof -
  have C: "counts_inv (people s) (ninjaIn s) (pirateIn s) (teams (config s))" and T: "teams_inv (people s) (team_states s)"
    and len: "length (team_states s) = nat (teams (config s))" and M: "money_inv (people s) (revenue s)"
    and L: "line_inv (people s) (line s)"
    using I by (auto simp: shop_inv_def)
  have "int (card (inside (people s))) < teams (config s)"
    using card_inside [OF C] adm C by (auto simp: admits_def counts_inv_def)
  then have "card (inside (people s)) < length (team_states s)" using len by linarith
  then obtain m where m: "m < length (team_states s)" "first_ready (team_states s) 0 = int m" "team_states s ! m = Ready"
    using ready_team [OF T] len first_ready_found [of _ "team_states s" 0] by auto
  define q where "q = (people s ! i)\<lparr>wait := timeElapsed now (start (people s ! i)), team := int m, pc := Entered\<rparr>"
  have ni: "\<not> in_shop (people s ! i)" using i by (auto simp: in_shop_def)
  have q: "in_shop q" "team q = int m" "race q = race (people s ! i)" "pc q = Entered"
    "goldOwed q = goldOwed (people s ! i)" by (simp_all add: q_def in_shop_def)
  have e: "enter_shop i now s = (enterStore (race (people s ! i)) s)
      \<lparr>team_states := (team_states s)[m := Busy], people := (people s)[i := q]\<rparr>"
    using m by (simp add: enter_shop_def getCostumingTeam_def enterStore_def update_person_def q_def Let_def)
  have "account_ok q" using money_person [OF M i(1)] i by (auto simp: account_ok_def q_def)
  then have M': "money_inv ((people s)[i := q]) (revenue s)"
    using money_inv_update [OF M i(1), of q] q(5) by simp
  have g: "gone ((people s)[i := q]) = gone (people s)" using i q by (auto simp: gone_update, auto simp: gone_def)
  have L': "line_inv ((people s)[i := q]) (line s)" by (rule line_inv_update [OF L i(1)]) (use q in auto)
  note CC = counts_inv_enter [OF C i(1) ni q(1,3)] and TT = teams_inv_enter [OF T i(1) ni m(1,3) q(1,2)]
  show ?thesis
    unfolding e using I adm CC TT M' g L' q(3) by (auto simp: shop_inv_def enterStore_def admits_def)
qed

lemma try_enter_inv:
  assumes I: "shop_inv s" and i: "i < length (people s)" "pc (people s ! i) = AtDoor \<or> pc (people s ! i) = Woken"
  shows "shop_inv (try_enter i clock1 clock2 now s)"
proof -
  obtain k1 s1 where c1: "canEnter clock1 s = (k1, s1)" by (cases "canEnter clock1 s")
  obtain k2 s2 where c2: "canEnter clock2 s1 = (k2, s2)" by (cases "canEnter clock2 s1")
  have r: "race (people s ! i) = Ninja \<or> race (people s ! i) = Pirate" using I i by (auto simp: shop_inv_def counts_inv_def)
  have I1: "shop_inv s1" and p1: "people s1 = people s" using canEnter_state [OF c1] I by auto
  have I2: "shop_inv s2" and p2: "people s2 = people s" using canEnter_state [OF c2] I1 p1 by auto
  have same: "admits r s1 = admits r s" "admits r s2 = admits r s" for r
    using canEnter_state [OF c1] canEnter_state [OF c2] by (auto simp: admits_def)
  have "k1 = race (people s ! i) \<Longrightarrow> admits (race (people s1 ! i)) s1" using canEnter_sound [OF I c1] r p1 same by auto
  moreover have "k2 = Both \<Longrightarrow> admits (race (people s2 ! i)) s2" using canEnter_sound [OF I1 c2] r p2 same by auto
  ultimately show ?thesis
    using enter_shop_inv [OF I1] enter_shop_inv [OF I2] stay_outside_inv [OF I2] i p1 p2 c1 c2 by (simp add: try_enter_def)
qed

subsection \<open>Paying and leaving\<close>

lemma bill_inv:
  assumes I: "shop_inv s" and i: "i < length (people s)" "pc (people s ! i) = Costuming"
  obtains s' where "bill i s = Inr s'" "shop_inv s'"
proof -
  let ?p = "people s ! i" and ?t = "costumingTime (people s ! i)"
  have T: "teams_inv (people s) (team_states s)" and M: "money_inv (people s) (revenue s)" and L: "line_inv (people s) (line s)"
    and len: "length (time_teams_busy_for s) = length (team_states s)"
    using I by (auto simp: shop_inv_def)
  have "i \<in> inside (people s)" using i by (simp add: inside_def in_shop_def)
  then have tm: "0 \<le> team ?p" "team ?p < int (length (time_teams_busy_for s))" using T len by (auto simp: teams_inv_def)
  define b where "b = (time_teams_busy_for s)[nat (team ?p) :=
    time_teams_busy_for s ! nat (team ?p) + word_of_int (?t * 1000 * 1000)]"
  define q where "q = ?p\<lparr>goldOwed := (if wait ?p div 1000 < 30 then goldOwed ?p + ?t else goldOwed ?p), visits := visits ?p + 1,
    history := history ?p @ [\<lparr>visitTime = word_of_int ?t, waitTime = wait ?p\<rparr>], pc := Billed\<rparr>"
  define r where "r = (if wait ?p div 1000 < 30 then revenue s + word_of_int ?t else revenue s)"
  have e: "bill i s = Inr (s\<lparr>time_teams_busy_for := b, revenue := r, people := (people s)[i := q]\<rparr>)"
    using tm by (simp add: bill_def aget_def aset_def in_bounds_def update_person_def b_def q_def r_def Let_def)
  have role: "same_role ?p q" using i by (simp add: same_role_def in_shop_def q_def)
  have "account_ok q" using money_person [OF M i(1)] i by (simp add: account_ok_def q_def)
  then have M': "money_inv ((people s)[i := q]) r"
    using money_inv_update [OF M i(1), of q] by (simp add: q_def r_def split: if_splits)
  have g: "gone ((people s)[i := q]) = gone (people s)" using i by (auto simp: gone_update q_def, auto simp: gone_def)
  have L': "line_inv ((people s)[i := q]) (line s)" by (rule line_inv_update [OF L i(1)]) (auto simp: q_def in_shop_def)
  show ?thesis
    by (rule that [OF e]) (use I counts_inv_same [OF _ i(1) role] teams_inv_same [OF T i(1) role] M' g L' in
        \<open>simp add: shop_inv_def b_def\<close>)
qed

lemma teams_inv_leave:
  assumes T: "teams_inv ps ts" and i: "i < length ps" "in_shop (ps ! i)" and q: "\<not> in_shop q"
  shows "teams_inv (ps[i := q]) (ts[nat (team (ps ! i)) := Ready])"
proof -
  have ins: "inside (ps[i := q]) = inside ps - {i}" "i \<in> inside ps" using i q by (simp_all add: inside_update) (simp add: inside_def)
  have tm: "team (ps[i := q] ! j) = team (ps ! j)" if "j \<noteq> i" for j using that by simp
  have inj: "inj_on (\<lambda>j. team (ps ! j)) (inside ps)" using T by (simp add: teams_inv_def)
  have rng: "0 \<le> team (ps ! j)" "team (ps ! j) < int (length ts)" "ts ! nat (team (ps ! j)) = Busy" if "j \<in> inside ps" for j
    using T that by (auto simp: teams_inv_def)
  have ne: "nat (team (ps ! j)) \<noteq> nat (team (ps ! i))" if "j \<in> inside ps - {i}" for j
    using inj that ins(2) rng(1) [of j] rng(1) [of i] by (auto simp: eq_nat_nat_iff dest: inj_onD)
  have "inj_on (\<lambda>j. team (ps[i := q] ! j)) (inside ps - {i})"
    using inj by (auto simp: inj_on_def)
  moreover have "\<exists>j \<in> inside ps - {i}. team (ps[i := q] ! j) = int k"
    if b: "k < length ts" "ts[nat (team (ps ! i)) := Ready] ! k = Busy" for k
  proof -
    have k: "k \<noteq> nat (team (ps ! i))" using b rng [OF ins(2)] by auto
    then obtain j where j: "j \<in> inside ps" "team (ps ! j) = int k" using T b unfolding teams_inv_def by auto
    then have "j \<noteq> i" using k by auto
    then show ?thesis using j by (intro bexI [of _ j]) auto
  qed
  moreover have "ts[nat (team (ps ! i)) := Ready] ! nat (team (ps ! j)) = Busy" if "j \<in> inside ps - {i}" for j
    using ne [OF that] rng(3) [of j] that by (simp add: nth_list_update_neq [OF not_sym])
  ultimately show ?thesis using rng unfolding teams_inv_def ins(1) by auto
qed

lemma counts_inv_leave:
  assumes C: "counts_inv ps nI pI n" and i: "i < length ps" "in_shop (ps ! i)" and q: "\<not> in_shop q" "race q = race (ps ! i)"
  shows "if race q = Ninja then counts_inv (ps[i := q]) (nI - 1) pI n else counts_inv (ps[i := q]) nI (pI - 1) n"
proof -
  have r: "race q = Ninja \<or> race q = Pirate" using C i q by (auto simp: counts_inv_def)
  have mem: "i \<in> inside_of k ps \<longleftrightarrow> race q = k" for k using i q by (auto simp: inside_of_def inside_def)
  have cd: "int (card (inside_of k (ps[i := q]))) = (if race q = k then int (card (inside_of k ps)) - 1 else int (card (inside_of k ps)))" for k
  proof (cases "race q = k")
    case True
    then have "Suc (card (inside_of k ps - {i})) = card (inside_of k ps)" using mem by (intro card_Suc_Diff1) auto
    then show ?thesis using True i q by (simp add: inside_of_update)
  next
    case False
    then show ?thesis using mem i q by (simp add: inside_of_update)
  qed
  have rs: "\<forall>p \<in> set (ps[i := q]). race p = Ninja \<or> race p = Pirate"
    using C r by (intro ball_update) (auto simp: counts_inv_def)
  have "0 < card (inside_of (race q) ps)" using mem [of "race q"] by (auto simp: card_gt_0_iff)
  then show ?thesis using C cd rs r by (auto simp: counts_inv_def)
qed

lemma signal_commute:
  "k \<noteq> i \<Longrightarrow> update_person i f (cond_signal k s) = cond_signal k (update_person i f s)"
  by (simp add: update_person_def cond_signal_def list_update_swap)

lemma leave_shop_inv:
  assumes I: "shop_inv s" and i: "i < length (people s)" "pc (people s ! i) = Billed"
  obtains s' where "leave_shop i s = Inr s'" "shop_inv s'"
proof -
  let ?p = "people s ! i"
  have T: "teams_inv (people s) (team_states s)" and M: "money_inv (people s) (revenue s)" and L: "line_inv (people s) (line s)"
    and C: "counts_inv (people s) (ninjaIn s) (pirateIn s) (teams (config s))"
    using I by (auto simp: shop_inv_def)
  have ins: "i \<in> inside (people s)" "in_shop ?p" using i by (auto simp: inside_def in_shop_def)
  then have tm: "0 \<le> team ?p" "team ?p < int (length (team_states s))" using T by (auto simp: teams_inv_def)
  define q where "q = ?p\<lparr>pc := Outside\<rparr>"
  have q: "\<not> in_shop q" "race q = race ?p" "goldOwed q = goldOwed ?p" by (simp_all add: q_def in_shop_def)
  define l where "l = snd (delete_node_by_pointer i (line s))"
  have dl: "distinct (line s)" using L by (simp add: line_inv_def)
  have l: "set l = set (line s) - {i}" "distinct l"
    using shop_line.del_set [OF dl] shop_line.del_distinct [OF dl] by (simp_all add: l_def)
  define s4 where "s4 = (leaveStore (race ?p) s)\<lparr>team_states := (team_states s)[nat (team ?p) := Ready], line := l,
    people := (people s)[i := q]\<rparr>"
  have head: "k \<noteq> i \<and> k < length (people s)" if "l = k # r" for k r
    using l(1) that line_member [OF I] by auto
  have "leave_shop i s = Inr (case l of [] \<Rightarrow> s4 | k # _ \<Rightarrow> cond_signal k s4)"
  proof -
    have "update_person i (\<lambda>p. p\<lparr>pc := Outside\<rparr>) ((leaveStore (race ?p) s)\<lparr>team_states := (team_states s)[nat (team ?p) := Ready],
        line := l\<rparr>) = s4"
      by (simp add: s4_def update_person_def q_def leaveStore_def)
    then show ?thesis
      using tm head signal_commute
      by (auto simp: leave_shop_def releaseCostumingTeam_def aset_def in_bounds_def leaveStore_def l_def [symmetric] Let_def
          split: list.splits)
  qed
  moreover have "shop_inv s4"
  proof -
    have "account_ok q" using money_person [OF M i(1)] i by (simp add: account_ok_def q_def)
    then have "money_inv ((people s)[i := q]) (revenue s)" using money_inv_update [OF M i(1), of q] q(3) by simp
    moreover have "gone ((people s)[i := q]) = gone (people s)" using i by (auto simp: gone_update q_def, auto simp: gone_def)
    moreover have "line_inv ((people s)[i := q]) l"
      using L i l by (auto simp: line_inv_def nth_list_update q_def)
    ultimately show ?thesis
      using I counts_inv_leave [OF C i(1) ins(2) q(1,2)] teams_inv_leave [OF T i(1) ins(2) q(1)] q(2)
      by (auto simp: shop_inv_def s4_def leaveStore_def split: if_splits)
  qed
  moreover have "length (people s4) = length (people s)" by (simp add: s4_def)
  then have "shop_inv (case l of [] \<Rightarrow> s4 | k # _ \<Rightarrow> cond_signal k s4)"
    using \<open>shop_inv s4\<close> head signal_inv by (auto split: list.splits)
  ultimately show ?thesis by (intro that)
qed

lemma first_null_found:
  "\<exists>k < length pp. pp ! k = None \<Longrightarrow> \<exists>m < length pp. first_null pp j = Inr (j + int m) \<and> pp ! m = None"
proof (induction pp arbitrary: j)
  case (Cons x pp)
  show ?case
  proof (cases x)
    case None
    then show ?thesis by (intro exI [of _ 0]) simp
  next
    case (Some y)
    then have "\<exists>k < length pp. pp ! k = None" using Cons.prems by (auto simp: less_Suc_eq_0_disj)
    then obtain m where "m < length pp" "first_null pp (j + 1) = Inr (j + 1 + int m)" "pp ! m = None" using Cons.IH by blast
    then show ?thesis using Some by (intro exI [of _ "Suc m"]) simp
  qed
qed simp

lemma depart_inv:
  assumes I: "shop_inv s" and i: "i < length (people s)" "pc (people s ! i) = Outside"
  obtains s' where "depart i rnd s = Inr s'" "shop_inv s'"
proof (cases "rnd > 1 / 4 \<or> nextVisit (people s ! i)")
  case False
  then show ?thesis using that come_back_inv [OF I i] by (simp add: depart_def)
next
  case True
  let ?p = "people s ! i"
  have len: "length (persons s) = length (people s)" and cd: "card (taken (persons s)) = card (gone (people s))"
    and M: "money_inv (people s) (revenue s)" and L: "line_inv (people s) (line s)"
    using I by (auto simp: shop_inv_def)
  have ni: "i \<notin> gone (people s)" using i by (simp add: gone_def)
  have "gone (people s) \<subseteq> {..<length (people s)} - {i}" using ni by (auto simp: gone_def)
  then have "card (gone (people s)) \<le> card ({..<length (people s)} - {i})" by (rule card_mono [rotated]) simp
  then have "card (gone (people s)) < length (people s)" using i by simp
  then have "card (taken (persons s)) < card {..<length (persons s)}" using cd len by simp
  then have "\<not> {..<length (persons s)} \<subseteq> taken (persons s)" using card_mono [OF finite_sets(4)] not_less by blast
  then have "\<exists>k < length (persons s). persons s ! k = None" unfolding taken_def by (auto simp: subset_eq)
  then obtain m where m: "m < length (persons s)" "first_null (persons s) 0 = Inr (int m)" "persons s ! m = None"
    using first_null_found [of "persons s" 0] by auto
  define q where "q = ?p\<lparr>pc := Gone\<rparr>"
  define pp where "pp = (persons s)[m := Some (stats_of ?p)]"
  have e: "depart i rnd s = Inr (s\<lparr>persons := pp, people := (people s)[i := q]\<rparr>)"
    using True m by (simp add: depart_def aset_def in_bounds_def update_person_def q_def pp_def)
  have role: "same_role ?p q" using i by (simp add: same_role_def in_shop_def q_def)
  have "account_ok q" using money_person [OF M i(1)] i by (simp add: account_ok_def q_def)
  then have M': "money_inv ((people s)[i := q]) (revenue s)" using money_inv_update [OF M i(1), of q] by (simp add: q_def)
  have "taken pp = insert m (taken (persons s))" "m \<notin> taken (persons s)"
    using m by (auto simp: taken_def pp_def nth_list_update)
  moreover have "gone ((people s)[i := q]) = insert i (gone (people s))" using i by (simp add: gone_update q_def)
  ultimately have cd': "card (taken pp) = card (gone ((people s)[i := q]))" using cd ni by simp
  have "i \<notin> set (line s)" using L i by (auto simp: line_inv_def in_shop_def)
  then have L': "line_inv ((people s)[i := q]) (line s)" by (intro line_inv_update [OF L i(1)]) (auto simp: q_def)
  show ?thesis
    by (rule that [OF e]) (use I counts_inv_same [OF _ i(1) role] teams_inv_same [OF _ i(1) role] M' L' cd' len in
        \<open>simp add: shop_inv_def pp_def\<close>)
qed

subsection \<open>Reachable states\<close>

lemma step_inv: "step s s' \<Longrightarrow> shop_inv s \<Longrightarrow> shop_inv s'"
proof (induction rule: step.induct)
  case (Bill i s s')
  from bill_inv [OF Bill.prems Bill.hyps(1,2)] Bill.hyps(3) show ?case by (metis Inr_inject)
next
  case (Leave i s s')
  from leave_shop_inv [OF Leave.prems Leave.hyps(1,2)] Leave.hyps(3) show ?case by (metis Inr_inject)
next
  case (Depart i s rnd s')
  from depart_inv [OF Depart.prems Depart.hyps(1,2)] Depart.hyps(3) show ?case by (metis Inr_inject)
qed (simp_all add: arrive_inv try_enter_inv begin_costuming_inv wake_inv)

lemma parse_args_bounds:
  "parse_args argv = Some cf \<Longrightarrow> 2 \<le> teams cf \<and> teams cf \<le> 4 \<and> 10 \<le> ninjas cf \<and> ninjas cf \<le> 50 \<and> 10 \<le> pirates cf \<and> pirates cf \<le> 50"
  by (auto simp: parse_args_def split: list.splits if_splits)

lemma open_people:
  "p \<in> set (people (open_shop cf)) \<Longrightarrow> (race p = Ninja \<or> race p = Pirate) \<and> pc p = Home \<and> goldOwed p = 0 \<and> account_ok p"
  by (auto simp: open_shop_def new_person_def account_ok_def split: if_splits)

lemma open_inv:
  assumes "parse_args argv = Some cf"
  shows "shop_inv (open_shop cf)"
proof -
  let ?ps = "people (open_shop cf)"
  note B = parse_args_bounds [OF assms] and P = open_people [of _ cf]
  have none: "inside ?ps = {}" "inside_of k ?ps = {}" "gone ?ps = {}" for k
    using P nth_mem by (fastforce simp: inside_def inside_of_def gone_def in_shop_def)+
  have "sum_list (map goldOwed ?ps) = 0"
    using P by (simp add: sum_list_0 map_idI cong: map_cong)
  then have "money_inv ?ps 0" using P by (simp add: money_inv_def)
  moreover have "line_inv ?ps []" using P nth_mem by (fastforce simp: line_inv_def)
  moreover have "length (persons (open_shop cf)) = length ?ps" using B by (simp add: open_shop_def nat_add_distrib)
  moreover have "taken (persons (open_shop cf)) = {}" by (auto simp: taken_def open_shop_def)
  moreover have "teams_inv ?ps (replicate (nat (teams cf)) Ready)" by (auto simp: teams_inv_def none)
  moreover have "counts_inv ?ps 0 0 (teams cf)" using P B by (simp add: counts_inv_def none)
  ultimately show ?thesis using B none by (simp add: shop_inv_def) (simp add: open_shop_def)
qed

lemma reachable_inv: "reachable s \<Longrightarrow> shop_inv s"
  by (induction rule: reachable.induct) (auto simp: open_inv step_inv)

section \<open>Properties\<close>

lemma busy_count: "teams_inv ps ts \<Longrightarrow> card {k. k < length ts \<and> ts ! k = Busy} = card (inside ps)"
proof -
  assume T: "teams_inv ps ts"
  have "int ` {k. k < length ts \<and> ts ! k = Busy} = (\<lambda>i. team (ps ! i)) ` inside ps"
  proof (intro subset_antisym subsetI)
    fix x assume "x \<in> int ` {k. k < length ts \<and> ts ! k = Busy}"
    then obtain k i where "x = int k" "i \<in> inside ps" "team (ps ! i) = int k" using T unfolding teams_inv_def by auto
    then show "x \<in> (\<lambda>i. team (ps ! i)) ` inside ps" by (metis image_eqI)
  next
    fix x assume "x \<in> (\<lambda>i. team (ps ! i)) ` inside ps"
    then obtain i where i: "i \<in> inside ps" "x = team (ps ! i)" by auto
    then have "x = int (nat x)" "nat x < length ts" "ts ! nat x = Busy" using T unfolding teams_inv_def by auto
    then show "x \<in> int ` {k. k < length ts \<and> ts ! k = Busy}" by blast
  qed
  then have "card (int ` {k. k < length ts \<and> ts ! k = Busy}) = card (inside ps)"
    using T card_image [of "\<lambda>i. team (ps ! i)" "inside ps"] by (simp add: teams_inv_def)
  then show ?thesis by (simp add: card_image)
qed

text \<open>C4: the shop never holds a ninja and a pirate at the same time and never more people than it has
  teams, in any interleaving, whatever the clock shows; the counters say exactly who is inside.\<close>

theorem shop_never_mixed:
  assumes "reachable s"
  shows "(inside_of Ninja (people s) = {} \<or> inside_of Pirate (people s) = {}) \<and>
    inside (people s) = inside_of Ninja (people s) \<union> inside_of Pirate (people s) \<and>
    int (card (inside (people s))) \<le> teams (config s) \<and>
    ninjaIn s = int (card (inside_of Ninja (people s))) \<and> pirateIn s = int (card (inside_of Pirate (people s)))"
proof -
  have C: "counts_inv (people s) (ninjaIn s) (pirateIn s) (teams (config s))"
    using reachable_inv [OF assms] by (simp add: shop_inv_def)
  moreover have "inside (people s) = inside_of Ninja (people s) \<union> inside_of Pirate (people s)"
    using C by (auto simp: inside_of_def inside_def counts_inv_def)
  ultimately show ?thesis using card_inside [OF C] by (auto simp: counts_inv_def)
qed

text \<open>A run for the witnesses: the first ninja arrives and enters.\<close>

definition example_args :: "string list" where
  "example_args = [''pvn'', ''2'', ''10'', ''10'', ''5'', ''5'', ''1'', ''1'']"

definition example_config :: config where
  "example_config = \<lparr>teams = 2, ninjas = 10, pirates = 10, nAvgCostume = 5, pAvgCostume = 5, nAvgArrive = 1, pAvgArrive = 1\<rparr>"

lemma example_parse: "parse_args example_args = Some example_config"
  by code_simp

definition example_shop :: shop where
  "example_shop = try_enter 0 (\<lambda>_. 7) (\<lambda>_. 7) 7 (arrive 0 5 (open_shop example_config))"

lemma example_reachable: "reachable example_shop"
proof -
  let ?s0 = "open_shop example_config"
  have r0: "reachable ?s0" by (rule reachable.Open [OF example_parse])
  have p0: "length (people ?s0) = 20" "people ?s0 ! 0 = new_person Ninja"
    by (simp_all add: open_shop_def example_config_def nth_append)
  have "step ?s0 (arrive 0 5 ?s0)" by (rule step.Arrive) (simp_all add: p0, simp add: new_person_def)
  moreover have "step (arrive 0 5 ?s0) example_shop"
    unfolding example_shop_def by (rule step.Try) (simp_all add: arrive_def update_person_def p0)
  ultimately show ?thesis using r0 reachable.Step by blast
qed

lemma example_entered:
  "length (people example_shop) = 20" "ninjaIn example_shop = 1"
  "people example_shop ! 0 = (new_person Ninja)\<lparr>start := 5, wait := 2, team := 0, pc := Entered\<rparr>"
  by (simp_all add: example_shop_def try_enter_def canEnter_def enter_shop_def enterStore_def getCostumingTeam_def
      arrive_def update_person_def open_shop_def example_config_def new_person_def timeElapsed_def numeral_eq_Suc)

theorem shop_never_mixed_witness:
  "card (inside_of Ninja (people example_shop)) = 1 \<and> inside_of Pirate (people example_shop) = {}"
  using shop_never_mixed [OF example_reachable] example_entered(2) by (auto simp: card_eq_0_iff)

text \<open>C13: everyone inside has a team of their own: team numbers of people inside are valid and
  different, their teams are marked busy, and no other team is.\<close>

theorem teams_exclusive:
  assumes "reachable s"
  shows "inj_on (\<lambda>i. team (people s ! i)) (inside (people s)) \<and>
    (\<forall>i \<in> inside (people s). 0 \<le> team (people s ! i) \<and> team (people s ! i) < teams (config s) \<and>
       team_states s ! nat (team (people s ! i)) = Busy) \<and>
    card {k. k < length (team_states s) \<and> team_states s ! k = Busy} = card (inside (people s))"
proof -
  have T: "teams_inv (people s) (team_states s)" and "int (length (team_states s)) = teams (config s)"
    using reachable_inv [OF assms] by (auto simp: shop_inv_def)
  then show ?thesis using busy_count [OF T] unfolding teams_inv_def by auto
qed

theorem teams_exclusive_witness: "team_states example_shop ! 0 = Busy"
proof -
  have "0 \<in> inside (people example_shop)" using example_entered by (simp add: inside_def in_shop_def)
  then show ?thesis using teams_exclusive [OF example_reachable] example_entered(3) by fastforce
qed

text \<open>No step of a person leaves an array: the team given back and the time account exist, and there
  is a free place for the statistics of everyone who goes home.\<close>

theorem shop_steps_safe:
  assumes "reachable s" "i < length (people s)"
  shows "(pc (people s ! i) = Costuming \<longrightarrow> (\<exists>s'. bill i s = Inr s')) \<and>
    (pc (people s ! i) = Billed \<longrightarrow> (\<exists>s'. leave_shop i s = Inr s')) \<and>
    (pc (people s ! i) = Outside \<longrightarrow> (\<exists>s'. depart i rnd s = Inr s'))"
proof -
  note I = reachable_inv [OF assms(1)]
  show ?thesis using bill_inv [OF I assms(2)] leave_shop_inv [OF I assms(2)] depart_inv [OF I assms(2), of rnd] by metis
qed

theorem shop_steps_safe_witness:
  "reachable (begin_costuming 0 0 example_shop) \<and> (\<exists>s'. bill 0 (begin_costuming 0 0 example_shop) = Inr s')"
proof -
  have "step example_shop (begin_costuming 0 0 example_shop)"
    by (rule step.Begin) (simp_all add: example_entered)
  then have r: "reachable (begin_costuming 0 0 example_shop)" using example_reachable reachable.Step by blast
  have "0 < length (people (begin_costuming 0 0 example_shop))"
    "pc (people (begin_costuming 0 0 example_shop) ! 0) = Costuming"
    using example_entered(1) by (simp_all add: begin_costuming_def update_person_def)
  then show ?thesis using r shop_steps_safe [OF r] by blast
qed



lemma add_visits_eq:
  "add_visits vs t = t\<lparr>numOfVisits := numOfVisits t + int (length vs),
     totalWaitTime := totalWaitTime t + sum_list (map waitTime vs)\<rparr>"
  by (induction vs arbitrary: t) simp_all

lemma summarize_full:
  "\<forall>x \<in> set pp. x \<noteq> None \<Longrightarrow> \<exists>t'. summarize pp t = Inr t' \<and>
     ninjaCounter t' + pirateCounter t' = ninjaCounter t + pirateCounter t + int (length pp) \<and>
     numOfVisits t' = numOfVisits t + sum_list (map (\<lambda>x. int (length (ps_head (the x)))) pp) \<and>
     totalWaitTime t' = totalWaitTime t + sum_list (map (\<lambda>x. sum_list (map waitTime (ps_head (the x)))) pp)"
proof (induction pp arbitrary: t)
  case (Cons x pp)
  then obtain p where x: "x = Some p" by auto
  define t1 where "t1 = (if ps_race p = Ninja then t\<lparr>ninjaCounter := ninjaCounter t + 1\<rparr> else t\<lparr>pirateCounter := pirateCounter t + 1\<rparr>)"
  have "summarize (x # pp) t = summarize pp (add_visits (ps_head p) t1)" by (simp add: x t1_def)
  moreover have "ninjaCounter t1 + pirateCounter t1 = ninjaCounter t + pirateCounter t + 1" "numOfVisits t1 = numOfVisits t"
    "totalWaitTime t1 = totalWaitTime t" by (simp_all add: t1_def)
  ultimately show ?case using Cons.IH [of "add_visits (ps_head p) t1"] Cons.prems x by (auto simp: add_visits_eq)
qed simp

text \<open>One visit to an empty shop, from home to the end, with nobody else acting.\<close>

definition alone :: "shop \<Rightarrow> nat \<Rightarrow> pc \<Rightarrow> shop \<Rightarrow> bool" where
  "alone s i c s' \<longleftrightarrow> reachable s' \<and> line s' = [] \<and> length (people s') = length (people s) \<and>
     (\<forall>j. j \<noteq> i \<longrightarrow> people s' ! j = people s ! j) \<and> pc (people s' ! i) = c"

lemma alone_step: "alone s i c s1 \<Longrightarrow> step s1 s2 \<Longrightarrow> line s2 = [] \<Longrightarrow> length (people s2) = length (people s1) \<Longrightarrow>
   (\<And>j. j \<noteq> i \<Longrightarrow> people s2 ! j = people s1 ! j) \<Longrightarrow> pc (people s2 ! i) = c' \<Longrightarrow> alone s i c' s2"
  by (auto simp: alone_def intro: reachable.Step)

lemma canEnter_empty:
  assumes "shop_inv s" "inside (people s) = {}" "line s = []"
  shows "canEnter clock s = (Both, s\<lparr>justChanged := 1\<rparr>)"
proof -
  have "ninjaIn s = 0" "pirateIn s = 0" using assms(1,2) by (auto simp: shop_inv_def counts_inv_def inside_of_def)
  then show ?thesis using assms(3) shop_counts(6) [OF assms(1)] by (simp add: canEnter_def)
qed

lemma alone_enter:
  assumes "alone s i AtDoor s1" "i < length (people s)" "inside (people s1) = {}"
  shows "\<exists>s2. alone s i Entered s2"
proof -
  have I: "shop_inv s1" using assms(1) reachable_inv by (simp add: alone_def)
  have l: "i < length (people s1)" "line s1 = []" "pc (people s1 ! i) = AtDoor" using assms(1,2) by (auto simp: alone_def)
  have "people s1 ! i \<in> set (people s1)" using l by simp
  then have r: "race (people s1 ! i) \<noteq> Both" using I unfolding shop_inv_def counts_inv_def by fastforce
  note c = canEnter_empty [OF I assms(3) l(2)]
  have I1: "shop_inv (s1\<lparr>justChanged := 1\<rparr>)" using I by simp
  have "canEnter (\<lambda>_. 0) (s1\<lparr>justChanged := 1\<rparr>) = (Both, s1\<lparr>justChanged := 1\<rparr>)"
    using canEnter_empty [OF I1] assms(3) l(2) by simp
  then have "try_enter i (\<lambda>_. 0) (\<lambda>_. 0) 0 s1 = enter_shop i 0 (s1\<lparr>justChanged := 1\<rparr>)" using c r by (simp add: try_enter_def)
  then have "step s1 (enter_shop i 0 (s1\<lparr>justChanged := 1\<rparr>))" using step.Try [of i s1 "\<lambda>_. 0" "\<lambda>_. 0" 0] l by simp
  then have "alone s i Entered (enter_shop i 0 (s1\<lparr>justChanged := 1\<rparr>))"
    by (rule alone_step [OF assms(1)])
       (use l in \<open>simp_all add: enter_shop_def getCostumingTeam_def enterStore_def update_person_def Let_def\<close>)
  then show ?thesis ..
qed

lemma alone_rest:
  assumes "alone s i Entered s1" "i < length (people s)"
  shows "\<exists>s2. alone s i Gone s2"
proof -
  have l: "i < length (people s1)" "line s1 = []" "pc (people s1 ! i) = Entered" using assms by (auto simp: alone_def)
  let ?s2 = "begin_costuming i 0 s1"
  have "step s1 ?s2" by (rule step.Begin) (use l in auto)
  then have 2: "alone s i Costuming ?s2"
    by (rule alone_step [OF assms(1)]) (use l in \<open>simp_all add: begin_costuming_def update_person_def signal_next_def\<close>)
  have I2: "shop_inv ?s2" and l2: "i < length (people ?s2)" "pc (people ?s2 ! i) = Costuming"
    using 2 assms(2) reachable_inv by (auto simp: alone_def)
  obtain s3 where s3: "bill i ?s2 = Inr s3" by (rule bill_inv [OF I2 l2])
  have 3: "alone s i Billed s3"
    by (rule alone_step [OF 2 step.Bill [OF l2 s3]])
       (use s3 2 l2 in \<open>auto simp: bill_def update_person_def Let_def alone_def\<close>)
  have I3: "shop_inv s3" and l3: "i < length (people s3)" "pc (people s3 ! i) = Billed" "line s3 = []"
    using 3 assms(2) reachable_inv by (auto simp: alone_def)
  obtain s4 where s4: "leave_shop i s3 = Inr s4" by (rule leave_shop_inv [OF I3 l3(1,2)])
  have 4: "alone s i Outside s4"
    by (rule alone_step [OF 3 step.Leave [OF l3(1,2) s4]])
       (use s4 l3 in \<open>auto simp: leave_shop_def releaseCostumingTeam_def leaveStore_def delete_node_by_pointer_def update_person_def Let_def\<close>)
  have I4: "shop_inv s4" and l4: "i < length (people s4)" "pc (people s4 ! i) = Outside" "line s4 = []"
    using 4 assms(2) reachable_inv by (auto simp: alone_def)
  obtain s5 where s5: "depart i 1 s4 = Inr s5" by (rule depart_inv [OF I4 l4(1,2), of 1])
  have "alone s i Gone s5"
    by (rule alone_step [OF 4 step.Depart [OF l4(1,2) s5]]) (use s5 l4 in \<open>auto simp: depart_def update_person_def\<close>)
  then show ?thesis ..
qed

lemma alone_visit:
  assumes "reachable s" "line s = []" "inside (people s) = {}" "i < length (people s)" "pc (people s ! i) = Home"
  shows "\<exists>s'. alone s i Gone s'"
proof -
  have "step s (arrive i 0 s)" by (rule step.Arrive) (use assms in auto)
  then have a: "alone s i AtDoor (arrive i 0 s)"
    using assms reachable.Step by (auto simp: alone_def arrive_def update_person_def)
  have "inside (people (arrive i 0 s)) = {}"
    using assms by (simp add: arrive_def update_person_def inside_update in_shop_def)
  then show ?thesis using alone_enter [OF a assms(4)] alone_rest assms(4) by blast
qed

lemma all_served:
  assumes "parse_args argv = Some cf"
  shows "\<exists>s. reachable s \<and> line s = [] \<and> length (people s) = nat (ninjas cf) + nat (pirates cf) \<and>
    (\<forall>p \<in> set (people s). pc p = Gone)"
proof -
  let ?n = "length (people (open_shop cf))"
  have "\<exists>s. reachable s \<and> line s = [] \<and> length (people s) = ?n \<and>
      (\<forall>i < ?n. pc (people s ! i) = (if i < k then Gone else Home))" if "k \<le> ?n" for k
    using that
  proof (induction k)
    case 0
    have "pc (people (open_shop cf) ! i) = Home" if "i < ?n" for i using open_people [of _ cf] nth_mem [OF that] by blast
    then show ?case using reachable.Open [OF assms] by (intro exI [of _ "open_shop cf"]) (simp add: open_shop_def)
  next
    case (Suc k)
    then obtain s where s: "reachable s" "line s = []" "length (people s) = ?n"
      "\<forall>i < ?n. pc (people s ! i) = (if i < k then Gone else Home)" by auto
    have "inside (people s) = {}" using s(3,4) by (auto simp: inside_def in_shop_def split: if_splits)
    then obtain s' where "alone s k Gone s'" using alone_visit [OF s(1,2) _, of k] s(3,4) Suc.prems by auto
    then show ?case using s(3,4) by (intro exI [of _ s']) (auto simp: alone_def less_Suc_eq)
  qed
  from this [of ?n] obtain s where "reachable s" "line s = []" "length (people s) = ?n" "\<forall>i < ?n. pc (people s ! i) = Gone"
    by auto
  then show ?thesis by (intro exI [of _ s]) (auto simp: in_set_conv_nth, simp add: open_shop_def)
qed

text \<open>C12: everyone can be served: from opening time there is a run, whatever the arguments, at whose end all
  ninjas and pirates have been in the shop and are gone, with an empty line.\<close>

theorem everyone_can_be_served:
  assumes "parse_args argv = Some cf"
  shows "\<exists>s. reachable s \<and> line s = [] \<and> length (people s) = nat (ninjas cf) + nat (pirates cf) \<and>
    (\<forall>p \<in> set (people s). pc p = Gone)"
  by (rule all_served [OF assms])

theorem everyone_can_be_served_witness:
  "\<exists>s. reachable s \<and> line s = [] \<and> length (people s) = 20 \<and> (\<forall>p \<in> set (people s). pc p = Gone)"
  using everyone_can_be_served [OF example_parse] by (simp add: example_config_def)

text \<open>When every thread has finished, \<^verbatim>\<open>main\<close> finds the statistics of everyone: its loop over the places
  never meets a null pointer, counts each person once, and totals the visits and the waiting times of the
  visit lists.\<close>

theorem summary_complete:
  assumes "reachable s" "\<forall>p \<in> set (people s). pc p = Gone"
  shows "\<exists>t. summarize (persons s) no_totals = Inr t \<and> ninjaCounter t + pirateCounter t = int (length (people s)) \<and>
    numOfVisits t = sum_list (map (\<lambda>x. int (length (ps_head (the x)))) (persons s)) \<and>
    totalWaitTime t = sum_list (map (\<lambda>x. sum_list (map waitTime (ps_head (the x)))) (persons s))"
proof -
  have I: "shop_inv s" by (rule reachable_inv [OF assms(1)])
  have "gone (people s) = {..<length (people s)}" using assms(2) by (auto simp: gone_def)
  then have cd: "card (taken (persons s)) = length (persons s)" using I by (simp add: shop_inv_def)
  have "taken (persons s) = {..<length (persons s)}" 
    by (rule card_subset_eq) (simp_all add: cd, simp add: taken_def subset_eq)
  then have "persons s ! k \<noteq> None" if "k < length (persons s)" for k
    using that unfolding taken_def by blast
  then have "\<forall>x \<in> set (persons s). x \<noteq> None" by (auto simp: in_set_conv_nth)
  then show ?thesis using summarize_full [of "persons s" no_totals] I by (simp add: no_totals_def shop_inv_def)
qed

lemma served_run: "\<exists>s. reachable s \<and> length (people s) = 20 \<and> (\<forall>p \<in> set (people s). pc p = Gone)"
  using all_served [OF example_parse] by (simp add: example_config_def) blast

theorem summary_complete_witness:
  "\<exists>s t. reachable s \<and> summarize (persons s) no_totals = Inr t \<and> ninjaCounter t + pirateCounter t = 20"
  using served_run summary_complete by fastforce

end
