(* ===== verification/Shop_Policy.thy ===== *)
theory Shop_Policy
  imports Costume_Shop
begin

text \<open>
  The admission policy of the costume shop, its command line, the unused list operation, the random
  times, and the run in which a wake-up is lost.
\<close>

lemma check_line_skip:
  "\<forall>j \<in> set l1. \<not> (race (ps ! j) = Ninja \<and> waited_too_long (pAvgCostume cf) (timeElapsed (clock j) (start (ps ! j)))) \<and>
     \<not> (race (ps ! j) = Pirate \<and> waited_too_long (nAvgCostume cf) (timeElapsed (clock j) (start (ps ! j)))) \<Longrightarrow>
   check_line cf ps clock cur (l1 @ l2) = check_line cf ps clock cur l2"
  by (induction l1) (auto simp: Let_def)

text \<open>The rule against starvation. Let the first in line who has waited too long for its kind be a pirate.
  Then ninjas are kept out: while ninjas are inside and the shop has not just changed over, nobody is
  admitted; when the shop is empty, only pirates are; while there are pirates inside and a team is left,
  pirates are.\<close>

theorem waiting_pirate_blocks_ninjas:
  assumes l: "line s = l1 @ i # l2" and p: "race (people s ! i) = Pirate"
    and long: "waited_too_long (nAvgCostume (config s)) (timeElapsed (clock i) (start (people s ! i)))"
    and first: "\<forall>j \<in> set l1.
      \<not> (race (people s ! j) = Ninja \<and> waited_too_long (pAvgCostume (config s)) (timeElapsed (clock j) (start (people s ! j)))) \<and>
      \<not> (race (people s ! j) = Pirate \<and> waited_too_long (nAvgCostume (config s)) (timeElapsed (clock j) (start (people s ! j))))"
    and room: "ninjaIn s \<noteq> teams (config s)" "pirateIn s \<noteq> teams (config s)"
  shows "(ninjaIn s > 0 \<and> justChanged s = 0 \<longrightarrow> fst (canEnter clock s) = NoKind) \<and>
    (ninjaIn s = 0 \<and> pirateIn s \<ge> 0 \<longrightarrow> fst (canEnter clock s) = Pirate)"
proof -
  have "check_line (config s) (people s) clock cur (line s) = Some (if cur = 0 \<or> cur = 2 then Pirate else NoKind)" for cur
    unfolding l check_line_skip [OF first] using p long by (simp add: Let_def)
  then show ?thesis using room by (auto simp: canEnter_def Let_def)
qed

definition policy_shop :: shop where
  "policy_shop = (open_shop example_config)\<lparr>ninjaIn := 1, line := [10], people :=
     (people (open_shop example_config))[10 := (new_person Pirate)\<lparr>start := 0, pc := Waiting\<rparr>]\<rparr>"

theorem waiting_pirate_blocks_ninjas_witness: "fst (canEnter (\<lambda>_. 22501) policy_shop) = NoKind"
proof -
  have p: "people policy_shop ! 10 = (new_person Pirate)\<lparr>start := 0, pc := Waiting\<rparr>"
    by (simp add: policy_shop_def open_shop_def example_config_def)
  show ?thesis
    using waiting_pirate_blocks_ninjas [of policy_shop "[]" 10 "[]" "\<lambda>_. 22501"]
    by (simp add: p) (simp add: policy_shop_def open_shop_def example_config_def new_person_def waited_too_long_def timeElapsed_def)
qed

text \<open>The command line. Exactly eight words are accepted, with 2 to 4 teams and 10 to 50 persons of each
  kind; the second number counts the ninjas and the third the pirates.\<close>

theorem parse_args_spec:
  "parse_args argv = Some cf \<longleftrightarrow>
   length argv = 8 \<and> teams cf = atoi (argv ! 1) \<and> ninjas cf = atoi (argv ! 2) \<and> pirates cf = atoi (argv ! 3) \<and>
   nAvgCostume cf = atoi (argv ! 4) \<and> pAvgCostume cf = atoi (argv ! 5) \<and> nAvgArrive cf = atoi (argv ! 6) \<and>
   pAvgArrive cf = atoi (argv ! 7) \<and> teams cf \<in> {2..4} \<and> ninjas cf \<in> {10..50} \<and> pirates cf \<in> {10..50} \<and>
   list_all number_arg (drop 4 argv)"
proof (cases "length argv = 8")
  case True
  then obtain a0 a1 a2 a3 a4 a5 a6 a7 where a: "argv = [a0, a1, a2, a3, a4, a5, a6, a7]"
    by (auto simp: length_Suc_conv numeral_eq_Suc)
  show ?thesis by (cases cf) (auto simp: a parse_args_def)
next
  case False
  then have "parse_args argv = None" by (auto simp: parse_args_def split: list.splits)
  then show ?thesis using False by simp
qed

text \<open>\<^verbatim>\<open>delete_node\<close> with an index of the line removes the node there and says so; with an index beyond
  the end it changes nothing and returns 0; with a negative index it removes the second node.\<close>

theorem delete_node_spec:
  "delete_node index l =
     (if 0 \<le> index \<and> index < int (length l) then (1, take (nat index) l @ drop (Suc (nat index)) l)
      else if index < 0 \<and> 2 \<le> length l then (1, take 1 l @ drop 2 l)
      else (0, l))"
  by (cases l; cases "index = 0") (auto simp: delete_node_def Let_def nat_diff_distrib Suc_nat_eq_nat_zadd1 numeral_2_eq_2)

lemma scaled_time_nonneg: "0 \<le> scaled_time z deviation avg"
proof -
  have "0 \<le> (if x < 0 then 0 else \<lceil>x\<rceil>)" for x :: real by (simp add: zero_le_ceiling)
  then show ?thesis unfolding scaled_time_def Let_def .
qed

text \<open>The random times are never negative, so the threads never sleep for a negative time and no one is
  charged a negative amount; a draw of zero gives the average.\<close>

theorem times_nonnegative:
  "0 \<le> generateTimeBeforeArrival cf z r \<and> 0 \<le> generateCostumingTime cf z r \<and>
   generateCostumingTime cf 0 Ninja = max 0 (nAvgCostume cf) \<and> generateTimeBeforeArrival cf 0 Pirate = max 0 (pAvgArrive cf)"
  by (simp add: generateTimeBeforeArrival_def generateCostumingTime_def scaled_time_nonneg)
     (simp add: scaled_time_def)

section \<open>A lost wake-up\<close>

text \<open>Runs as lists of actions, for evaluation.\<close>

datatype action =
    ArriveA nat ull
  | TryA nat ull
  | BeginA nat
  | BillA nat
  | LeaveA nat

fun perform :: "action \<Rightarrow> shop \<Rightarrow> shop option" where
  "perform (ArriveA i now) s = (if i < length (people s) \<and> pc (people s ! i) = Home then Some (arrive i now s) else None)"
| "perform (TryA i now) s =
     (if i < length (people s) \<and> (pc (people s ! i) = AtDoor \<or> pc (people s ! i) = Woken)
      then Some (try_enter i (\<lambda>_. now) (\<lambda>_. now) now s) else None)"
| "perform (BeginA i) s = (if i < length (people s) \<and> pc (people s ! i) = Entered then Some (begin_costuming i 0 s) else None)"
| "perform (BillA i) s =
     (if i < length (people s) \<and> pc (people s ! i) = Costuming then (case bill i s of Inr s' \<Rightarrow> Some s' | Inl _ \<Rightarrow> None) else None)"
| "perform (LeaveA i) s =
     (if i < length (people s) \<and> pc (people s ! i) = Billed then (case leave_shop i s of Inr s' \<Rightarrow> Some s' | Inl _ \<Rightarrow> None) else None)"

fun perform_all :: "action list \<Rightarrow> shop \<Rightarrow> shop option" where
  "perform_all [] s = Some s"
| "perform_all (a # as) s = (case perform a s of Some s' \<Rightarrow> perform_all as s' | None \<Rightarrow> None)"

lemma perform_step: "perform a s = Some s' \<Longrightarrow> step s s'"
  by (cases a) (auto split: if_splits sum.splits intro: step.intros)

lemma perform_all_reachable: "perform_all as s = Some s' \<Longrightarrow> reachable s \<Longrightarrow> reachable s'"
  by (induction as arbitrary: s) (auto split: option.splits dest: perform_step intro: reachable.Step)

text \<open>
  Two pirates fill the shop; ninja 0 and pirate 10 line up, the pirate having come to the door first but
  second to the lock. The shop empties and ninja 0 is signalled. It looks at the line at the moment when the
  pirate has waited too long and it has not, so it passes the signal on; the pirate looks when the ninja, who
  is first in line, has waited too long as well.
\<close>

definition lost_run :: "action list" where
  "lost_run = [ArriveA 11 0, TryA 11 0, ArriveA 12 0, TryA 12 0, ArriveA 10 5, ArriveA 0 10, TryA 0 11, TryA 10 12,
     BeginA 11, BeginA 12, BillA 11, BillA 12, LeaveA 11, LeaveA 12, TryA 0 22506, TryA 10 22511]"

declare scaled_time_def [code del]

lemma scaled_time_code [code]: "scaled_time z deviation avg = (if z = 0 then max 0 avg else
   (let ret = z * of_int deviation + of_int avg in if ret < 0 then 0 else \<lceil>ret\<rceil>))"
  by (simp add: scaled_time_def)

lemma lost_run_result:
  "map_option (\<lambda>s. (ninjaIn s, pirateIn s, line s, map pc (people s))) (perform_all lost_run (open_shop example_config)) =
   Some (0, 0, [0, 10], Waiting # replicate 9 Home @ [Waiting, Outside, Outside] @ replicate 7 Home)"
  by code_simp


end
