(* ===== verification/Commander.thy ===== *)
theory Commander
  imports Prelude
begin

text \<open>
  Mid-Day Commander, version 2 (src/project-1/v2/main.c): a menu of commands, three built in and up
  to a hundred slots for the user's own, read from standard input; commands run in a child process,
  in the background when they end with an ampersand.

  Standard input is the list of characters still to be read. A child process is an event with its
  argument vector; what the system measures while it runs (clock and page faults) is the parameter
  \<open>env\<close> of the operations; \<^verbatim>\<open>execvp\<close> is taken to succeed. An access outside an array and a use of an unset
  character are faults. The \<^verbatim>\<open>while\<close> loop that splits a command into arguments does not end when there
  are too many; an operation that waits for such a child is \<open>Stuck\<close>.
\<close>

section \<open>State\<close>

type_synonym ull = "64 word"

datatype event =
    Greeting
  | Menu "string list"
  | NotAnOption
  | Title string
  | Prompt string
  | TooManyCommands
  | Exec "string list"
  | Stats int int int
  | ChangedDir string
  | Process int int string
  | Added int
  | Background string
  | LoggedOut

record commander =
  entries :: "string option list"
  stream :: string
  log :: "event list"

definition COMMAND_CHAR_LIMIT :: nat where "COMMAND_CHAR_LIMIT = 1000"
definition COMMAND_LIMIT :: nat where "COMMAND_LIMIT = 100"

definition put :: "event \<Rightarrow> commander \<Rightarrow> commander" where
  "put e s = s\<lparr>log := log s @ [e]\<rparr>"

datatype outcome = Continue | Exit | Stuck

section \<open>Reading\<close>

definition newline :: char where "newline = CHR 0x0A"

text \<open>
  The loop \<^verbatim>\<open>while(i == 0 || (i < COMMAND_CHAR_LIMIT && buf[i-1] != '\n'))\<close> with \<open>k\<close> characters of room: what it
  stores, the newline included. At the end of the input \<^verbatim>\<open>scanf\<close> stores nothing.
\<close>

fun read_stored :: "nat \<Rightarrow> string \<Rightarrow> (string \<times> string) cres" where
  "read_stored 0 inp = Inr ([], inp)"
| "read_stored (Suc k) [] = Inl Indeterminate"
| "read_stored (Suc k) (c # r) =
     (if c = newline then Inr ([c], r) else cbind (read_stored k r) (\<lambda>(t, r'). Inr (c # t, r')))"

text \<open>One character is read into \<open>buf[0]\<close> and overwritten (the newline that ended the selection); it stays
  there only if nothing follows. The last character stored is replaced by the terminator.\<close>

definition read_line :: "string \<Rightarrow> (string \<times> string) cres" where
  "read_line inp =
     (case inp of
        [] \<Rightarrow> Inl Indeterminate
      | [c] \<Rightarrow> if c = newline then Inr ([], []) else Inl Indeterminate
      | _ # r \<Rightarrow> cbind (read_stored COMMAND_CHAR_LIMIT r) (\<lambda>(t, r'). Inr (butlast t, r')))"

text \<open>\<^verbatim>\<open>scanf("%s", ...)\<close>; \<open>None\<close> is the end of the input.\<close>

definition scan_word :: "string \<Rightarrow> (string \<times> string) option" where
  "scan_word inp =
     (let r = dropWhile is_space inp in
      if r = [] then None else Some (takeWhile (\<lambda>c. \<not> is_space c) r, dropWhile (\<lambda>c. \<not> is_space c) r))"

section \<open>Running commands\<close>

record timing =
  t0_sec :: ull
  t0_usec :: ull
  t1_sec :: ull
  t1_usec :: ull
  majflt :: int
  minflt :: int

type_synonym env = "string list \<Rightarrow> timing"

text \<open>Lines 68-70 and 499-501: milliseconds between the two times.\<close>

definition elapsed_ms :: "timing \<Rightarrow> int" where
  "elapsed_ms t = uint ((t1_sec t * 1000 + t1_usec t div 1000) - (t0_sec t * 1000 + t0_usec t div 1000))"

text \<open>Lines 105, 146 and 235: \<^verbatim>\<open>(t1.tv_usec - t0.tv_usec) / 1000\<close>, the division truncating towards zero.\<close>

definition elapsed_usec :: "timing \<Rightarrow> int" where
  "elapsed_usec t = (let d = uint (t1_usec t) - uint (t0_usec t) in sgn d * (\<bar>d\<bar> div 1000))"

definition stats :: "(timing \<Rightarrow> int) \<Rightarrow> timing \<Rightarrow> event" where
  "stats elapsed t = Stats (elapsed t) (majflt t) (minflt t)"

text \<open>
  The loop over the tokens (lines 50-59): at the limit it reports the token and tries it again. Each unit
  of fuel is one round.
\<close>

fun split_loop :: "nat \<Rightarrow> nat \<Rightarrow> nat \<Rightarrow> string list \<Rightarrow> string list \<Rightarrow> string list cres" where
  "split_loop 0 limit j ts argv = Inl OutOfFuel"
| "split_loop (Suc n) limit j [] argv = Inr argv"
| "split_loop (Suc n) limit j (t # ts) argv =
     (if j = limit then split_loop n limit j (t # ts) argv
      else split_loop n limit (j + 1) ts (argv @ [t]))"

text \<open>The arguments when the loop ends; \<open>split_args_loop\<close> below shows that \<open>None\<close> means that it does not.\<close>

definition split_args :: "nat \<Rightarrow> nat \<Rightarrow> string \<Rightarrow> string list option" where
  "split_args limit j input =
     (let ts = tokens CHR '' '' input in if j + length ts \<le> limit then Some ts else None)"

text \<open>\<^verbatim>\<open>userCreated(id)\<close>; \<^verbatim>\<open>strncpy\<close> copies at most the size of the buffer. A command without a word gives
  \<^verbatim>\<open>execvp\<close> a null pointer.\<close>

definition userCreated :: "env \<Rightarrow> int \<Rightarrow> commander \<Rightarrow> (outcome \<times> commander) cres" where
  "userCreated env ident s =
     cbind (aget (entries s) ident) (\<lambda>e.
     case e of
       None \<Rightarrow> Inl NullPointer
     | Some cmd \<Rightarrow>
         (case split_args 99 0 (take COMMAND_CHAR_LIMIT cmd) of
            None \<Rightarrow> Inr (Stuck, s)
          | Some [] \<Rightarrow> Inl NullPointer
          | Some argv \<Rightarrow> Inr (Continue, put (stats elapsed_ms (env argv)) (put (Exec argv) s))))"

definition whoami :: "env \<Rightarrow> commander \<Rightarrow> commander" where
  "whoami env s = put (stats elapsed_usec (env [''whoami''])) (put (Exec [''whoami'']) s)"

definition last_cmd :: "env \<Rightarrow> commander \<Rightarrow> commander" where
  "last_cmd env s = put (stats elapsed_usec (env [''last''])) (put (Exec [''last'']) s)"

text \<open>
  The loop that reads the directory (line 177) tests \<open>dir[-1]\<close> before the first character; \<open>below\<close> is the
  character that happens to lie there.
\<close>

definition read_dir :: "char \<Rightarrow> string \<Rightarrow> (string \<times> string) cres" where
  "read_dir below inp =
     (if below = newline then Inl OutOfBounds
      else cbind (read_stored (COMMAND_CHAR_LIMIT - 1) inp) (\<lambda>(t, r). Inr (if length t = 1 then ''.'' else butlast t, r)))"

definition ls :: "env \<Rightarrow> char \<Rightarrow> commander \<Rightarrow> (outcome \<times> commander) cres" where
  "ls env below s =
     (let s0 = put (Prompt ''Arguments?: '') s in
      cbind (read_line (stream s0)) (\<lambda>(arg, r1).
      (let s1 = put (Prompt ''Path?: '') (s0\<lparr>stream := r1\<rparr>) in
      cbind (read_dir below r1) (\<lambda>(dir, r2).
      (let s2 = s1\<lparr>stream := r2\<rparr> in
       case split_args 98 1 arg of
         None \<Rightarrow> Inr (Stuck, s2)
       | Some args \<Rightarrow>
           (let argv = ''ls'' # args @ [dir] in
            Inr (Continue, put (stats elapsed_usec (env argv)) (put (Exec argv) s2))))))))"

definition changeDir :: "commander \<Rightarrow> commander cres" where
  "changeDir s =
     (let s0 = put (Prompt ''New Directory?: '') s in
      cbind (read_line (stream s0)) (\<lambda>(arg, r). Inr (put (ChangedDir arg) (s0\<lparr>stream := r\<rparr>))))"

definition pwd :: "commander \<Rightarrow> commander" where
  "pwd s = put (Exec [''pwd'']) s"

section \<open>Entries and selections\<close>

fun free_entry :: "string option list \<Rightarrow> int \<Rightarrow> int option" where
  "free_entry [] i = None"
| "free_entry (e # es) i = (case e of None \<Rightarrow> Some i | Some _ \<Rightarrow> free_entry es (i + 1))"

definition add_entry :: "string \<Rightarrow> commander \<Rightarrow> (int \<times> commander) cres" where
  "add_entry e s =
     (case free_entry (entries s) 0 of
        None \<Rightarrow> Inr (-1, put TooManyCommands s)
      | Some i \<Rightarrow>
          cbind (aset (entries s) i (Some (take COMMAND_CHAR_LIMIT e))) (\<lambda>es.
          cbind (aset es (i + 1) None) (\<lambda>es'.
          Inr (i, s\<lparr>entries := es'\<rparr>))))"

text \<open>The loop of \<^verbatim>\<open>valid_selection\<close>, which reads \<^verbatim>\<open>entries[i]\<close> before it tests \<^verbatim>\<open>i\<close>.\<close>

fun match_number :: "string \<Rightarrow> nat \<Rightarrow> string option list \<Rightarrow> int cres" where
  "match_number c i [] = Inl OutOfBounds"
| "match_number c i (None # es) = Inr 0"
| "match_number c i (Some e # es) = (if c = print_nat i then Inr 1 else match_number c (i + 1) es)"

definition valid_selection :: "string \<Rightarrow> commander \<Rightarrow> int cres" where
  "valid_selection c s =
     (if c = ''a'' \<or> c = ''c'' \<or> c = ''e'' \<or> c = ''p'' \<or> c = ''r'' then Inr 1
      else match_number c 0 (entries s))"

text \<open>The last character that is not a space, or the first one if there is none.\<close>

fun last_non_space :: "string \<Rightarrow> char \<Rightarrow> char" where
  "last_non_space [] l = l"
| "last_non_space (c # cs) l = last_non_space cs (if c \<noteq> CHR '' '' then c else l)"

definition str_ends_with_ampersand :: "string \<Rightarrow> bool" where
  "str_ends_with_ampersand s = (last_non_space s (case s of c # _ \<Rightarrow> c | [] \<Rightarrow> CHR 0x00) = CHR ''&'')"

section \<open>Background processes\<close>

text \<open>The linked list of running background commands: process id and command, under a lock.\<close>

type_synonym jobs = "(int \<times> string) list"

definition create_node :: "int \<Rightarrow> string \<Rightarrow> jobs \<Rightarrow> int \<times> jobs" where
  "create_node pid cmd l = (int (length l), l @ [(pid, cmd)])"

text \<open>\<^verbatim>\<open>while(cur_node->next != NULL && cur_node->next->pid != pid)\<close> with the cursor on the first node.\<close>

fun unlink_pid :: "int \<Rightarrow> jobs \<Rightarrow> int \<times> jobs" where
  "unlink_pid pid [] = (0, [])"
| "unlink_pid pid [x] = (0, [x])"
| "unlink_pid pid (x # y # r) =
     (if fst y = pid then (1, x # r) else (case unlink_pid pid (y # r) of (k, l) \<Rightarrow> (k, x # l)))"

definition delete_node_by_pid_t :: "int \<Rightarrow> jobs \<Rightarrow> int \<times> jobs" where
  "delete_node_by_pid_t pid l =
     (case l of
        [] \<Rightarrow> (0, [])
      | x # r \<Rightarrow> if fst x = pid then (1, r) else unlink_pid pid l)"

definition delete_node :: "int \<Rightarrow> jobs \<Rightarrow> int \<times> jobs" where
  "delete_node index l =
     (case l of
        [] \<Rightarrow> (0, [])
      | x # r \<Rightarrow>
          if index = 0 then (1, r)
          else
            (let k = nat (index - 1) in
             if length l \<le> Suc k then (0, l) else (1, take (Suc k) l @ drop (Suc (Suc k)) l)))"

fun index_of_node :: "int \<Rightarrow> jobs \<Rightarrow> int \<Rightarrow> int" where
  "index_of_node pid [] i = -1"
| "index_of_node pid (x # r) i = (if fst x = pid then i else index_of_node pid r (i + 1))"

definition get_index_of_node :: "int \<Rightarrow> jobs \<Rightarrow> int" where
  "get_index_of_node pid l = index_of_node pid l 0"

fun list_from :: "int \<Rightarrow> jobs \<Rightarrow> event list" where
  "list_from i [] = []"
| "list_from i ((pid, cmd) # r) = Process i pid cmd # list_from (i + 1) r"

definition list_processes :: "jobs \<Rightarrow> commander \<Rightarrow> commander" where
  "list_processes l s = s\<lparr>log := log s @ list_from 0 l\<rparr>"

text \<open>The child of \<^verbatim>\<open>threaded_user_created\<close>: \<^verbatim>\<open>argv[j - 1] = NULL\<close> drops the last word (lines 462-480).\<close>

definition background_argv :: "string \<Rightarrow> string list option cres" where
  "background_argv cmd =
     (case split_args 99 0 (take COMMAND_CHAR_LIMIT cmd) of
        None \<Rightarrow> Inr None
      | Some [] \<Rightarrow> Inl OutOfBounds
      | Some argv \<Rightarrow> Inr (Some (butlast argv)))"

text \<open>The life of the background threads: a command starts with the process id the system gives its child,
  which no running child has, and its node goes when the child is finished.\<close>

inductive job_step :: "jobs \<Rightarrow> jobs \<Rightarrow> bool" where
  Start: "pid \<notin> fst ` set l \<Longrightarrow> job_step l (snd (create_node pid cmd l))"
| Finish: "pid \<in> fst ` set l \<Longrightarrow> job_step l (snd (delete_node_by_pid_t pid l))"

inductive jobs_reachable :: "jobs \<Rightarrow> bool" where
  Empty: "jobs_reachable []"
| Step: "jobs_reachable l \<Longrightarrow> job_step l l' \<Longrightarrow> jobs_reachable l'"

section \<open>main\<close>

text \<open>The menu lists the user's entries from 3 on until it meets a null pointer (lines 520-533).\<close>

fun listed :: "string option list \<Rightarrow> string list cres" where
  "listed [] = Inl OutOfBounds"
| "listed (None # es) = Inr []"
| "listed (Some e # es) = cbind (listed es) (\<lambda>l. Inr (e # l))"

definition show_menu :: "commander \<Rightarrow> commander cres" where
  "show_menu s = cbind (listed (drop 3 (entries s))) (\<lambda>l. Inr (put (Menu l) s))"

text \<open>Lines 543-595, for the jobs that happen to run.\<close>

definition dispatch :: "env \<Rightarrow> char \<Rightarrow> jobs \<Rightarrow> string \<Rightarrow> commander \<Rightarrow> (outcome \<times> commander) cres" where
  "dispatch env below l sel s =
     (if sel = ''0'' then Inr (Continue, whoami env (put (Title ''-- Who Am I? --'') s))
      else if sel = ''1'' then Inr (Continue, last_cmd env (put (Title ''-- Last Logins --'') s))
      else if sel = ''2'' then ls env below (put (Title ''-- Directory Listing --'') s)
      else if sel = ''e'' then Inr (Exit, put LoggedOut s)
      else if sel = ''c'' then cbind (changeDir (put (Title ''-- Change Directory --'') s)) (\<lambda>s1. Inr (Continue, s1))
      else if sel = ''r'' then Inr (Continue, list_processes l (put (Title ''-- Background Processes --'') s))
      else if sel = ''p'' then Inr (Continue, pwd (put (Title ''-- Current Directory --'') s))
      else if sel = ''a'' then
        (let s0 = put (Prompt ''Command to add?: '') (put (Title ''-- Add a command --'') s) in
         cbind (read_line (stream s0)) (\<lambda>(cmd, r).
         cbind (add_entry cmd (s0\<lparr>stream := r\<rparr>)) (\<lambda>(ident, s1).
         Inr (Continue, put (Added ident) s1))))
      else
        cbind (aget (entries s) (atoi sel)) (\<lambda>e.
        case e of
          None \<Rightarrow> Inl NullPointer
        | Some cmd \<Rightarrow>
            if str_ends_with_ampersand cmd then Inr (Continue, put (Background cmd) s)
            else userCreated env (atoi sel) s))"

text \<open>One round of the inner loop; \<^verbatim>\<open>selection\<close> has room for two characters. \<open>l\<close> are the jobs at that moment.\<close>

definition round :: "env \<Rightarrow> char \<Rightarrow> jobs \<Rightarrow> commander \<Rightarrow> (outcome \<times> commander) cres" where
  "round env below l s =
     cbind (show_menu s) (\<lambda>s1.
     case scan_word (stream s1) of
       None \<Rightarrow> Inr (Exit, put LoggedOut (s1\<lparr>stream := []\<rparr>))
     | Some (sel, r) \<Rightarrow>
         if 3 \<le> length sel then Inl OutOfBounds
         else
           (let s2 = s1\<lparr>stream := r\<rparr> in
            cbind (valid_selection sel s2) (\<lambda>v.
            if v = 0 then Inr (Continue, put NotAnOption s2)
            else cbind (dispatch env below l sel s2) (\<lambda>(oc, s3).
                 Inr (oc, if oc = Continue then put Greeting s3 else s3)))))"

fun main_loop :: "env \<Rightarrow> char \<Rightarrow> jobs list \<Rightarrow> commander \<Rightarrow> (outcome \<times> commander) cres" where
  "main_loop env below [] s = Inl OutOfFuel"
| "main_loop env below (l # js) s =
     cbind (round env below l s) (\<lambda>(oc, s').
     if oc = Continue then main_loop env below js s' else Inr (oc, s'))"

definition boot :: "string \<Rightarrow> commander cres" where
  "boot inp =
     cbind (add_entry ''whoami'' \<lparr>entries = replicate COMMAND_LIMIT None, stream = inp, log = []\<rparr>) (\<lambda>(_, s1).
     cbind (add_entry ''last'' s1) (\<lambda>(_, s2).
     cbind (add_entry ''ls'' s2) (\<lambda>(_, s3).
     Inr (put Greeting s3))))"

definition main :: "env \<Rightarrow> char \<Rightarrow> jobs list \<Rightarrow> string \<Rightarrow> (outcome \<times> commander) cres" where
  "main env below js inp = cbind (boot inp) (main_loop env below js)"

section \<open>Splitting\<close>

lemma split_loop_ends:
  "j + length ts \<le> limit \<Longrightarrow> length ts < n \<Longrightarrow> split_loop n limit j ts argv = Inr (argv @ ts)"
proof (induction n limit j ts argv rule: split_loop.induct)
  case (3 n limit j t ts argv)
  then show ?case by auto
qed auto

lemma split_loop_stuck: "j \<le> limit \<Longrightarrow> limit < j + length ts \<Longrightarrow> split_loop n limit j ts argv = Inl OutOfFuel"
proof (induction n limit j ts argv rule: split_loop.induct)
  case (3 n limit j t ts argv)
  then show ?case by (cases "j = limit") auto
qed auto

text \<open>The loop that splits a command into arguments returns all of its words when they fit the array,
  and otherwise never ends, however long it runs: at the limit it reports the word and takes the same word
  again. \<open>split_args\<close> is that behaviour.\<close>

theorem split_args_loop:
  assumes "j \<le> limit"
  shows "case split_args limit j input of
      Some ts \<Rightarrow> ts = tokens CHR '' '' input \<and> (\<forall>n > length ts. split_loop n limit j ts argv = Inr (argv @ ts))
    | None \<Rightarrow> (\<forall>n. split_loop n limit j (tokens CHR '' '' input) argv = Inl OutOfFuel)"
  using assms split_loop_ends [of j "tokens CHR '' '' input" limit] split_loop_stuck [of j limit "tokens CHR '' '' input"]
  by (auto simp: split_args_def Let_def)

theorem split_args_loop_witness:
  "split_loop 5 2 0 [''a'', ''b'', ''c''] [] = Inl OutOfFuel \<and>
   (\<forall>n. split_loop n 2 0 (tokens CHR '' '' ''a b c'') [] = Inl OutOfFuel)"
proof -
  have t: "tokens CHR '' '' ''a b c'' = [''a'', ''b'', ''c'']" by code_simp
  then have "split_args 2 0 ''a b c'' = None" by (simp add: split_args_def)
  then show ?thesis using split_args_loop [of 0 2 "''a b c''" "[]"] t by simp
qed

section \<open>Entries\<close>

text \<open>The slots are filled from the front.\<close>

definition menu_of :: "string list \<Rightarrow> string option list" where
  "menu_of cmds = map Some cmds @ replicate (COMMAND_LIMIT - length cmds) None"

definition entries_inv :: "commander \<Rightarrow> string list \<Rightarrow> bool" where
  "entries_inv s cmds \<longleftrightarrow> entries s = menu_of cmds \<and> length cmds < COMMAND_LIMIT"

lemma free_entry_menu: "free_entry (map Some cmds @ None # r) i = Some (i + int (length cmds))"
  by (induction cmds arbitrary: i) auto

lemma menu_of_split: "length cmds < COMMAND_LIMIT \<Longrightarrow> menu_of cmds = map Some cmds @ None # replicate (COMMAND_LIMIT - length cmds - 1) None"
  by (simp add: menu_of_def Suc_diff_Suc flip: replicate_Suc)

lemma length_menu_of: "length cmds \<le> COMMAND_LIMIT \<Longrightarrow> length (menu_of cmds) = COMMAND_LIMIT"
  by (simp add: menu_of_def)

lemma menu_of_update:
  assumes "Suc (length cmds) < COMMAND_LIMIT"
  shows "(menu_of cmds)[length cmds := Some e, Suc (length cmds) := None] = menu_of (cmds @ [e])"
proof -
  define d where "d = COMMAND_LIMIT - length cmds - 2"
  have "replicate (COMMAND_LIMIT - length cmds) (None :: string option) = None # None # replicate d None"
    using assms by (simp add: d_def numeral_2_eq_2 flip: replicate_Suc)
  moreover have "replicate (COMMAND_LIMIT - length (cmds @ [e])) (None :: string option) = None # replicate d None"
    using assms by (simp add: d_def flip: replicate_Suc)
  ultimately show ?thesis by (simp add: menu_of_def list_update_append)
qed

lemma add_entry_next:
  assumes "entries_inv s cmds" "Suc (length cmds) < COMMAND_LIMIT"
  shows "add_entry e s = Inr (int (length cmds), s\<lparr>entries := menu_of (cmds @ [take COMMAND_CHAR_LIMIT e])\<rparr>)"
proof -
  have "free_entry (entries s) 0 = Some (int (length cmds))"
    using assms by (simp add: entries_inv_def menu_of_split free_entry_menu)
  then show ?thesis
    using assms length_menu_of [of cmds] menu_of_update [of cmds]
    by (simp add: add_entry_def entries_inv_def aset_def in_bounds_def nat_add_distrib)
qed

text \<open>Adding a command to a menu of \<open>k\<close> commands gives it the number \<open>k\<close> and leaves every other number's
  command alone, as long as two slots are free; adding the hundredth command writes the slot after the array.\<close>

theorem add_entry_spec:
  assumes "entries_inv s cmds"
  shows "if Suc (length cmds) < COMMAND_LIMIT
    then \<exists>s'. add_entry e s = Inr (int (length cmds), s') \<and> entries_inv s' (cmds @ [take COMMAND_CHAR_LIMIT e]) \<and>
      stream s' = stream s \<and> log s' = log s
    else add_entry e s = Inl OutOfBounds"
proof (cases "Suc (length cmds) < COMMAND_LIMIT")
  case True
  then show ?thesis using add_entry_next [OF assms] by (simp add: entries_inv_def)
next
  case False
  then have k: "length cmds = 99" using assms by (simp add: entries_inv_def COMMAND_LIMIT_def)
  have "free_entry (entries s) 0 = Some (int (length cmds))"
    using assms by (simp add: entries_inv_def menu_of_split free_entry_menu)
  then show ?thesis
    using assms k length_menu_of [of cmds]
    by (simp add: add_entry_def entries_inv_def aset_def in_bounds_def COMMAND_LIMIT_def)
qed

lemma boot_entries: "\<exists>s. boot inp = Inr s \<and> entries_inv s [''whoami'', ''last'', ''ls''] \<and> stream s = inp"
proof -
  let ?s0 = "\<lparr>entries = replicate COMMAND_LIMIT None, stream = inp, log = []\<rparr>"
  have 0: "entries_inv ?s0 []" by (simp add: entries_inv_def menu_of_def COMMAND_LIMIT_def)
  note 1 = add_entry_next [OF 0, of "''whoami''"]
  have i1: "entries_inv (?s0\<lparr>entries := menu_of [''whoami'']\<rparr>) [''whoami'']"
    by (simp add: entries_inv_def COMMAND_LIMIT_def)
  note 2 = add_entry_next [OF i1, of "''last''"]
  have i2: "entries_inv (?s0\<lparr>entries := menu_of [''whoami'', ''last'']\<rparr>) [''whoami'', ''last'']"
    by (simp add: entries_inv_def COMMAND_LIMIT_def)
  note 3 = add_entry_next [OF i2, of "''ls''"]
  show ?thesis
    using 1 2 3 by (simp add: boot_def COMMAND_LIMIT_def COMMAND_CHAR_LIMIT_def put_def entries_inv_def)
qed

theorem add_entry_spec_witness:
  "\<exists>s s'. boot [] = Inr s \<and> add_entry ''date'' s = Inr (3, s') \<and> entries_inv s' [''whoami'', ''last'', ''ls'', ''date'']"
proof -
  obtain s where s: "boot [] = Inr s" "entries_inv s [''whoami'', ''last'', ''ls'']" using boot_entries by blast
  then show ?thesis using add_entry_spec [OF s(2), of "''date''"] by (auto simp: COMMAND_LIMIT_def COMMAND_CHAR_LIMIT_def)
qed

lemma print_nat_inj: "int m \<le> INT_MAX \<Longrightarrow> int n \<le> INT_MAX \<Longrightarrow> print_nat m = print_nat n \<longleftrightarrow> m = n"
  by (metis atoi_print_nat of_nat_eq_iff)

lemma match_number_menu:
  "match_number c i (map Some cmds @ None # r) = Inr (if \<exists>k < length cmds. c = print_nat (i + k) then 1 else 0)"
proof (induction cmds arbitrary: i)
  case (Cons e cmds)
  have "(\<exists>k < length (e # cmds). c = print_nat (i + k)) \<longleftrightarrow> c = print_nat i \<or> (\<exists>k < length cmds. c = print_nat (i + 1 + k))"
    by (auto simp: less_Suc_eq_0_disj)
  then show ?case using Cons.IH [of "i + 1"] by simp
qed simp

text \<open>A selection is valid exactly when it is one of the letters or the decimal number of a command of
  the menu, and then \<^verbatim>\<open>atoi\<close> finds that command.\<close>

theorem valid_selection_spec:
  assumes "entries_inv s cmds"
  shows "\<exists>v. valid_selection c s = Inr v \<and>
    (v \<noteq> 0 \<longleftrightarrow> c \<in> {''a'', ''c'', ''e'', ''p'', ''r''} \<or> (\<exists>k < length cmds. c = print_nat k)) \<and>
    (\<forall>k < length cmds. c = print_nat k \<longrightarrow> aget (entries s) (atoi c) = Inr (Some (cmds ! k)))"
proof -
  have e: "entries s = map Some cmds @ None # replicate (COMMAND_LIMIT - length cmds - 1) None" and k: "length cmds < 100"
    using assms by (auto simp: entries_inv_def menu_of_split COMMAND_LIMIT_def)
  have "aget (entries s) (atoi (print_nat k)) = Inr (Some (cmds ! k))" if "k < length cmds" for k
  proof -
    have "int k \<le> INT_MAX" using that k by (simp add: INT_MAX_def)
    then have "atoi (print_nat k) = int k" by (rule atoi_print_nat)
    then show ?thesis using that k by (simp add: e aget_def in_bounds_def nth_append)
  qed
  then show ?thesis by (auto simp: valid_selection_def e match_number_menu)
qed

theorem valid_selection_spec_witness:
  "\<exists>s v. boot [] = Inr s \<and> valid_selection ''2'' s = Inr v \<and> v \<noteq> 0 \<and> aget (entries s) (atoi ''2'') = Inr (Some ''ls'')"
proof -
  have n: "''2'' = print_nat 2" by (subst print_nat.simps) code_simp
  obtain s where s: "boot [] = Inr s" "entries_inv s [''whoami'', ''last'', ''ls'']" using boot_entries by blast
  let ?cmds = "[''whoami'', ''last'', ''ls'']"
  obtain v where v: "valid_selection ''2'' s = Inr v"
    "v \<noteq> 0 \<longleftrightarrow> ''2'' \<in> {''a'', ''c'', ''e'', ''p'', ''r''} \<or> (\<exists>k < length ?cmds. ''2'' = print_nat k)"
    "\<forall>k < length ?cmds. ''2'' = print_nat k \<longrightarrow> aget (entries s) (atoi ''2'') = Inr (Some (?cmds ! k))"
    using valid_selection_spec [OF s(2), of "''2''"] by (elim exE conjE) (rule that)
  have l: "2 < length ?cmds" by simp
  have "aget (entries s) (atoi ''2'') = Inr (Some (?cmds ! 2))" using v(3) n l by blast
  moreover have "v \<noteq> 0" using v(2) n l by blast
  ultimately show ?thesis using s(1) v(1) by auto
qed

section \<open>The main loop ends\<close>

lemma read_stored_shorter: "read_stored k inp = Inr (t, r) \<Longrightarrow> length r \<le> length inp"
  by (induction k inp arbitrary: t r rule: read_stored.induct) (fastforce split: if_splits prod.splits)+

lemma read_line_shorter: "read_line inp = Inr (t, r) \<Longrightarrow> length r \<le> length inp"
  by (auto simp: read_line_def split: list.splits if_splits prod.splits dest!: read_stored_shorter)

lemma add_entry_stream: "add_entry e s = Inr (i, s') \<Longrightarrow> stream s' = stream s"
  by (auto simp: add_entry_def put_def split: option.splits)

lemma put_stream [simp]: "stream (put e s) = stream s"
  by (simp add: put_def)

lemma ls_stream: "ls env below s = Inr (oc, s') \<Longrightarrow> length (stream s') \<le> length (stream s)"
  unfolding ls_def Let_def
  by (auto simp: read_dir_def split: prod.splits option.splits if_splits dest!: read_line_shorter read_stored_shorter)

lemma dispatch_stream: "dispatch env below l sel s = Inr (oc, s') \<Longrightarrow> length (stream s') \<le> length (stream s)"
  unfolding dispatch_def Let_def
  by (auto simp: whoami_def last_cmd_def pwd_def changeDir_def list_processes_def userCreated_def Let_def
      split: prod.splits option.splits list.splits if_splits dest!: read_line_shorter ls_stream add_entry_stream)

lemma scan_word_shorter: "scan_word inp = Some (w, r) \<Longrightarrow> length r < length inp"
proof -
  assume a: "scan_word inp = Some (w, r)"
  let ?d = "dropWhile is_space inp"
  have ne: "?d \<noteq> []" and r: "r = dropWhile (\<lambda>c. \<not> is_space c) ?d"
    using a by (auto simp: scan_word_def Let_def split: if_splits)
  have "\<not> is_space (hd ?d)" using hd_dropWhile [OF ne] .
  then have "length r < length ?d" using ne r by (cases ?d) (auto simp: less_Suc_eq_le length_dropWhile_le)
  also have "\<dots> \<le> length inp" by (rule length_dropWhile_le)
  finally show ?thesis .
qed

lemma round_stream: "round env below l s = Inr (Continue, s') \<Longrightarrow> length (stream s') < length (stream s)"
  unfolding round_def show_menu_def Let_def
  by (auto split: prod.splits option.splits if_splits dest!: scan_word_shorter dispatch_stream)

lemma read_no_fuel [simp]: "no_fuel_fault (read_stored k inp)" "no_fuel_fault (read_line inp)"
proof -
  show r: "no_fuel_fault (read_stored k inp)" for k inp
    by (induction k inp rule: read_stored.induct) (auto simp: no_fuel_fault_def cbind_Inl_iff split: prod.splits)
  show "no_fuel_fault (read_line inp)"
    using r by (auto simp: read_line_def no_fuel_fault_def cbind_Inl_iff split: list.splits prod.splits)
qed

lemma listed_no_fuel [simp]: "no_fuel_fault (listed es)"
  by (induction es rule: listed.induct) (auto simp: no_fuel_fault_def cbind_Inl_iff)

lemma match_number_no_fuel [simp]: "no_fuel_fault (match_number c i es)"
  by (induction c i es rule: match_number.induct) (auto simp: no_fuel_fault_def)

lemma add_entry_no_fuel [simp]: "no_fuel_fault (add_entry e s)"
  unfolding add_entry_def by (auto split: option.splits intro!: no_fuel_fault_cbind)

lemma no_fuel_prod: "(\<And>x y. m = Inr (x, y) \<Longrightarrow> no_fuel_fault (f x y)) \<Longrightarrow> no_fuel_fault m \<Longrightarrow>
   no_fuel_fault (cbind m (\<lambda>(x, y). f x y))"
  by (cases m) (auto simp: no_fuel_fault_def)

lemma dispatch_no_fuel [simp]: "no_fuel_fault (dispatch env below l sel s)"
proof -
  have i: "no_fuel_fault (Inl OutOfBounds)" "no_fuel_fault (Inl NullPointer)" by (simp_all add: no_fuel_fault_def)
  have "no_fuel_fault (ls env below s)" for s
    unfolding ls_def read_dir_def Let_def by (auto intro!: no_fuel_prod i split: option.splits)
  moreover have "no_fuel_fault (changeDir s)" for s
    unfolding changeDir_def Let_def by (auto intro!: no_fuel_prod)
  moreover have "no_fuel_fault (userCreated env k s)" for k s
    unfolding userCreated_def by (auto intro!: no_fuel_fault_cbind i split: option.splits list.splits)
  ultimately show ?thesis
    unfolding dispatch_def Let_def by (auto intro!: no_fuel_prod no_fuel_fault_cbind i split: option.splits)
qed

lemma round_no_fuel: "no_fuel_fault (round env below l s)"
proof -
  have i: "no_fuel_fault (Inl OutOfBounds)" by (simp add: no_fuel_fault_def)
  have v: "no_fuel_fault (valid_selection c s)" for c s by (simp add: valid_selection_def)
  show ?thesis
    unfolding round_def show_menu_def Let_def by (auto intro!: no_fuel_fault_cbind no_fuel_prod i v split: option.splits)
qed

lemma main_loop_no_fuel: "length (stream s) < length js \<Longrightarrow> no_fuel_fault (main_loop env below js s)"
proof (induction js arbitrary: s)
  case (Cons l js)
  show ?case
    unfolding main_loop.simps
  proof (intro no_fuel_prod round_no_fuel)
    fix oc s' assume r: "round env below l s = Inr (oc, s')"
    show "no_fuel_fault (if oc = Continue then main_loop env below js s' else Inr (oc, s'))"
      using r round_stream [of env below l s s'] Cons by (cases "oc = Continue") auto
  qed
qed simp


definition example_env :: env where
  "example_env argv = \<lparr>t0_sec = 10, t0_usec = 900000, t1_sec = 11, t1_usec = 100000, majflt = 0, minflt = 150\<rparr>"


section \<open>Lines, words and times\<close>

lemma read_stored_line:
  "newline \<notin> set t \<Longrightarrow> length t < k \<Longrightarrow> read_stored k (t @ newline # r) = Inr (t @ [newline], r)"
  by (induction t arbitrary: k) (case_tac k; auto)+

text \<open>C0: a line of fewer than 1000 characters typed after the selection is read exactly, and the input
  continues behind its newline.\<close>

theorem read_line_exact:
  assumes "newline \<notin> set t" "length t < COMMAND_CHAR_LIMIT"
  shows "read_line (newline # t @ newline # r) = Inr (t, r)"
  using read_stored_line [OF assms] by (cases t) (simp_all add: read_line_def)

theorem read_line_exact_witness: "read_line (newline # ''ls -l'' @ newline # ''e'') = Inr (''ls -l'', ''e'')"
  by (rule read_line_exact) (simp_all add: newline_def COMMAND_CHAR_LIMIT_def)

lemma last_non_space_filter: "last_non_space s l = (case filter (\<lambda>c. c \<noteq> CHR '' '') s of [] \<Rightarrow> l | cs \<Rightarrow> last cs)"
  by (induction s arbitrary: l) (auto split: list.splits)

text \<open>A command goes to the background exactly when its last character that is not a space is an
  ampersand; the child then gets its words but the last, so an ampersand that is not a word of its own takes
  the last argument away with it.\<close>

theorem background_words:
  assumes "length (tokens CHR '' '' cmd) \<le> 99" "length cmd \<le> COMMAND_CHAR_LIMIT"
  shows "(str_ends_with_ampersand cmd \<longleftrightarrow>
      filter (\<lambda>c. c \<noteq> CHR '' '') cmd \<noteq> [] \<and> last (filter (\<lambda>c. c \<noteq> CHR '' '') cmd) = CHR ''&'') \<and>
    background_argv cmd =
      (if tokens CHR '' '' cmd = [] then Inl OutOfBounds else Inr (Some (butlast (tokens CHR '' '' cmd))))"
proof -
  have "str_ends_with_ampersand cmd \<longleftrightarrow>
      filter (\<lambda>c. c \<noteq> CHR '' '') cmd \<noteq> [] \<and> last (filter (\<lambda>c. c \<noteq> CHR '' '') cmd) = CHR ''&''"
    by (cases cmd) (auto simp: str_ends_with_ampersand_def last_non_space_filter split: list.splits)
  moreover have "background_argv cmd =
      (if tokens CHR '' '' cmd = [] then Inl OutOfBounds else Inr (Some (butlast (tokens CHR '' '' cmd))))"
    using assms by (simp add: background_argv_def split_args_def Let_def split: list.splits)
  ultimately show ?thesis ..
qed

theorem background_words_witness:
  "str_ends_with_ampersand ''sleep 5&'' \<and> background_argv ''sleep 5&'' = Inr (Some [''sleep''])"
proof -
  have t: "tokens CHR '' '' ''sleep 5&'' = [''sleep'', ''5&'']" by code_simp
  show ?thesis using background_words [of "''sleep 5&''"] by (simp add: t COMMAND_CHAR_LIMIT_def)
qed

lemma quotient_difference:
  fixes x y a b c :: int
  assumes "x = 1000 * a + r" "y = 1000 * b + t" "x - y = 1000 * c + u"
    and "0 \<le> r" "r < 1000" "0 \<le> t" "t < 1000" "0 \<le> u" "u < 1000"
  shows "\<bar>(a - b) - c\<bar> \<le> 1"
  using assms by linarith

lemma div_difference: "\<bar>(x div 1000 - y div 1000) - (x - y) div 1000\<bar> \<le> 1" for x y :: int
  by (rule quotient_difference [OF mult_div_mod_eq [symmetric] mult_div_mod_eq [symmetric] mult_div_mod_eq [symmetric]])
    simp_all

lemma truncated_difference: "\<bar>(x div 1000 - y div 1000) - sgn (x - y) * (\<bar>x - y\<bar> div 1000)\<bar> \<le> 1" for x y :: int
proof (cases x y rule: linorder_cases)
  case less
  then have "sgn (x - y) = - 1" "\<bar>x - y\<bar> = y - x" by simp_all
  then show ?thesis using div_difference [of y x] by simp
next
  case greater
  then have "sgn (x - y) = 1" "\<bar>x - y\<bar> = x - y" by simp_all
  then show ?thesis using div_difference [of x y] by simp
qed simp

text \<open>The elapsed time of a user's command is the number of milliseconds between the two clock readings;
  that of \<^verbatim>\<open>whoami\<close>, \<^verbatim>\<open>last\<close> and \<^verbatim>\<open>ls\<close>, which looks at the microseconds within the second only, differs from it by a
  multiple of the seconds passed (up to rounding), and is negative when a second boundary lies between.\<close>

theorem elapsed_times:
  assumes "uint (t1_sec t) * 1000 + uint (t1_usec t) div 1000 < 2 ^ 64" "uint (t1_usec t) < 1000000" "uint (t0_usec t) < 1000000"
    and "uint (t0_sec t) * 1000 + uint (t0_usec t) div 1000 \<le> uint (t1_sec t) * 1000 + uint (t1_usec t) div 1000"
  shows "elapsed_ms t = (uint (t1_sec t) - uint (t0_sec t)) * 1000 + uint (t1_usec t) div 1000 - uint (t0_usec t) div 1000 \<and>
    \<bar>elapsed_ms t - elapsed_usec t - (uint (t1_sec t) - uint (t0_sec t)) * 1000\<bar> \<le> 1"
proof -
  let ?a = "uint (t1_sec t) * 1000 + uint (t1_usec t) div 1000" and ?b = "uint (t0_sec t) * 1000 + uint (t0_usec t) div 1000"
  have b: "0 \<le> uint x" for x :: ull by simp
  have z: "0 \<le> uint x div 1000" for x :: ull by (simp add: pos_imp_zdiv_nonneg_iff)
  have "0 \<le> ?b" using b [of "t0_sec t"] z [of "t0_usec t"] by linarith
  then have s: "uint (t1_sec t) * 1000 < 2 ^ 64" "uint (t0_sec t) * 1000 < 2 ^ 64" "?b < 2 ^ 64"
    using assms(1,4) z [of "t0_usec t"] z [of "t1_usec t"] by linarith+
  have w: "uint (x * 1000 + y div 1000) = (uint x * 1000 + uint y div 1000) mod 2 ^ 64" for x y :: ull
    by (simp add: uint_word_ariths uint_div mod_simps)
  have "0 \<le> ?a" using assms(4) \<open>0 \<le> ?b\<close> by linarith
  then have "uint (t1_sec t * 1000 + t1_usec t div 1000) = ?a"
    unfolding w using assms(1) by (rule mod_pos_pos_trivial)
  moreover have "uint (t0_sec t * 1000 + t0_usec t div 1000) = ?b"
    unfolding w using \<open>0 \<le> ?b\<close> s(3) by (rule mod_pos_pos_trivial)
  ultimately have e: "elapsed_ms t = ?a - ?b"
    using assms(4) s b unfolding elapsed_ms_def by (subst uint_sub_if') simp
  have "\<bar>(uint (t1_usec t) div 1000 - uint (t0_usec t) div 1000) - elapsed_usec t\<bar> \<le> 1"
    unfolding elapsed_usec_def Let_def by (rule truncated_difference)
  then show ?thesis using e by simp
qed

theorem elapsed_times_witness: "elapsed_ms (example_env []) = 200 \<and> elapsed_usec (example_env []) = - 800"
proof -
  have "elapsed_usec (example_env []) = - 800" by (simp add: elapsed_usec_def example_env_def)
  then show ?thesis using elapsed_times [of "example_env []"] by (simp add: example_env_def)
qed

section \<open>The list of background processes\<close>

lemma unlink_pid_filter:
  "distinct (map fst l) \<Longrightarrow> l \<noteq> [] \<Longrightarrow> fst (hd l) \<noteq> pid \<Longrightarrow>
   unlink_pid pid l = (if pid \<in> fst ` set l then 1 else 0, filter (\<lambda>x. fst x \<noteq> pid) l)"
proof (induction pid l rule: unlink_pid.induct)
  case (3 pid x y r)
  show ?case
  proof (cases "fst y = pid")
    case True
    then have "pid \<notin> fst ` set r" using 3 by auto
    then have "filter (\<lambda>x. fst x \<noteq> pid) r = r" by (auto simp: filter_id_conv)
    then show ?thesis using True 3 by simp
  next
    case False
    then show ?thesis using 3 by auto
  qed
qed auto

lemma delete_by_pid_filter:
  assumes "distinct (map fst l)"
  shows "delete_node_by_pid_t pid l = (if pid \<in> fst ` set l then 1 else 0, filter (\<lambda>x. fst x \<noteq> pid) l)"
proof (cases l)
  case (Cons x r)
  show ?thesis
  proof (cases "fst x = pid")
    case True
    then have "pid \<notin> fst ` set r" using assms Cons by auto
    then have "filter (\<lambda>x. fst x \<noteq> pid) r = r" by (auto simp: filter_id_conv)
    then show ?thesis using True Cons by (simp add: delete_node_by_pid_t_def)
  next
    case False
    then show ?thesis using unlink_pid_filter [OF assms] Cons by (simp add: delete_node_by_pid_t_def)
  qed
qed (simp add: delete_node_by_pid_t_def)

lemma jobs_distinct: "jobs_reachable l \<Longrightarrow> distinct (map fst l)"
proof (induction rule: jobs_reachable.induct)
  case (Step l l')
  from Step(2,3) show ?case
    by (induction rule: job_step.induct) (auto simp: create_node_def delete_by_pid_filter distinct_map_filter)
qed simp

lemma index_of_node_nth: "distinct (map fst l) \<Longrightarrow> k < length l \<Longrightarrow> index_of_node (fst (l ! k)) l i = i + int k"
proof (induction l arbitrary: k i)
  case (Cons x l)
  then show ?case
  proof (cases k)
    case (Suc n)
    with Cons.prems have "fst (l ! n) \<in> fst ` set l" by simp
    then have "fst x \<noteq> fst (l ! n)" using Cons.prems(1) by (metis distinct.simps(2) list.set_map list.simps(9))
    then show ?thesis using Cons Suc by simp
  qed simp
qed simp

lemma index_of_node_none: "pid \<notin> fst ` set l \<Longrightarrow> index_of_node pid l i = -1"
  by (induction l arbitrary: i) auto



end
