(* ===== verification/Commander_V1.thy ===== *)
theory Commander_V1
  imports Commander "HOL-Library.Sublist"
begin

text \<open>
  Mid-Day Commander, version 1 (src/project-1/v1/main.c): the program before background commands
  were added. Its operations are translated from its own text, over the state, the events and the
  input of \<open>Commander\<close>; the loops over characters, tokens and entries have the same text in both
  versions and are shared. The versions differ in the selections they know, in the treatment of an
  ampersand and in the way they compute elapsed times; the theory ends with the theorem that version
  2 does what version 1 does as long as its background feature is not used.
\<close>

section \<open>Operations\<close>

definition v1_userCreated :: "env \<Rightarrow> int \<Rightarrow> commander \<Rightarrow> (outcome \<times> commander) cres" where
  "v1_userCreated env ident s =
     cbind (aget (entries s) ident) (\<lambda>e.
     case e of
       None \<Rightarrow> Inl NullPointer
     | Some cmd \<Rightarrow>
         (case split_args 99 0 (take COMMAND_CHAR_LIMIT cmd) of
            None \<Rightarrow> Inr (Stuck, s)
          | Some [] \<Rightarrow> Inl NullPointer
          | Some argv \<Rightarrow> Inr (Continue, put (stats elapsed_ms (env argv)) (put (Exec argv) s))))"

definition v1_whoami :: "env \<Rightarrow> commander \<Rightarrow> commander" where
  "v1_whoami env s = put (stats elapsed_ms (env [''whoami''])) (put (Exec [''whoami'']) s)"

definition v1_last :: "env \<Rightarrow> commander \<Rightarrow> commander" where
  "v1_last env s = put (stats elapsed_usec (env [''last''])) (put (Exec [''last'']) s)"

definition v1_ls :: "env \<Rightarrow> char \<Rightarrow> commander \<Rightarrow> (outcome \<times> commander) cres" where
  "v1_ls env below s =
     (let s0 = put (Prompt ''Arguments?: '') s in
      cbind (read_line (stream s0)) (\<lambda>(arg, r1).
      (let s1 = put (Prompt ''Path?: '') (s0\<lparr>stream := r1\<rparr>) in
      cbind (read_dir below r1) (\<lambda>(dir, r2).
      (let s2 = s1\<lparr>stream := r2\<rparr> in
       case split_args 98 1 arg of
         None \<Rightarrow> Inr (Stuck, s2)
       | Some args \<Rightarrow>
           (let argv = ''ls'' # args @ [dir] in
            Inr (Continue, put (stats elapsed_ms (env argv)) (put (Exec argv) s2))))))))"

definition v1_changeDir :: "commander \<Rightarrow> commander cres" where
  "v1_changeDir s =
     (let s0 = put (Prompt ''New Directory?: '') s in
      cbind (read_line (stream s0)) (\<lambda>(arg, r). Inr (put (ChangedDir arg) (s0\<lparr>stream := r\<rparr>))))"

definition v1_pwd :: "commander \<Rightarrow> commander" where
  "v1_pwd s = put (Exec [''pwd'']) s"

definition v1_add_entry :: "string \<Rightarrow> commander \<Rightarrow> (int \<times> commander) cres" where
  "v1_add_entry e s =
     (case free_entry (entries s) 0 of
        None \<Rightarrow> Inr (-1, put TooManyCommands s)
      | Some i \<Rightarrow>
          cbind (aset (entries s) i (Some (take COMMAND_CHAR_LIMIT e))) (\<lambda>es.
          cbind (aset es (i + 1) None) (\<lambda>es'.
          Inr (i, s\<lparr>entries := es'\<rparr>))))"

definition v1_valid_selection :: "string \<Rightarrow> commander \<Rightarrow> int cres" where
  "v1_valid_selection c s =
     (if c = ''a'' \<or> c = ''c'' \<or> c = ''e'' \<or> c = ''p'' then Inr 1
      else match_number c 0 (entries s))"

section \<open>main\<close>

definition v1_dispatch :: "env \<Rightarrow> char \<Rightarrow> string \<Rightarrow> commander \<Rightarrow> (outcome \<times> commander) cres" where
  "v1_dispatch env below sel s =
     (if sel = ''0'' then Inr (Continue, v1_whoami env (put (Title ''-- Who Am I? --'') s))
      else if sel = ''1'' then Inr (Continue, v1_last env (put (Title ''-- Last Logins --'') s))
      else if sel = ''2'' then v1_ls env below (put (Title ''-- Directory Listing --'') s)
      else if sel = ''e'' then Inr (Exit, put LoggedOut s)
      else if sel = ''c'' then cbind (v1_changeDir (put (Title ''-- Change Directory --'') s)) (\<lambda>s1. Inr (Continue, s1))
      else if sel = ''p'' then Inr (Continue, v1_pwd (put (Title ''-- Current Directory --'') s))
      else if sel = ''a'' then
        (let s0 = put (Prompt ''Command to add?: '') (put (Title ''-- Add a command --'') s) in
         cbind (read_line (stream s0)) (\<lambda>(cmd, r).
         cbind (v1_add_entry cmd (s0\<lparr>stream := r\<rparr>)) (\<lambda>(ident, s1).
         Inr (Continue, put (Added ident) s1))))
      else v1_userCreated env (atoi sel) s)"

definition v1_round :: "env \<Rightarrow> char \<Rightarrow> commander \<Rightarrow> (outcome \<times> commander) cres" where
  "v1_round env below s =
     cbind (show_menu s) (\<lambda>s1.
     case scan_word (stream s1) of
       None \<Rightarrow> Inr (Exit, put LoggedOut (s1\<lparr>stream := []\<rparr>))
     | Some (sel, r) \<Rightarrow>
         if 3 \<le> length sel then Inl OutOfBounds
         else
           (let s2 = s1\<lparr>stream := r\<rparr> in
            cbind (v1_valid_selection sel s2) (\<lambda>v.
            if v = 0 then Inr (Continue, put NotAnOption s2)
            else cbind (v1_dispatch env below sel s2) (\<lambda>(oc, s3).
                 Inr (oc, if oc = Continue then put Greeting s3 else s3)))))"

fun v1_main_loop :: "nat \<Rightarrow> env \<Rightarrow> char \<Rightarrow> commander \<Rightarrow> (outcome \<times> commander) cres" where
  "v1_main_loop 0 env below s = Inl OutOfFuel"
| "v1_main_loop (Suc n) env below s =
     cbind (v1_round env below s) (\<lambda>(oc, s').
     if oc = Continue then v1_main_loop n env below s' else Inr (oc, s'))"

definition v1_boot :: "string \<Rightarrow> commander cres" where
  "v1_boot inp =
     cbind (v1_add_entry ''whoami'' \<lparr>entries = replicate COMMAND_LIMIT None, stream = inp, log = []\<rparr>) (\<lambda>(_, s1).
     cbind (v1_add_entry ''last'' s1) (\<lambda>(_, s2).
     cbind (v1_add_entry ''ls'' s2) (\<lambda>(_, s3).
     Inr (put Greeting s3))))"

definition v1_main :: "nat \<Rightarrow> env \<Rightarrow> char \<Rightarrow> string \<Rightarrow> (outcome \<times> commander) cres" where
  "v1_main n env below inp = cbind (v1_boot inp) (v1_main_loop n env below)"

section \<open>Version 2 extends version 1\<close>

text \<open>What the user sees, elapsed times apart.\<close>

fun timeless :: "event \<Rightarrow> event" where
  "timeless (Stats e a b) = Stats 0 a b"
| "timeless ev = ev"

definition same_session :: "commander \<Rightarrow> commander \<Rightarrow> bool" where
  "same_session s t \<longleftrightarrow> entries s = entries t \<and> stream s = stream t \<and> map timeless (log s) = map timeless (log t)"

definition background_event :: "event \<Rightarrow> bool" where
  "background_event ev \<longleftrightarrow>
     (case ev of Background _ \<Rightarrow> True | _ \<Rightarrow> False) \<or> ev = Title ''-- Background Processes --''"

definition foreground :: "commander \<Rightarrow> bool" where
  "foreground s \<longleftrightarrow> (\<forall>ev \<in> set (log s). \<not> background_event ev)"

named_theorems session_simps \<open>what the operations do to the parts of the state\<close>

lemma same_session_parts [session_simps]:
  "same_session s t \<Longrightarrow> entries t = entries s" "same_session s t \<Longrightarrow> stream t = stream s"
  by (simp_all add: same_session_def)

lemma same_session_put [session_simps]:
  "timeless e = timeless e' \<Longrightarrow> same_session s t \<Longrightarrow> same_session (put e s) (put e' t)"
  by (simp add: same_session_def put_def)

lemma same_session_update [session_simps]:
  "same_session s t \<Longrightarrow> same_session (s\<lparr>stream := r\<rparr>) (t\<lparr>stream := r\<rparr>)"
  "same_session s t \<Longrightarrow> same_session (s\<lparr>entries := es\<rparr>) (t\<lparr>entries := es\<rparr>)"
  by (simp_all add: same_session_def)

lemma timeless_stats [simp]: "timeless (stats f t) = Stats 0 (majflt t) (minflt t)"
  by (simp add: stats_def)

text \<open>Results agree: when the first succeeds, so does the second, with the same outcome and session.\<close>

definition agree :: "('a \<times> commander) cres \<Rightarrow> ('a \<times> commander) cres \<Rightarrow> bool" where
  "agree m m' \<longleftrightarrow> (\<forall>x s. m = Inr (x, s) \<longrightarrow> (\<exists>t. m' = Inr (x, t) \<and> same_session s t))"

lemma agree_Inl [simp]: "agree (Inl e) m'"
  by (simp add: agree_def)

lemma agree_Inr [intro!]: "same_session s t \<Longrightarrow> agree (Inr (x, s)) (Inr (x, t))"
  by (simp add: agree_def)

lemma agree_read: "(\<And>x r. m = Inr (x, r) \<Longrightarrow> agree (f x r) (g x r)) \<Longrightarrow> agree (cbind m (\<lambda>(x, r). f x r)) (cbind m (\<lambda>(x, r). g x r))"
  by (cases m) auto

lemma agree_bind:
  "agree m m' \<Longrightarrow> (\<And>x s t. m = Inr (x, s) \<Longrightarrow> same_session s t \<Longrightarrow> agree (f x s) (g x t)) \<Longrightarrow>
   agree (cbind m (\<lambda>(x, s). f x s)) (cbind m' (\<lambda>(x, s). g x s))"
  by (cases m) (auto simp: agree_def)

lemma userCreated_agree: "same_session s t \<Longrightarrow> agree (userCreated env k s) (v1_userCreated env k t)"
  by (cases "aget (entries s) k")
    (auto simp: userCreated_def v1_userCreated_def session_simps split: option.splits list.splits)

lemma ls_agree: "same_session s t \<Longrightarrow> agree (ls env below s) (v1_ls env below t)"
  unfolding ls_def v1_ls_def Let_def
  by (auto simp: session_simps intro!: agree_read same_session_put same_session_update split: option.splits)

lemma add_entry_agree: "same_session s t \<Longrightarrow> agree (add_entry e s) (v1_add_entry e t)"
  unfolding add_entry_def v1_add_entry_def
  by (auto simp: session_simps agree_def split: option.splits)

lemma changeDir_agree:
  "same_session s t \<Longrightarrow> agree (cbind (changeDir s) (\<lambda>s1. Inr (Continue, s1))) (cbind (v1_changeDir t) (\<lambda>s1. Inr (Continue, s1)))"
  unfolding changeDir_def v1_changeDir_def Let_def
  by (auto simp: session_simps agree_def)

lemma foreground_put: "foreground (put e s) \<longleftrightarrow> \<not> background_event e \<and> foreground s"
  by (auto simp: foreground_def put_def)

lemma dispatch_agree:
  assumes "same_session s t" "sel \<noteq> ''r''" "\<And>oc s'. dispatch env below l sel s = Inr (oc, s') \<Longrightarrow> foreground s'"
  shows "agree (dispatch env below l sel s) (v1_dispatch env below sel t)"
proof -
  note same = same_session_put [OF _ assms(1)]
  consider (menu) "sel \<in> {''0'', ''1'', ''2'', ''e'', ''c'', ''p''}" | (add) "sel = ''a''"
    | (user) "sel \<notin> {''0'', ''1'', ''2'', ''e'', ''c'', ''p'', ''a''}" by blast
  then show ?thesis
  proof cases
    case menu
    then show ?thesis
      by (auto simp: dispatch_def v1_dispatch_def whoami_def v1_whoami_def last_cmd_def v1_last_def pwd_def v1_pwd_def
          intro!: same same_session_put ls_agree changeDir_agree)
  next
    case add
    then show ?thesis using assms(1)
      by (auto simp: dispatch_def v1_dispatch_def session_simps Let_def
          intro!: agree_read agree_bind add_entry_agree same_session_put same_session_update)
  next
    case user
    have "\<not> str_ends_with_ampersand cmd" if "aget (entries s) (atoi sel) = Inr (Some cmd)" for cmd
      using that user assms(2) assms(3) [of Continue "put (Background cmd) s"]
      by (auto simp: dispatch_def foreground_put background_event_def)
    then have "dispatch env below l sel s = userCreated env (atoi sel) s"
      using user assms(2)
      by (cases "aget (entries s) (atoi sel)") (auto simp: dispatch_def userCreated_def split: option.splits)
    moreover have "v1_dispatch env below sel t = v1_userCreated env (atoi sel) t"
      using user by (simp add: v1_dispatch_def)
    ultimately show ?thesis using userCreated_agree [OF assms(1)] by simp
  qed
qed

lemma log_put [simp]: "log (put e s) = log s @ [e]"
  by (simp add: put_def)

lemma ls_log: "ls env below s = Inr (oc, s') \<Longrightarrow> prefix (log s) (log s')"
  unfolding ls_def Let_def by (auto split: prod.splits option.splits)

lemma userCreated_log: "userCreated env k s = Inr (oc, s') \<Longrightarrow> prefix (log s) (log s')"
  unfolding userCreated_def by (auto split: option.splits list.splits)

lemma add_entry_log: "add_entry e s = Inr (i, s') \<Longrightarrow> prefix (log s) (log s')"
  unfolding add_entry_def by (auto split: option.splits)

lemma prefix_put: "prefix (log (put e s)) xs \<Longrightarrow> prefix (log s) xs"
  by (auto simp: prefix_def)

lemma dispatch_log: "dispatch env below l sel s = Inr (oc, s') \<Longrightarrow> prefix (log s) (log s')"
  unfolding dispatch_def Let_def
  by (auto simp: whoami_def last_cmd_def pwd_def changeDir_def list_processes_def Let_def
      split: prod.splits option.splits if_splits dest!: ls_log userCreated_log add_entry_log dest: append_prefixD)

lemma round_log: "round env below l s = Inr (oc, s') \<Longrightarrow> prefix (log s) (log s')"
  unfolding round_def show_menu_def Let_def
  by (auto split: prod.splits option.splits if_splits dest!: dispatch_log append_prefixD)

lemma main_loop_log: "main_loop env below js s = Inr (oc, s') \<Longrightarrow> prefix (log s) (log s')"
  by (induction js arbitrary: s) (fastforce dest: round_log split: if_splits intro: prefix_order.trans)+

lemma foreground_prefix: "prefix (log s) (log s') \<Longrightarrow> foreground s' \<Longrightarrow> foreground s"
  by (auto simp: foreground_def dest: set_mono_prefix)

lemma show_menu_same:
  "same_session s t \<Longrightarrow> show_menu s = Inr s1 \<Longrightarrow> \<exists>t1. show_menu t = Inr t1 \<and> same_session s1 t1"
  by (auto simp: show_menu_def session_simps)

lemma list_processes_background: "\<not> foreground (list_processes l (put (Title ''-- Background Processes --'') s))"
  by (simp add: foreground_def list_processes_def background_event_def)

text \<open>The part of a round behind the selection.\<close>

lemma selected_agree:
  assumes "same_session s t" "sel \<noteq> ''r''"
    and "\<And>oc s'. dispatch env below l sel s = Inr (oc, s') \<Longrightarrow> foreground s'"
  shows "agree (cbind (dispatch env below l sel s) (\<lambda>(oc, s3). Inr (oc, if oc = Continue then put Greeting s3 else s3)))
    (cbind (v1_dispatch env below sel t) (\<lambda>(oc, s3). Inr (oc, if oc = Continue then put Greeting s3 else s3)))"
  by (rule agree_bind [OF dispatch_agree [OF assms]]) (auto intro: same_session_put)

lemma round_agree:
  assumes "same_session s t" and fg: "\<And>oc s'. round env below l s = Inr (oc, s') \<Longrightarrow> foreground s'"
  shows "agree (round env below l s) (v1_round env below t)"
proof (cases "show_menu s")
  case (Inr s1)
  then obtain t1 where t1: "show_menu t = Inr t1" "same_session s1 t1" using show_menu_same [OF assms(1)] by blast
  note same = t1(2) and parts = same_session_parts [OF t1(2)]
  show ?thesis
  proof (cases "scan_word (stream s1)")
    case None
    then show ?thesis using Inr t1(1) same parts
      by (auto simp: round_def v1_round_def intro!: same_session_put same_session_update)
  next
    case (Some p)
    obtain sel r where p: "p = (sel, r)" by (cases p)
    let ?s2 = "s1\<lparr>stream := r\<rparr>" and ?t2 = "t1\<lparr>stream := r\<rparr>"
    have s2: "same_session ?s2 ?t2" using same by (rule same_session_update)
    show ?thesis
    proof (cases "3 \<le> length sel")
      case False
      have r: "round env below l s = cbind (valid_selection sel ?s2) (\<lambda>v.
            if v = 0 then Inr (Continue, put NotAnOption ?s2)
            else cbind (dispatch env below l sel ?s2) (\<lambda>(oc, s3). Inr (oc, if oc = Continue then put Greeting s3 else s3)))"
        using Inr Some p False by (simp add: round_def Let_def)
      have v1: "v1_round env below t = cbind (v1_valid_selection sel ?t2) (\<lambda>v.
            if v = 0 then Inr (Continue, put NotAnOption ?t2)
            else cbind (v1_dispatch env below sel ?t2) (\<lambda>(oc, s3). Inr (oc, if oc = Continue then put Greeting s3 else s3)))"
        using t1(1) Some p False parts by (simp add: v1_round_def Let_def)
      have nr: "sel \<noteq> ''r''"
        using fg [of Continue "put Greeting (list_processes l (put (Title ''-- Background Processes --'') ?s2))"]
          list_processes_background [of l ?s2]
        by (auto simp: r valid_selection_def dispatch_def foreground_put)
      have v: "v1_valid_selection sel ?t2 = valid_selection sel ?s2"
        using nr parts by (simp add: v1_valid_selection_def valid_selection_def)
      show ?thesis
      proof (cases "valid_selection sel ?s2")
        case (Inr k)
        have "foreground s'" if "k \<noteq> 0" "dispatch env below l sel ?s2 = Inr (oc, s')" for oc s'
          using that Inr fg [of oc "if oc = Continue then put Greeting s' else s'"]
          by (auto simp: r foreground_put split: if_splits)
        then show ?thesis
          using Inr v nr s2 by (auto simp: r v1 intro!: selected_agree same_session_put)
      qed (simp add: r)
    qed (use Inr Some p in \<open>simp add: round_def\<close>)
  qed
qed (simp add: round_def)

lemma main_loop_agree:
  assumes "same_session s t" "main_loop env below js s = Inr (oc, s')" "foreground s'"
  shows "\<exists>t'. v1_main_loop (length js) env below t = Inr (oc, t') \<and> same_session s' t'"
  using assms
proof (induction js arbitrary: s t)
  case (Cons l js)
  then obtain oc1 s1 where r: "round env below l s = Inr (oc1, s1)"
    and rest: "(if oc1 = Continue then main_loop env below js s1 else Inr (oc1, s1)) = Inr (oc, s')" by auto
  have "foreground s1"
    using rest Cons.prems(3) by (auto split: if_splits dest: main_loop_log foreground_prefix)
  then obtain t1 where t1: "v1_round env below t = Inr (oc1, t1)" "same_session s1 t1"
    using round_agree [OF Cons.prems(1), of env below l] r by (auto simp: agree_def)
  show ?case
  proof (cases "oc1 = Continue")
    case True
    then show ?thesis using rest t1 Cons.IH [OF t1(2)] Cons.prems(3) by simp
  next
    case False
    then show ?thesis using rest t1 by auto
  qed
qed simp

lemma boot_same: "v1_boot inp = boot inp"
  by (simp add: v1_boot_def boot_def v1_add_entry_def add_entry_def)

lemma same_session_refl: "same_session s s"
  by (simp add: same_session_def)


lemma example_session:
  "case main example_env CHR ''x'' [[], [], []] ''0 e'' of Inr (oc, s) \<Rightarrow> oc = Exit \<and> foreground s | Inl _ \<Rightarrow> False"
  by code_simp


end
