(* ===== verification/Commander_V0.thy ===== *)
theory Commander_V0
  imports Commander
begin

text \<open>
  Mid-Day Commander, version 0 (src/project-1/v0/main.c): three fixed commands, chosen by a number that
  \<^verbatim>\<open>scanf("%d", ...)\<close> reads. The operations are translated from that file over the state and the events of
  \<open>Commander\<close>, whose array of entries version 0 does not have: it stays empty.
\<close>

section \<open>Reading a number\<close>

definition OPTIONS :: int where "OPTIONS = 2"

datatype scanned = EndOfInput | NoMatch string | Number int string

text \<open>
  White space is skipped; the end of the input before anything else is the result \<^verbatim>\<open>EOF\<close>. A character that
  cannot start a number stays in the input. C leaves a number outside \<open>int\<close> undefined; the 32-bit
  GNU library saturates, as for \<^verbatim>\<open>atoi\<close>.
\<close>

definition scan_int :: "string \<Rightarrow> scanned" where
  "scan_int inp =
     (case dropWhile is_space inp of
        [] \<Rightarrow> EndOfInput
      | c # r \<Rightarrow>
          (let ds = (if c = CHR ''-'' \<or> c = CHR ''+'' then r else c # r);
               v = digits_value (takeWhile is_digit ds)
           in if takeWhile is_digit ds = [] then NoMatch ds
              else Number (max INT_MIN (min INT_MAX (if c = CHR ''-'' then - v else v))) (dropWhile is_digit ds)))"

section \<open>Commands\<close>

definition v0_whoami :: "env \<Rightarrow> commander \<Rightarrow> commander" where
  "v0_whoami env s = put (stats elapsed_ms (env [''whoami''])) (put (Exec [''whoami'']) s)"

definition v0_last :: "env \<Rightarrow> commander \<Rightarrow> commander" where
  "v0_last env s = put (stats elapsed_ms (env [''last''])) (put (Exec [''last'']) s)"

definition v0_ls :: "env \<Rightarrow> char \<Rightarrow> commander \<Rightarrow> (outcome \<times> commander) cres" where
  "v0_ls env below s =
     (let s0 = put (Prompt ''Arguments?: '') s in
      cbind (read_line (stream s0)) (\<lambda>(arg, r1).
      (let s1 = put (Prompt ''Path?: '') (s0\<lparr>stream := r1\<rparr>) in
      cbind (read_dir below r1) (\<lambda>(dir, r2).
      (let s2 = s1\<lparr>stream := r2\<rparr> in
       case split_args 98 1 arg of
         None \<Rightarrow> Inr (Stuck, s2)
       | Some args \<Rightarrow>
           (let argv = ''ls'' # args @ [dir] in
            Inr (Continue, put (stats elapsed_ms (env argv)) (put (Exec argv) s2))))))))"

section \<open>main\<close>

definition v0_dispatch :: "env \<Rightarrow> char \<Rightarrow> int \<Rightarrow> commander \<Rightarrow> (outcome \<times> commander) cres" where
  "v0_dispatch env below selection s =
     (if selection = 0 then Inr (Continue, v0_whoami env (put (Title ''-- Who Am I? --'') s))
      else if selection = 1 then Inr (Continue, v0_last env (put (Title ''-- Last Logins --'') s))
      else if selection = 2 then v0_ls env below (put (Title ''-- Directory Listing --'') s)
      else Inr (Continue, s))"

definition invalid_option :: "int \<Rightarrow> bool" where
  "invalid_option selection \<longleftrightarrow> selection < 0 \<or> selection > OPTIONS"

text \<open>One round of the inner loop, with the value \<^verbatim>\<open>selection\<close> has so far; after a command the outer loop greets
  and sets it back to -2.\<close>

definition v0_round :: "env \<Rightarrow> char \<Rightarrow> int \<Rightarrow> commander \<Rightarrow> (outcome \<times> int \<times> commander) cres" where
  "v0_round env below selection s =
     (let s1 = put (Menu []) s;
          chosen = (\<lambda>k r. let s2 = s1\<lparr>stream := r\<rparr> in
            if invalid_option k then Inr (Continue, k, put NotAnOption s2)
            else cbind (v0_dispatch env below k s2) (\<lambda>(oc, s3).
                 Inr (oc, -2, if oc = Continue then put Greeting s3 else s3)))
      in case scan_int (stream s1) of
           EndOfInput \<Rightarrow> Inr (Exit, selection, put LoggedOut (s1\<lparr>stream := []\<rparr>))
         | NoMatch r \<Rightarrow> chosen selection r
         | Number k r \<Rightarrow> chosen k r)"

fun v0_main_loop :: "nat \<Rightarrow> env \<Rightarrow> char \<Rightarrow> int \<Rightarrow> commander \<Rightarrow> (outcome \<times> commander) cres" where
  "v0_main_loop 0 env below selection s = Inl OutOfFuel"
| "v0_main_loop (Suc n) env below selection s =
     cbind (v0_round env below selection s) (\<lambda>(oc, k, s').
     if oc = Continue then v0_main_loop n env below k s' else Inr (oc, s'))"

definition v0_main :: "nat \<Rightarrow> env \<Rightarrow> char \<Rightarrow> string \<Rightarrow> (outcome \<times> commander) cres" where
  "v0_main n env below inp = v0_main_loop n env below (-2) (put Greeting \<lparr>entries = [], stream = inp, log = []\<rparr>)"

section \<open>Sessions\<close>

text \<open>A number followed by white space is read exactly.\<close>

lemma scan_int_number:
  assumes "int k \<le> INT_MAX"
  shows "scan_int (print_nat k @ newline # r) = Number (int k) (newline # r)"
proof -
  obtain d ds where p: "print_nat k = d # ds" using print_nat_not_Nil by (cases "print_nat k") auto
  have dig: "\<forall>c \<in> set (print_nat k). is_digit c" by (simp add: print_nat_digits)
  then have d: "is_digit d" using p by simp
  then have ns: "\<not> is_space d" "d \<noteq> CHR ''-''" "d \<noteq> CHR ''+''" using digit_not by auto
  have nl: "\<not> is_digit newline" by code_simp
  have "takeWhile is_digit (print_nat k @ newline # r) = print_nat k"
    "dropWhile is_digit (print_nat k @ newline # r) = newline # r"
    using dig nl by (simp_all add: takeWhile_append2 dropWhile_append2)
  then show ?thesis
    using assms ns p digits_value_print_nat [of k] by (simp add: scan_int_def Let_def INT_MIN_def)
qed

text \<open>White space before the number does not matter.\<close>

lemma scan_int_space: "is_space c \<Longrightarrow> scan_int (c # r) = scan_int r"
  by (simp add: scan_int_def)

lemma v0_round_space: "is_space c \<Longrightarrow> v0_round env below k (s\<lparr>stream := c # r\<rparr>) = v0_round env below k (s\<lparr>stream := r\<rparr>)"
  by (cases "scan_int r") (simp_all add: v0_round_def put_def scan_int_space Let_def)

text \<open>What the program answers to one number.\<close>

fun answer :: "env \<Rightarrow> nat \<Rightarrow> event list" where
  "answer env k =
     (if k = 0 then [Menu [], Title ''-- Who Am I? --'', Exec [''whoami''], stats elapsed_ms (env [''whoami'']), Greeting]
      else if k = 1 then [Menu [], Title ''-- Last Logins --'', Exec [''last''], stats elapsed_ms (env [''last'']), Greeting]
      else [Menu [], NotAnOption])"

lemma v0_round_number:
  assumes "int k \<le> INT_MAX" "k \<noteq> 2" "stream s = print_nat k @ newline # r"
  shows "\<exists>j. v0_round env below i s = Inr (Continue, j, s\<lparr>stream := newline # r, log := log s @ answer env k\<rparr>)"
  using assms scan_int_number [OF assms(1), of r]
  by (auto simp: v0_round_def put_def Let_def invalid_option_def OPTIONS_def v0_dispatch_def v0_whoami_def v0_last_def)

definition typed :: "nat list \<Rightarrow> string" where
  "typed ks = concat (map (\<lambda>k. print_nat k @ [newline]) ks)"

lemma newline_space: "is_space newline"
  by code_simp

lemma v0_session_loop:
  assumes "\<forall>k \<in> set ks. k \<noteq> 2 \<and> int k \<le> INT_MAX" "stream s = typed ks \<or> stream s = newline # typed ks" "length ks < n"
  shows "\<exists>s'. v0_main_loop n env below i s = Inr (Exit, s') \<and>
    log s' = log s @ concat (map (answer env) ks) @ [Menu [], LoggedOut]"
  using assms
proof (induction ks arbitrary: n i s)
  case Nil
  then have "scan_int (stream s) = EndOfInput" by (auto simp: typed_def scan_int_def newline_space)
  then show ?case using Nil by (cases n) (auto simp: v0_round_def put_def Let_def)
next
  case (Cons k ks)
  obtain m where n: "n = Suc m" using Cons.prems(3) by (cases n) auto
  let ?t = "print_nat k @ newline # typed ks"
  have "stream s = ?t \<or> stream s = newline # ?t" using Cons.prems(2) by (simp add: typed_def)
  moreover have same: "s\<lparr>stream := u\<rparr> = s" if "stream s = u" for u using that by (cases s) simp
  ultimately have "v0_round env below i s = v0_round env below i (s\<lparr>stream := ?t\<rparr>)"
    using v0_round_space [where c = newline and s = s and r = ?t and env = env and below = below and k = i] newline_space
    by (metis same)
  moreover obtain j where "v0_round env below i (s\<lparr>stream := ?t\<rparr>) =
      Inr (Continue, j, s\<lparr>stream := newline # typed ks, log := log s @ answer env k\<rparr>)"
    using v0_round_number [of k "s\<lparr>stream := ?t\<rparr>" "typed ks" env below i] Cons.prems(1) by auto
  ultimately have r: "v0_round env below i s = Inr (Continue, j, s\<lparr>stream := newline # typed ks, log := log s @ answer env k\<rparr>)"
    by simp
  show ?case
    using Cons.IH [of "s\<lparr>stream := newline # typed ks, log := log s @ answer env k\<rparr>" m j] Cons.prems(1,3) n r by auto
qed

text \<open>Version 0 answers a session of typed numbers, one a line, number by number: 0 and 1 run their commands, other
  numbers (but 2, which goes on to ask for the arguments of \<^verbatim>\<open>ls\<close>) are refused, and the end of the input
  logs out.\<close>

theorem v0_session:
  assumes "\<forall>k \<in> set ks. k \<noteq> 2 \<and> int k \<le> INT_MAX" "length ks < n"
  shows "\<exists>s. v0_main n env below (typed ks) = Inr (Exit, s) \<and>
    log s = Greeting # concat (map (answer env) ks) @ [Menu [], LoggedOut]"
  using v0_session_loop [OF assms(1) _ assms(2), of "put Greeting \<lparr>entries = [], stream = typed ks, log = []\<rparr>" env below "-2"]
  by (simp add: v0_main_def put_def)

theorem v0_session_witness:
  "\<exists>s. v0_main 3 example_env CHR ''x'' (typed [0, 7]) = Inr (Exit, s) \<and>
    log s = [Greeting, Menu [], Title ''-- Who Am I? --'', Exec [''whoami''], stats elapsed_ms (example_env [''whoami'']), Greeting,
      Menu [], NotAnOption, Menu [], LoggedOut]"
  using v0_session [of "[0, 7]" 3 example_env "CHR ''x''"] by (simp add: INT_MAX_def)

section \<open>A selection that is not a number\<close>

lemma scan_int_stuck:
  "\<not> is_space c \<Longrightarrow> \<not> is_digit c \<Longrightarrow> c \<noteq> CHR ''-'' \<Longrightarrow> c \<noteq> CHR ''+'' \<Longrightarrow> scan_int (c # r) = NoMatch (c # r)"
  by (simp add: scan_int_def)

lemma v0_round_stuck:
  assumes "\<not> is_space c" "\<not> is_digit c" "c \<noteq> CHR ''-''" "c \<noteq> CHR ''+''" "stream s = c # r" "invalid_option i"
  shows "v0_round env below i s = Inr (Continue, i, put NotAnOption (put (Menu []) s))"
  using assms scan_int_stuck [OF assms(1-4), of r] by (simp add: v0_round_def put_def Let_def)

lemma v0_loop_stuck:
  assumes "\<not> is_space c" "\<not> is_digit c" "c \<noteq> CHR ''-''" "c \<noteq> CHR ''+''"
  shows "stream s = c # r \<Longrightarrow> invalid_option i \<Longrightarrow> v0_main_loop n env below i s = Inl OutOfFuel"
  by (induction n arbitrary: s) (simp_all add: v0_round_stuck [OF assms])

text \<open>Typing anything that does not start like a number makes version 0 loop for ever: \<^verbatim>\<open>scanf\<close> leaves the
  character in the input, so every later round finds it again, and no number of rounds is enough.\<close>

theorem v0_letter_loops:
  assumes "\<not> is_space c" "\<not> is_digit c" "c \<noteq> CHR ''-''" "c \<noteq> CHR ''+''"
  shows "v0_main n env below (c # r) = Inl OutOfFuel"
  by (simp add: v0_main_def v0_loop_stuck [OF assms] put_def invalid_option_def)

theorem v0_letter_loops_witness: "v0_main 1000 example_env CHR ''x'' ''exit'' = Inl OutOfFuel"
  by (rule v0_letter_loops) code_simp+

end
