(* ===== verification/Ancestry.thy ===== *)
theory Ancestry
  imports Prelude
begin

text \<open>
  The system call of project 2 that reports a process's relatives
  (src/project-2/cs3013_project2.c, \<^verbatim>\<open>new_sys_cs3013_syscall2\<close>) and the program that calls it
  (src/project-2/procAncestry.c).

  The kernel's process table is not part of the repository: it is the parameter \<open>kernel\<close>, with the
  lookup \<^verbatim>\<open>pid_task(find_vpid(p), PIDTYPE_PID)\<close>, the fields of \<^verbatim>\<open>task_struct\<close> the code reads and, in
  \<open>kids\<close>, the order of the circular list in which the kernel links a task's children. The head of
  that list is the field \<^verbatim>\<open>children\<close> of the parent; \<^verbatim>\<open>list_entry\<close> of it is not a task, and \<open>head_pid\<close> is
  the number found where the \<^verbatim>\<open>pid\<close> of one would lie. \<^verbatim>\<open>kmalloc\<close> is taken to succeed; what is given to
  \<^verbatim>\<open>kfree\<close> is part of the result.
\<close>

section \<open>Tasks and their lists\<close>

record 'task kernel =
  find_task :: "16 word \<Rightarrow> 'task option"
  pid :: "'task \<Rightarrow> int"
  parent :: "'task \<Rightarrow> 'task option"
  real_parent :: "'task \<Rightarrow> 'task option"
  kids :: "'task \<Rightarrow> 'task list"
  head_pid :: "'task \<Rightarrow> int"

datatype 'task node = Head 'task | Sib 'task

definition children_ring :: "('task, 'a) kernel_scheme \<Rightarrow> 'task \<Rightarrow> 'task node list" where
  "children_ring k p = Head p # map Sib (kids k p)"

text \<open>The ring a task's \<^verbatim>\<open>sibling\<close> field is linked into; a task that is on no list of children is alone in its own.\<close>

definition sibling_ring :: "('task, 'a) kernel_scheme \<Rightarrow> 'task \<Rightarrow> 'task node list" where
  "sibling_ring k t =
     (case real_parent k t of
        None \<Rightarrow> [Sib t]
      | Some p \<Rightarrow> if t \<in> set (kids k p) then children_ring k p else [Sib t])"

text \<open>\<^verbatim>\<open>list_for_each(pos, head)\<close>: every other element of the ring, from the one after \<^verbatim>\<open>head\<close> on.\<close>

definition list_for_each :: "'n list \<Rightarrow> 'n \<Rightarrow> 'n list" where
  "list_for_each r x = tl (dropWhile (\<lambda>y. y \<noteq> x) r) @ takeWhile (\<lambda>y. y \<noteq> x) r"

definition entry_pid :: "('task, 'a) kernel_scheme \<Rightarrow> 'task node \<Rightarrow> int" where
  "entry_pid k n = (case n of Sib t \<Rightarrow> pid k t | Head p \<Rightarrow> head_pid k p)"

section \<open>The system call\<close>

record ancestry =
  ancestors :: "int list"
  siblings :: "int list"
  children :: "int list"

definition wf_ancestry :: "ancestry \<Rightarrow> bool" where
  "wf_ancestry a \<longleftrightarrow> length (ancestors a) = 10 \<and> length (siblings a) = 100 \<and> length (children a) = 100"

function fill_with_ancestor :: "('task, 'a) kernel_scheme \<Rightarrow> int list \<Rightarrow> 'task option \<Rightarrow> nat \<Rightarrow> int list" where
  "fill_with_ancestor k anc cur i =
     (if i > 9 then anc
      else
        case cur of
          None \<Rightarrow> anc
        | Some c \<Rightarrow>
            if i \<noteq> 0 \<and> pid k c = anc ! (i - 1) then anc
            else fill_with_ancestor k (anc[i := pid k c]) (parent k c) (i + 1))"
  by pat_completeness auto
termination
  by (relation "measure (\<lambda>(k, anc, cur, i). 10 - i)") auto

declare fill_with_ancestor.simps [simp del]

text \<open>The loops of lines 75-84 and 87-96: the array, and the entry the pointer variable is left at.\<close>

fun fill_list :: "('n \<Rightarrow> int) \<Rightarrow> 'n list \<Rightarrow> nat \<Rightarrow> 'n option \<Rightarrow> int list \<Rightarrow> 'n option \<times> int list" where
  "fill_list f [] i cur a = (cur, a)"
| "fill_list f (n # ns) i cur a =
     (if i \<le> 99 then fill_list f ns (i + 1) (Some n) (a[i := f n]) else fill_list f ns i cur a)"

text \<open>Pointers given to \<^verbatim>\<open>kfree\<close>. The calls of \<^verbatim>\<open>kmalloc\<close> are numbered: \<^verbatim>\<open>cur_sib\<close> 0, \<^verbatim>\<open>kancestry\<close> 1, \<^verbatim>\<open>t\<close> 2,
  \<^verbatim>\<open>cur_child\<close> 3.\<close>

datatype 'task pointer = NullPtr | Kmalloc nat | Task "'task node"

text \<open>
  The arguments are what \<^verbatim>\<open>copy_from_user\<close> finds at the two addresses (\<open>None\<close>: it fails) and whether
  \<^verbatim>\<open>copy_to_user\<close> works. The result is the returned number, the caller's struct afterwards (\<open>None\<close> where it
  is not determined) and the pointers freed.
\<close>

definition new_sys_cs3013_syscall2 ::
    "('task, 'a) kernel_scheme \<Rightarrow> 16 word option \<Rightarrow> ancestry option \<Rightarrow> bool \<Rightarrow> int \<times> ancestry option \<times> 'task pointer list" where
  "new_sys_cs3013_syscall2 k target_pid response writable =
     (case target_pid of
        None \<Rightarrow> (-1, response, [Kmalloc 1, Kmalloc 2, Kmalloc 3])
      | Some ktarget_pid \<Rightarrow>
     (case response of
        None \<Rightarrow> (-1, response, [Kmalloc 1, Kmalloc 2, Kmalloc 3])
      | Some kancestry \<Rightarrow>
     (case find_task k ktarget_pid of
        None \<Rightarrow> (-2, response, [Kmalloc 1, NullPtr, Kmalloc 3])
      | Some t \<Rightarrow>
          (let (cur_child, cs) =
                 fill_list (entry_pid k) (list_for_each (children_ring k t) (Head t)) 0 None (children kancestry);
               (_, ss) =
                 fill_list (entry_pid k) (list_for_each (sibling_ring k t) (Sib t)) 0 None (siblings kancestry);
               as = fill_with_ancestor k (ancestors kancestry) (parent k t) 0;
               freed = [Kmalloc 1, Task (Sib t), case cur_child of None \<Rightarrow> Kmalloc 3 | Some n \<Rightarrow> Task n]
           in if writable
              then (0, Some \<lparr>ancestors = as, siblings = ss, children = cs\<rparr>, freed)
              else (-3, None, freed)))))"

section \<open>procAncestry\<close>

datatype report = Usage | NotValid | ChildPid int | SiblingPid int | AncestorPid int

text \<open>\<^verbatim>\<open>while(a[i] != -1 && i < n)\<close>: the element is read before the index is tested.\<close>

fun print_pids :: "(int \<Rightarrow> report) \<Rightarrow> int list \<Rightarrow> report list cres" where
  "print_pids f [] = Inl OutOfBounds"
| "print_pids f (x # xs) = (if x \<noteq> -1 then cbind (print_pids f xs) (\<lambda>l. Inr (f x # l)) else Inr [])"

definition fresh_ancestry :: ancestry where
  "fresh_ancestry = \<lparr>ancestors = replicate 10 (-1), siblings = replicate 100 (-1), children = replicate 100 (-1)\<rparr>"

text \<open>\<open>argv\<close> includes the program's name; \<open>syscall\<close> is \<^verbatim>\<open>syscall(__NR_cs3013_syscall2, ...)\<close>.\<close>

definition procAncestry_main :: "(16 word \<Rightarrow> ancestry \<Rightarrow> int \<times> ancestry) \<Rightarrow> string list \<Rightarrow> (int \<times> report list) cres" where
  "procAncestry_main syscall argv =
     (if length argv \<noteq> 2 \<or> atoi (argv ! 1) \<le> 0 \<and> (case argv ! 1 of c # _ \<Rightarrow> c | [] \<Rightarrow> CHR 0x00) \<noteq> CHR ''0''
      then Inr (1, [Usage])
      else
        (let target_pid = word_of_int (atoi (argv ! 1));
             (r, anc) = syscall target_pid fresh_ancestry;
             out = (if r = -1 then [NotValid] else [])
         in cbind (print_pids ChildPid (children anc)) (\<lambda>cs.
            cbind (print_pids SiblingPid (siblings anc)) (\<lambda>ss.
            cbind (print_pids AncestorPid (ancestors anc)) (\<lambda>as.
            Inr (0, out @ cs @ ss @ as))))))"

text \<open>The C library's \<^verbatim>\<open>syscall\<close> turns the results -4095 to -1 into -1 and an error number.\<close>

definition libc_result :: "int \<Rightarrow> int" where
  "libc_result r = (if - 4095 \<le> r \<and> r \<le> -1 then -1 else r)"

definition call_syscall2 :: "('task, 'a) kernel_scheme \<Rightarrow> 16 word \<Rightarrow> ancestry \<Rightarrow> int \<times> ancestry" where
  "call_syscall2 k w a =
     (case new_sys_cs3013_syscall2 k (Some w) (Some a) True of
        (r, a', _) \<Rightarrow> (libc_result r, case a' of Some b \<Rightarrow> b | None \<Rightarrow> a))"

section \<open>Filling the arrays\<close>

text \<open>The values of a list over the front of an array.\<close>

definition overlay :: "int list \<Rightarrow> int list \<Rightarrow> int list" where
  "overlay vs a = take (length a) vs @ drop (length vs) a"

lemma length_overlay [simp]: "length (overlay vs a) = length a"
  by (simp add: overlay_def)

lemma take_update_Suc: "i < length a \<Longrightarrow> take (Suc i) (a[i := v]) = take i a @ [v]"
  by (simp add: take_Suc_conv_app_nth)

lemma take_room: "i \<le> 99 \<Longrightarrow> take (100 - i) (n # ns) = n # take (99 - i) ns"
proof -
  assume "i \<le> 99"
  then have "100 - i = Suc (99 - i)" by simp
  then show ?thesis by simp
qed

lemma fill_list_array:
  "length a = 100 \<Longrightarrow> i \<le> 100 \<Longrightarrow>
   snd (fill_list f ns i cur a) = take i a @ map f (take (100 - i) ns) @ drop (i + length ns) a"
proof (induction f ns i cur a rule: fill_list.induct)
  case (2 f n ns i cur a)
  show ?case
  proof (cases "i \<le> 99")
    case True
    then show ?thesis using 2 True take_room [OF True, of n ns] by (simp add: take_update_Suc)
  next
    case False
    then show ?thesis using 2 by simp
  qed
qed simp

lemma fill_list_overlay: "length a = 100 \<Longrightarrow> snd (fill_list f ns 0 cur a) = overlay (map f ns) a"
  using fill_list_array [of a 0 f ns cur] by (simp add: overlay_def take_map)

lemma fill_list_last:
  "i \<le> 100 \<Longrightarrow> fst (fill_list f ns i cur a) = (case take (100 - i) ns of [] \<Rightarrow> cur | vs \<Rightarrow> Some (last vs))"
proof (induction f ns i cur a rule: fill_list.induct)
  case (2 f n ns i cur a)
  show ?case
  proof (cases "i \<le> 99")
    case True
    then show ?thesis using 2 True take_room [OF True, of n ns] by (auto split: list.splits)
  next
    case False
    then show ?thesis using 2 by simp
  qed
qed simp

text \<open>The ancestors, nearest first: at most \<open>n\<close>, up to one whose number repeats (the root is its own parent).\<close>

fun lineage :: "('task, 'a) kernel_scheme \<Rightarrow> nat \<Rightarrow> int option \<Rightarrow> 'task option \<Rightarrow> int list" where
  "lineage k 0 prev cur = []"
| "lineage k (Suc n) prev cur =
     (case cur of
        None \<Rightarrow> []
      | Some c \<Rightarrow> if prev = Some (pid k c) then [] else pid k c # lineage k n (Some (pid k c)) (parent k c))"

lemma lineage_length: "length (lineage k n prev cur) \<le> n"
  by (induction n arbitrary: prev cur) (auto split: option.split)

lemma fill_with_ancestor_lineage:
  assumes "length anc = 10" "i \<le> 10"
  shows "fill_with_ancestor k anc cur i =
    (let l = lineage k (10 - i) (if i = 0 then None else Some (anc ! (i - 1))) cur in take i anc @ l @ drop (i + length l) anc)"
  using assms
proof (induction k anc cur i rule: fill_with_ancestor.induct)
  case (1 k anc cur i)
  show ?case
  proof (cases "i > 9 \<or> cur = None \<or> (i \<noteq> 0 \<and> pid k (the cur) = anc ! (i - 1))")
    case True
    then have stop: "fill_with_ancestor k anc cur i = anc"
      by (subst fill_with_ancestor.simps) (auto split: option.split)
    have "lineage k (10 - i) (if i = 0 then None else Some (anc ! (i - 1))) cur = []"
      using True by (cases "10 - i") (auto split: option.split)
    then show ?thesis using stop by simp
  next
    case False
    then obtain c where c: "cur = Some c" and i: "i \<le> 9" and n: "i = 0 \<or> pid k c \<noteq> anc ! (i - 1)" by auto
    then have s: "10 - i = Suc (9 - i)" by simp
    have step: "fill_with_ancestor k anc cur i = fill_with_ancestor k (anc[i := pid k c]) (parent k c) (i + 1)"
      using c i n by (subst fill_with_ancestor.simps) auto
    have "fill_with_ancestor k (anc[i := pid k c]) (parent k c) (i + 1) =
      (let l = lineage k (9 - i) (Some (pid k c)) (parent k c) in
       take (Suc i) (anc[i := pid k c]) @ l @ drop (Suc i + length l) (anc[i := pid k c]))"
      using 1(1) [OF _ c] 1(2) i n by simp
    then show ?thesis using step s c n i 1(2) by (auto simp: Let_def take_update_Suc)
  qed
qed

lemma fill_ancestors: "length anc = 10 \<Longrightarrow> fill_with_ancestor k anc cur 0 = overlay (lineage k 10 None cur) anc"
  using fill_with_ancestor_lineage [of anc 0 k cur] lineage_length [of k 10 None cur]
  by (simp add: overlay_def Let_def)

section \<open>The lists of relatives\<close>

lemma list_for_each_split: "x \<notin> set r1 \<Longrightarrow> list_for_each (r1 @ x # r2) x = r2 @ r1"
proof -
  assume x: "x \<notin> set r1"
  then have "\<forall>y \<in> set r1. y \<noteq> x" by auto
  then show ?thesis by (simp add: list_for_each_def takeWhile_append2 dropWhile_append2)
qed

lemma children_walk: "list_for_each (children_ring k t) (Head t) = map Sib (kids k t)"
  using list_for_each_split [of "Head t" "[]" "map Sib (kids k t)"] by (simp add: children_ring_def)

lemma sibling_walk:
  assumes "real_parent k t = Some p" "kids k p = xs @ t # ys" "t \<notin> set xs"
  shows "list_for_each (sibling_ring k t) (Sib t) = map Sib ys @ Head p # map Sib xs"
proof -
  have "sibling_ring k t = (Head p # map Sib xs) @ Sib t # map Sib ys"
    using assms by (simp add: sibling_ring_def children_ring_def)
  then show ?thesis using assms(3) list_for_each_split [of "Sib t" "Head p # map Sib xs"] by auto
qed

lemma entry_pid_simps [simp]: "entry_pid k (Sib t) = pid k t" "entry_pid k (Head p) = head_pid k p"
  by (simp_all add: entry_pid_def)

lemma map_entry_pid [simp]: "map (entry_pid k) (map Sib ts) = map (pid k) ts"
  by simp

section \<open>What the system call does\<close>

text \<open>The child the variable \<^verbatim>\<open>cur_child\<close> points to after the loop.\<close>

definition last_child :: "('task, 'a) kernel_scheme \<Rightarrow> 'task \<Rightarrow> 'task pointer" where
  "last_child k t = (case take 100 (kids k t) of [] \<Rightarrow> Kmalloc 3 | cs \<Rightarrow> Task (Sib (last cs)))"

lemma syscall2_found:
  assumes "wf_ancestry a" "find_task k w = Some t" "real_parent k t = Some p" "kids k p = xs @ t # ys" "t \<notin> set xs"
  shows "new_sys_cs3013_syscall2 k (Some w) (Some a) True =
    (0, Some \<lparr>ancestors = overlay (lineage k 10 None (parent k t)) (ancestors a),
              siblings = overlay (map (pid k) ys @ head_pid k p # map (pid k) xs) (siblings a),
              children = overlay (map (pid k) (kids k t)) (children a)\<rparr>,
     [Kmalloc 1, Task (Sib t), last_child k t])"
proof -
  let ?c = "fill_list (entry_pid k) (map Sib (kids k t)) 0 None (children a)"
  let ?s = "fill_list (entry_pid k) (map Sib ys @ Head p # map Sib xs) 0 None (siblings a)"
  have l: "length (ancestors a) = 10" "length (siblings a) = 100" "length (children a) = 100"
    using assms(1) by (simp_all add: wf_ancestry_def)
  have c: "snd ?c = overlay (map (pid k) (kids k t)) (children a)"
    by (simp only: fill_list_overlay [OF l(3)] map_entry_pid)
  have s: "snd ?s = overlay (map (pid k) ys @ head_pid k p # map (pid k) xs) (siblings a)"
    by (simp add: fill_list_overlay [OF l(2)] comp_def)
  have f: "(case fst ?c of None \<Rightarrow> Kmalloc 3 | Some n \<Rightarrow> Task n) = last_child k t"
    by (simp add: fill_list_last last_child_def take_map last_map split: list.split)
  show ?thesis
    using c s f unfolding new_sys_cs3013_syscall2_def
    by (auto simp: assms(2) children_walk sibling_walk [OF assms(3-5)] fill_ancestors [OF l(1)] Let_def split: prod.split)
qed

text \<open>For a process that exists the system call fills the caller's struct with the process numbers of its first
  hundred children, of its siblings in the order of the kernel's ring, and of its ancestors up to ten or to the
  root, and leaves the rest of the arrays as they were. Two faults are part of the result: the ring of siblings
  contains the list head in the parent, which is reported as if it were a process; and the memory
  released is not what was allocated but the task itself and the last child looked at, while two allocations stay.\<close>

theorem syscall2_relatives:
  assumes "wf_ancestry a" "find_task k w = Some t" "real_parent k t = Some p" "kids k p = xs @ t # ys" "t \<notin> set xs"
  shows "\<exists>r freed. new_sys_cs3013_syscall2 k (Some w) (Some a) True = (0, Some r, freed) \<and> wf_ancestry r \<and>
    children r = overlay (map (pid k) (kids k t)) (children a) \<and>
    siblings r = overlay (map (pid k) ys @ head_pid k p # map (pid k) xs) (siblings a) \<and>
    ancestors r = overlay (lineage k 10 None (parent k t)) (ancestors a) \<and>
    Task (Sib t) \<in> set freed \<and> (kids k t \<noteq> [] \<longrightarrow> Task (Sib (last (take 100 (kids k t)))) \<in> set freed) \<and>
    Kmalloc 0 \<notin> set freed \<and> Kmalloc 2 \<notin> set freed"
  using assms(1) syscall2_found [OF assms]
  by (auto simp: wf_ancestry_def last_child_def neq_Nil_conv split: list.splits)

definition example_kernel :: "nat kernel" where
  "example_kernel = \<lparr>find_task = (\<lambda>w. if 1 \<le> w \<and> w \<le> 3 then Some (unat w) else None), pid = int,
     parent = (\<lambda>t. if t = 2 \<or> t = 3 then Some 1 else Some 0), real_parent = (\<lambda>t. if t = 2 \<or> t = 3 then Some 1 else Some 0),
     kids = (\<lambda>t. if t = 0 then [1] else if t = 1 then [2, 3] else []), head_pid = (\<lambda>_. 99)\<rparr>"

lemma fresh_wf: "wf_ancestry fresh_ancestry"
  by (simp add: wf_ancestry_def fresh_ancestry_def)

theorem syscall2_relatives_witness:
  "\<exists>r freed. new_sys_cs3013_syscall2 example_kernel (Some 1) (Some fresh_ancestry) True = (0, Some r, freed) \<and>
    children r = [2, 3] @ replicate 98 (-1) \<and> siblings r = 99 # replicate 99 (-1) \<and> Task (Sib 1) \<in> set freed"
proof -
  have k: "find_task example_kernel 1 = Some 1" "real_parent example_kernel 1 = Some 0"
    "kids example_kernel 0 = [] @ 1 # []" "1 \<notin> set []"
    by (simp_all add: example_kernel_def)
  have "overlay [2, 3] (replicate 100 (-1)) = [2, 3] @ replicate 98 (-1)" "overlay [99] (replicate 100 (-1)) = 99 # replicate 99 (-1)"
    by (simp_all add: overlay_def flip: replicate_Suc)
  then show ?thesis
    using syscall2_relatives [OF fresh_wf k] by (auto simp: example_kernel_def fresh_ancestry_def)
qed

section \<open>What the user sees\<close>

lemma overlay_simps:
  "overlay vs [] = []" "overlay [] a = a" "overlay (v # vs) (x # a) = v # overlay vs a"
  by (simp_all add: overlay_def)

lemma print_overlay:
  "-1 \<notin> set vs \<Longrightarrow> print_pids f (overlay vs (replicate n (-1))) = (if length vs < n then Inr (map f vs) else Inl OutOfBounds)"
proof (induction vs arbitrary: n)
  case Nil
  then show ?case by (cases n) (simp_all add: overlay_simps)
next
  case (Cons v vs)
  then show ?case by (cases n) (auto simp: overlay_simps)
qed

lemma lineage_pids: "(\<And>t. pid k t \<noteq> x) \<Longrightarrow> x \<notin> set (lineage k n prev cur)"
  by (induction n arbitrary: prev cur) (auto split: option.split)

text \<open>C18: the program and the system call together: asked for an existing process, procAncestry prints its children, its
  siblings (with the list head among them) and its ancestors, nearest first, if there are fewer than 100, 100 and
  10 of them; with more it reads past the array in which they are stored.\<close>

theorem ancestry_report:
  assumes "0 < n" "n < 65536" "find_task k (of_nat n) = Some t" "real_parent k t = Some p" "kids k p = xs @ t # ys" "t \<notin> set xs"
    and "\<And>t. pid k t \<noteq> -1" "head_pid k p \<noteq> -1"
  shows "procAncestry_main (call_syscall2 k) [prog, print_nat n] =
    (if length (kids k t) < 100 \<and> length (kids k p) < 100 \<and> length (lineage k 10 None (parent k t)) < 10
     then Inr (0, map (\<lambda>c. ChildPid (pid k c)) (kids k t) @
        map SiblingPid (map (pid k) ys @ head_pid k p # map (pid k) xs) @ map AncestorPid (lineage k 10 None (parent k t)))
     else Inl OutOfBounds)"
proof -
  have a: "atoi (print_nat n) = int n" using assms(2) by (intro atoi_print_nat) (simp add: INT_MAX_def)
  have call: "call_syscall2 k (of_nat n) fresh_ancestry =
      (0, \<lparr>ancestors = overlay (lineage k 10 None (parent k t)) (replicate 10 (-1)),
           siblings = overlay (map (pid k) ys @ head_pid k p # map (pid k) xs) (replicate 100 (-1)),
           children = overlay (map (pid k) (kids k t)) (replicate 100 (-1))\<rparr>)"
    using syscall2_found [OF fresh_wf assms(3-6)] by (simp add: call_syscall2_def libc_result_def fresh_ancestry_def)
  have c: "-1 \<notin> set (map (pid k) (kids k t))" "-1 \<notin> set (map (pid k) ys @ head_pid k p # map (pid k) xs)"
    "-1 \<notin> set (lineage k 10 None (parent k t))"
    using assms(7,8) lineage_pids [OF assms(7)] by auto (metis assms(7))+
  show ?thesis
    using assms(1) print_overlay [OF c(1), of ChildPid 100] print_overlay [OF c(2), of SiblingPid 100]
      print_overlay [OF c(3), of AncestorPid 10]
    by (simp add: procAncestry_main_def a call assms(5) comp_def)
qed

theorem ancestry_report_witness:
  "procAncestry_main (call_syscall2 example_kernel) [''procAncestry'', print_nat 2] =
     Inr (0, [SiblingPid 3, SiblingPid 99, AncestorPid 1, AncestorPid 0])"
proof -
  have k: "find_task example_kernel (of_nat 2) = Some 2" "real_parent example_kernel 2 = Some 1"
    "kids example_kernel 1 = [] @ 2 # [3]" "2 \<notin> set []" "pid example_kernel t \<noteq> -1" "head_pid example_kernel 1 \<noteq> -1" for t
    by (simp_all add: example_kernel_def)
  have l: "lineage example_kernel 10 None (parent example_kernel 2) = [1, 0]"
    by (simp add: example_kernel_def eval_nat_numeral)
  show ?thesis
    using ancestry_report [OF _ _ k, of "''procAncestry''"] l by (simp add: example_kernel_def)
qed

text \<open>The error answers: unreadable arguments give -1 and an unknown process -2, and change nothing; a struct that
  cannot be written gives -3. The C library turns each of them into -1, so the program answers an unknown process with
  its message and an empty report, and wrong arguments with its usage line.\<close>

theorem ancestry_errors:
  "fst (new_sys_cs3013_syscall2 k None r b) = -1 \<and> fst (new_sys_cs3013_syscall2 k (Some w) None b) = -1 \<and>
   fst (snd (new_sys_cs3013_syscall2 k None r b)) = r \<and>
   (find_task k w = None \<longrightarrow> fst (new_sys_cs3013_syscall2 k (Some w) (Some a) b) = -2 \<and>
      fst (snd (new_sys_cs3013_syscall2 k (Some w) (Some a) b)) = Some a) \<and>
   (find_task k w \<noteq> None \<longrightarrow> fst (new_sys_cs3013_syscall2 k (Some w) (Some a) False) = -3) \<and>
   (0 < n \<longrightarrow> n < 65536 \<longrightarrow> find_task k (of_nat n) = None \<longrightarrow>
      procAncestry_main (call_syscall2 k) [prog, print_nat n] = Inr (0, [NotValid])) \<and>
   (length argv \<noteq> 2 \<longrightarrow> procAncestry_main (call_syscall2 k) argv = Inr (1, [Usage]))"
proof -
  have "procAncestry_main (call_syscall2 k) [prog, print_nat n] = Inr (0, [NotValid])"
    if "0 < n" "n < 65536" "find_task k (of_nat n) = None"
  proof -
    have a: "atoi (print_nat n) = int n" using that(2) by (intro atoi_print_nat) (simp add: INT_MAX_def)
    have "call_syscall2 k (of_nat n) fresh_ancestry = (-1, fresh_ancestry)"
      using that(3) by (simp add: call_syscall2_def new_sys_cs3013_syscall2_def libc_result_def)
    moreover have "print_pids f (replicate m (-1)) = Inr []" if "0 < m" for f m using that by (cases m) simp_all
    ultimately show ?thesis using that(1) by (simp add: procAncestry_main_def a fresh_ancestry_def)
  qed
  then show ?thesis
    by (auto simp: new_sys_cs3013_syscall2_def procAncestry_main_def split: option.splits prod.splits)
qed

theorem ancestry_errors_witness:
  "fst (new_sys_cs3013_syscall2 example_kernel (Some 7) (Some fresh_ancestry) True) = -2 \<and>
   procAncestry_main (call_syscall2 example_kernel) [''procAncestry'', print_nat 7] = Inr (0, [NotValid])"
proof -
  have "find_task example_kernel 7 = None" by (simp add: example_kernel_def)
  then show ?thesis
    using ancestry_errors [of example_kernel None True 7 fresh_ancestry 7 "''procAncestry''" "[]"] by simp
qed

end
