(* ===== verification/Interceptor.thy ===== *)
theory Interceptor
  imports Prelude
begin

text \<open>
  The module of project 2 that intercepts system calls (src/project-2/cs3013_project2.c): finding the
  table of system calls in memory, saving and replacing five of its entries with write protection
  switched off, the replacements, and putting the entries back.

  The machine is 32 bits wide (the table is \<^verbatim>\<open>syscall_32.tbl\<close>, whose numbers are used). Memory is a map from
  addresses to cells; \<^verbatim>\<open>PAGE_OFFSET\<close>, the contents of memory, the protection of pages and the
  original system calls belong to the kernel and are parameters.
\<close>

unbundle bit_operations_syntax

section \<open>The machine\<close>

datatype handler = Original nat | NewSyscall1 | NewSyscall2 | NewOpen | NewClose | NewRead

datatype cell = Code handler | Data "32 word"

datatype kernel_fault = Unmapped | Protected | Endless | WildJump

type_synonym addr = "32 word"

datatype printk = Dalek | NowRunning | Opening "32 word" string | Closing "32 word" "32 word" | Malicious "32 word" "32 word"
  | Loaded | Unloaded | FoundTable addr

record machine =
  mem :: "addr \<Rightarrow> cell option"
  read_only :: "addr \<Rightarrow> bool"
  cr0 :: "32 word"
  sys_call_table :: addr
  ref_syscall1 :: cell
  ref_syscall2 :: cell
  ref_open :: cell
  ref_close :: cell
  ref_read :: cell
  klog :: "printk list"

definition NR_read :: nat where "NR_read = 3"
definition NR_open :: nat where "NR_open = 5"
definition NR_close :: nat where "NR_close = 6"
definition NR_syscall1 :: nat where "NR_syscall1 = 377"
definition NR_syscall2 :: nat where "NR_syscall2 = 378"

lemmas NR_defs = NR_read_def NR_open_def NR_close_def NR_syscall1_def NR_syscall2_def

definition slot :: "addr \<Rightarrow> nat \<Rightarrow> addr" where
  "slot base nr = base + 4 * of_nat nr"

definition kread :: "addr \<Rightarrow> machine \<Rightarrow> kernel_fault + cell" where
  "kread a m = (case mem m a of None \<Rightarrow> Inl Unmapped | Some c \<Rightarrow> Inr c)"

text \<open>With bit 16 of \<^verbatim>\<open>cr0\<close> set the processor refuses writes to pages marked read only.\<close>

definition kwrite :: "addr \<Rightarrow> cell \<Rightarrow> machine \<Rightarrow> kernel_fault + machine" where
  "kwrite a c m =
     (if mem m a = None then Inl Unmapped
      else if read_only m a \<and> bit (cr0 m) 16 then Inl Protected
      else Inr (m\<lparr>mem := (mem m)(a \<mapsto> c)\<rparr>))"

section \<open>Finding and replacing\<close>

definition ULLONG_MAX :: int where "ULLONG_MAX = 2 ^ 64 - 1"

text \<open>\<^verbatim>\<open>find_sys_call_table\<close>; \<open>Inr 0\<close> is the null pointer. Each unit of fuel is one round of the loop.\<close>

fun find_from :: "nat \<Rightarrow> machine \<Rightarrow> addr \<Rightarrow> kernel_fault + addr" where
  "find_from 0 m offset = Inl Endless"
| "find_from (Suc n) m offset =
     (if uint offset < ULLONG_MAX
      then cbind (kread (slot offset NR_close) m) (\<lambda>c.
           if c = Code (Original NR_close) then Inr offset else find_from n m (offset + 4))
      else Inr 0)"

definition find_sys_call_table :: "nat \<Rightarrow> addr \<Rightarrow> machine \<Rightarrow> kernel_fault + addr" where
  "find_sys_call_table n page_offset m = find_from n m page_offset"

definition disable_page_protection :: "machine \<Rightarrow> machine" where
  "disable_page_protection m = m\<lparr>cr0 := cr0 m AND NOT 0x10000\<rparr>"

definition enable_page_protection :: "machine \<Rightarrow> machine" where
  "enable_page_protection m = m\<lparr>cr0 := cr0 m OR 0x10000\<rparr>"

fun write_table :: "(nat \<times> cell) list \<Rightarrow> machine \<Rightarrow> kernel_fault + machine" where
  "write_table [] m = Inr m"
| "write_table ((nr, c) # r) m = cbind (kwrite (slot (sys_call_table m) nr) c m) (write_table r)"

definition save_references :: "machine \<Rightarrow> kernel_fault + machine" where
  "save_references m =
     cbind (kread (slot (sys_call_table m) NR_syscall1) m) (\<lambda>c1.
     cbind (kread (slot (sys_call_table m) NR_syscall2) m) (\<lambda>c2.
     cbind (kread (slot (sys_call_table m) NR_open) m) (\<lambda>c3.
     cbind (kread (slot (sys_call_table m) NR_close) m) (\<lambda>c4.
     cbind (kread (slot (sys_call_table m) NR_read) m) (\<lambda>c5.
     Inr (m\<lparr>ref_syscall1 := c1, ref_syscall2 := c2, ref_open := c3, ref_close := c4, ref_read := c5\<rparr>))))))"

definition interceptor_start :: "nat \<Rightarrow> addr \<Rightarrow> machine \<Rightarrow> kernel_fault + (int \<times> machine)" where
  "interceptor_start n page_offset m =
     cbind (find_sys_call_table n page_offset m) (\<lambda>t.
     (let m0 = m\<lparr>sys_call_table := t\<rparr> in
      if t = 0 then Inr (-1, m0)
      else
        cbind (save_references (m0\<lparr>klog := klog m0 @ [FoundTable t]\<rparr>)) (\<lambda>m1.
        cbind (write_table
                 [(NR_syscall1, Code NewSyscall1), (NR_syscall2, Code NewSyscall2), (NR_open, Code NewOpen),
                  (NR_close, Code NewClose), (NR_read, Code NewRead)]
                 (disable_page_protection m1)) (\<lambda>m2.
        (let m3 = enable_page_protection m2 in Inr (0, m3\<lparr>klog := klog m3 @ [Loaded]\<rparr>))))))"

definition interceptor_end :: "machine \<Rightarrow> kernel_fault + machine" where
  "interceptor_end m =
     (if sys_call_table m = 0 then Inr m
      else
        cbind (write_table
                 [(NR_syscall1, ref_syscall1 m), (NR_syscall2, ref_syscall2 m), (NR_open, ref_open m),
                  (NR_close, ref_close m), (NR_read, ref_read m)]
                 (disable_page_protection m)) (\<lambda>m2.
        (let m3 = enable_page_protection m2 in Inr (m3\<lparr>klog := klog m3 @ [Unloaded]\<rparr>))))"

section \<open>The replaced calls\<close>

text \<open>
  What a process asks for. The buffer of a read is an address in the process; the kernel's state is a
  type parameter, and \<open>orig\<close> is what the original system calls do with it.
\<close>

datatype request = RSyscall1 | ROpen string int "16 word" | RClose "32 word" | RRead "32 word" addr "32 word"

fun number :: "request \<Rightarrow> nat" where
  "number RSyscall1 = NR_syscall1"
| "number (ROpen _ _ _) = NR_open"
| "number (RClose _) = NR_close"
| "number (RRead _ _ _) = NR_read"

fun strstr :: "string \<Rightarrow> string \<Rightarrow> bool" where
  "strstr [] needle = (needle = [])"
| "strstr (c # cs) needle = (take (length needle) (c # cs) = needle \<or> strstr cs needle)"

type_synonym 'k answer = "kernel_fault + (int \<times> 'k \<times> printk list)"

definition new_sys_cs3013_syscall1 :: "('k \<Rightarrow> kernel_fault + (int \<times> 'k)) \<Rightarrow> 'k \<Rightarrow> printk list \<Rightarrow> 'k answer" where
  "new_sys_cs3013_syscall1 ref st lg = cbind (ref st) (\<lambda>(_, st'). Inr (0, st', lg @ [Dalek, NowRunning]))"

definition new_sys_open ::
    "(request \<Rightarrow> 'k \<Rightarrow> kernel_fault + (int \<times> 'k)) \<Rightarrow> 32 word \<Rightarrow> string \<Rightarrow> int \<Rightarrow> 16 word \<Rightarrow> 'k \<Rightarrow> printk list \<Rightarrow> 'k answer" where
  "new_sys_open ref uid filename flags mode st lg =
     (let lg' = (if uid \<ge> 1000 then lg @ [Opening uid filename] else lg) in
      cbind (ref (ROpen filename flags mode) st) (\<lambda>(ret, st'). Inr (ret, st', lg')))"

definition new_sys_close ::
    "(request \<Rightarrow> 'k \<Rightarrow> kernel_fault + (int \<times> 'k)) \<Rightarrow> 32 word \<Rightarrow> 32 word \<Rightarrow> 'k \<Rightarrow> printk list \<Rightarrow> 'k answer" where
  "new_sys_close ref uid fd st lg =
     (let lg' = (if uid \<ge> 1000 then lg @ [Closing uid fd] else lg) in
      cbind (ref (RClose fd) st) (\<lambda>(ret, st'). Inr (ret, st', lg')))"

text \<open>\<open>user_string\<close> is the string a process has at an address; the buffer is searched before the read.\<close>

definition new_sys_read ::
    "(request \<Rightarrow> 'k \<Rightarrow> kernel_fault + (int \<times> 'k)) \<Rightarrow> (addr \<Rightarrow> 'k \<Rightarrow> string) \<Rightarrow> 32 word \<Rightarrow> 32 word \<Rightarrow> addr \<Rightarrow> 32 word \<Rightarrow>
      'k \<Rightarrow> printk list \<Rightarrow> 'k answer" where
  "new_sys_read ref user_string uid fd buf count st lg =
     (let lg' = (if strstr (user_string buf st) ''VIRUS'' then lg @ [Malicious uid fd] else lg) in
      cbind (ref (RRead fd buf count) st) (\<lambda>(ret, st'). Inr (ret, st', lg')))"

text \<open>A call through a saved entry, and a system call through the table.\<close>

definition call_reference :: "(request \<Rightarrow> 'k \<Rightarrow> int \<times> 'k) \<Rightarrow> cell \<Rightarrow> request \<Rightarrow> 'k \<Rightarrow> kernel_fault + (int \<times> 'k)" where
  "call_reference orig c req st = (if c = Code (Original (number req)) then Inr (orig req st) else Inl WildJump)"

definition system_call ::
    "(request \<Rightarrow> 'k \<Rightarrow> int \<times> 'k) \<Rightarrow> (addr \<Rightarrow> 'k \<Rightarrow> string) \<Rightarrow> 32 word \<Rightarrow> addr \<Rightarrow> machine \<Rightarrow> request \<Rightarrow> 'k \<Rightarrow> 'k answer" where
  "system_call orig user_string uid table m req st =
     cbind (kread (slot table (number req)) m) (\<lambda>c.
     case (c, req) of
       (Code NewSyscall1, RSyscall1) \<Rightarrow> new_sys_cs3013_syscall1 (call_reference orig (ref_syscall1 m) RSyscall1) st []
     | (Code NewOpen, ROpen f fl md) \<Rightarrow> new_sys_open (call_reference orig (ref_open m)) uid f fl md st []
     | (Code NewClose, RClose fd) \<Rightarrow> new_sys_close (call_reference orig (ref_close m)) uid fd st []
     | (Code NewRead, RRead fd b n) \<Rightarrow> new_sys_read (call_reference orig (ref_read m)) user_string uid fd b n st []
     | _ \<Rightarrow> cbind (call_reference orig c req st) (\<lambda>(ret, st'). Inr (ret, st', [])))"

section \<open>The search\<close>

definition table_at :: "machine \<Rightarrow> addr \<Rightarrow> nat \<Rightarrow> bool" where
  "table_at m offset k \<longleftrightarrow> mem m (slot (offset + 4 * of_nat k) NR_close) = Some (Code (Original NR_close))"

definition readable_at :: "machine \<Rightarrow> addr \<Rightarrow> nat \<Rightarrow> bool" where
  "readable_at m offset k \<longleftrightarrow> mem m (slot (offset + 4 * of_nat k) NR_close) \<noteq> None"

lemma always_below: "uint (offset :: addr) < ULLONG_MAX"
  using uint_bounded [of offset] by (simp add: ULLONG_MAX_def)

lemma find_from_step:
  "readable_at m offset 0 \<Longrightarrow>
   find_from (Suc n) m offset = (if table_at m offset 0 then Inr offset else find_from n m (offset + 4))"
  by (auto simp: always_below kread_def table_at_def readable_at_def)

lemma at_shift:
  "table_at m (offset + 4) k = table_at m offset (Suc k)" "readable_at m (offset + 4) k = readable_at m offset (Suc k)"
  by (simp_all add: table_at_def readable_at_def algebra_simps)

lemma find_from_hit:
  "(\<And>j. j \<le> k \<Longrightarrow> readable_at m offset j) \<Longrightarrow> (\<And>j. j < k \<Longrightarrow> \<not> table_at m offset j) \<Longrightarrow> table_at m offset k \<Longrightarrow>
   k < n \<Longrightarrow> find_from n m offset = Inr (offset + 4 * of_nat k)"
proof (induction k arbitrary: n offset)
  case 0
  then show ?case by (cases n) (simp_all add: find_from_step del: find_from.simps)
next
  case (Suc k)
  then obtain n' where n: "n = Suc n'" by (cases n) auto
  have "find_from n' m (offset + 4) = Inr (offset + 4 + 4 * of_nat k)"
    using Suc.prems n by (intro Suc.IH) (auto simp: at_shift)
  moreover have "\<not> table_at m offset 0" "readable_at m offset 0" using Suc.prems(1,2) by simp_all
  ultimately show ?case using n by (simp add: find_from_step algebra_simps del: find_from.simps)
qed

lemma find_from_miss:
  "(\<And>j. readable_at m offset j \<and> \<not> table_at m offset j) \<Longrightarrow> find_from n m offset = Inl Endless"
proof (induction n arbitrary: offset)
  case (Suc n)
  have "find_from n m (offset + 4) = Inl Endless" using Suc.prems by (intro Suc.IH) (simp add: at_shift)
  then show ?case using Suc.prems by (simp add: find_from_step del: find_from.simps)
qed simp

text \<open>The search returns the first address from the given one on at which the table's entry for
  \<^verbatim>\<open>close\<close> is found, as soon as it is allowed that many rounds; if there is none it never ends, because
  an address of 32 bits is always below the bound the loop tests.\<close>

theorem find_table_spec:
  assumes "\<And>k. (\<forall>j < k. \<not> table_at m offset j) \<Longrightarrow> readable_at m offset k"
  shows "(\<forall>k n. table_at m offset k \<and> (\<forall>j < k. \<not> table_at m offset j) \<and> k < n \<longrightarrow>
      find_sys_call_table n offset m = Inr (offset + 4 * of_nat k)) \<and>
    ((\<forall>k. \<not> table_at m offset k) \<longrightarrow> (\<forall>n. find_sys_call_table n offset m = Inl Endless))"
proof (intro conjI allI impI)
  fix k n assume a: "table_at m offset k \<and> (\<forall>j < k. \<not> table_at m offset j) \<and> k < n"
  have "readable_at m offset j" if "j \<le> k" for j using that a by (intro assms) auto
  then show "find_sys_call_table n offset m = Inr (offset + 4 * of_nat k)"
    using a by (auto simp: find_sys_call_table_def intro!: find_from_hit)
next
  fix n assume "\<forall>k. \<not> table_at m offset k"
  then show "find_sys_call_table n offset m = Inl Endless"
    using assms by (auto simp: find_sys_call_table_def intro!: find_from_miss)
qed

text \<open>An example: the table at 0xC0100000 in memory that is zero elsewhere.\<close>

definition example_table :: addr where "example_table = 0xC0100000"

definition example_machine :: machine where
  "example_machine = \<lparr>
     mem = (\<lambda>a. Some (if a = slot example_table NR_close then Code (Original NR_close)
       else if a = slot example_table NR_open then Code (Original NR_open)
       else if a = slot example_table NR_read then Code (Original NR_read)
       else if a = slot example_table NR_syscall1 then Code (Original NR_syscall1)
       else if a = slot example_table NR_syscall2 then Code (Original NR_syscall2) else Data 0)),
     read_only = (\<lambda>_. True), cr0 = 0x80050033, sys_call_table = 0,
     ref_syscall1 = Data 0, ref_syscall2 = Data 0, ref_open = Data 0, ref_close = Data 0, ref_read = Data 0, klog = []\<rparr>"

lemma example_table_at: "table_at example_machine (example_table - 8) 2"
  "\<not> table_at example_machine (example_table - 8) 1" "\<not> table_at example_machine (example_table - 8) 0"
  by (simp_all add: table_at_def example_machine_def slot_def NR_defs example_table_def)

theorem find_table_spec_witness: "find_sys_call_table 3 (example_table - 8) example_machine = Inr example_table"
proof -
  have r: "readable_at example_machine o' k" for o' k by (simp add: readable_at_def example_machine_def)
  note first = find_table_spec [of example_machine "example_table - 8", OF r, THEN conjunct1]
  have "\<forall>j < 2. \<not> table_at example_machine (example_table - 8) j"
    using example_table_at by (auto simp: less_2_cases_iff)
  then show ?thesis using first [rule_format, of 2 3] example_table_at(1) by simp
qed

section \<open>Replacing and restoring\<close>

definition hooked :: "nat list" where
  "hooked = [NR_syscall1, NR_syscall2, NR_open, NR_close, NR_read]"

lemma protection_off: "\<not> bit (w AND NOT 0x10000 :: 32 word) 16"
  by (simp add: bit_and_iff bit_not_iff)

lemma mask_cycle: "(w AND NOT k) OR k = (w OR k :: 32 word)"
  by (rule bit_word_eqI) (auto simp: bit_and_iff bit_or_iff bit_not_iff)

lemma protection_cycle: "(w AND - 65537) OR 65536 = (w OR 65536 :: 32 word)"
  using mask_cycle [of w 65536] by simp

fun table_update :: "addr \<Rightarrow> (nat \<times> cell) list \<Rightarrow> (addr \<Rightarrow> cell option) \<Rightarrow> addr \<Rightarrow> cell option" where
  "table_update base [] f = f"
| "table_update base ((nr, c) # l) f = table_update base l (f(slot base nr \<mapsto> c))"

lemma write_table_ok:
  "\<not> bit (cr0 m) 16 \<Longrightarrow> (\<And>nr c. (nr, c) \<in> set l \<Longrightarrow> mem m (slot (sys_call_table m) nr) \<noteq> None) \<Longrightarrow>
   write_table l m = Inr (m\<lparr>mem := table_update (sys_call_table m) l (mem m)\<rparr>)"
proof (induction l arbitrary: m)
  case (Cons p l)
  obtain nr c where p: "p = (nr, c)" by (cases p)
  let ?m = "m\<lparr>mem := (mem m)(slot (sys_call_table m) nr \<mapsto> c)\<rparr>"
  have "write_table l ?m = Inr (?m\<lparr>mem := table_update (sys_call_table ?m) l (mem ?m)\<rparr>)"
    using Cons.prems by (intro Cons.IH) auto
  moreover have "mem m (slot (sys_call_table m) nr) \<noteq> None" using Cons.prems(2) [of nr c] p by simp
  then have "kwrite (slot (sys_call_table m) nr) c m = Inr ?m" using Cons.prems(1) by (simp add: kwrite_def)
  ultimately show ?case using p by simp
qed simp


text \<open>The module's table entries are mapped.\<close>

definition mapped :: "machine \<Rightarrow> addr \<Rightarrow> bool" where
  "mapped m table \<longleftrightarrow> (\<forall>nr \<in> set hooked. mem m (slot table nr) \<noteq> None)"

lemma slots_distinct:
  "slot t NR_syscall1 \<noteq> slot t NR_syscall2" "slot t NR_syscall1 \<noteq> slot t NR_open" "slot t NR_syscall1 \<noteq> slot t NR_close"
  "slot t NR_syscall1 \<noteq> slot t NR_read" "slot t NR_syscall2 \<noteq> slot t NR_open" "slot t NR_syscall2 \<noteq> slot t NR_close"
  "slot t NR_syscall2 \<noteq> slot t NR_read" "slot t NR_open \<noteq> slot t NR_close" "slot t NR_open \<noteq> slot t NR_read"
  "slot t NR_close \<noteq> slot t NR_read"
  by (simp_all add: slot_def NR_defs)

definition new_entries :: "(nat \<times> cell) list" where
  "new_entries = [(NR_syscall1, Code NewSyscall1), (NR_syscall2, Code NewSyscall2), (NR_open, Code NewOpen),
     (NR_close, Code NewClose), (NR_read, Code NewRead)]"

definition saved :: "machine \<Rightarrow> addr \<Rightarrow> machine \<Rightarrow> machine" where
  "saved m t m' = m'\<lparr>ref_syscall1 := the (mem m (slot t NR_syscall1)), ref_syscall2 := the (mem m (slot t NR_syscall2)),
     ref_open := the (mem m (slot t NR_open)), ref_close := the (mem m (slot t NR_close)), ref_read := the (mem m (slot t NR_read))\<rparr>"

lemma save_references_ok: "mapped m (sys_call_table m) \<Longrightarrow> save_references m = Inr (saved m (sys_call_table m) m)"
  by (auto simp: save_references_def saved_def mapped_def hooked_def kread_def)

lemma write_unprotected:
  assumes "sys_call_table m = t" "mapped m t" "fst ` set l \<subseteq> set hooked"
  shows "write_table l (disable_page_protection m) = Inr ((disable_page_protection m)\<lparr>mem := table_update t l (mem m)\<rparr>)"
proof -
  let ?m = "disable_page_protection m"
  have f: "sys_call_table ?m = t" "mem ?m = mem m" "\<not> bit (cr0 ?m) 16"
    using assms(1) protection_off [of "cr0 m"] by (simp_all add: disable_page_protection_def)
  moreover have "mem m (slot t nr) \<noteq> None" if "(nr, c) \<in> set l" for nr c
    using that assms(2,3) by (force simp: mapped_def)
  ultimately show ?thesis using write_table_ok [of ?m l] by metis
qed

lemma new_entries_hooked: "fst ` set new_entries \<subseteq> set hooked"
  by (simp add: new_entries_def hooked_def)

lemma start_result:
  assumes "find_sys_call_table n page_offset m = Inr t" "t \<noteq> 0" "mapped m t"
  shows "interceptor_start n page_offset m =
    Inr (0, saved m t (m\<lparr>sys_call_table := t, mem := table_update t new_entries (mem m), cr0 := cr0 m OR 0x10000,
      klog := klog m @ [FoundTable t, Loaded]\<rparr>))"
proof -
  let ?m0 = "m\<lparr>sys_call_table := t, klog := klog m @ [FoundTable t]\<rparr>"
  let ?m1 = "disable_page_protection (saved ?m0 t ?m0)"
  have "save_references ?m0 = Inr (saved ?m0 t ?m0)"
    using assms(3) save_references_ok [of ?m0] by (simp add: mapped_def)
  moreover have "write_table new_entries ?m1 = Inr (?m1\<lparr>mem := table_update t new_entries (mem m)\<rparr>)"
    using write_unprotected [of "saved ?m0 t ?m0" t new_entries] assms(3) by (simp add: saved_def mapped_def new_entries_hooked)
  ultimately show ?thesis
    using assms(1,2)
    by (simp add: interceptor_start_def Let_def flip: new_entries_def)
      (simp add: disable_page_protection_def enable_page_protection_def protection_cycle saved_def)
qed

lemma end_result:
  assumes "sys_call_table m = t" "t \<noteq> 0" "mapped m t"
  shows "interceptor_end m = Inr (m\<lparr>cr0 := cr0 m OR 0x10000, klog := klog m @ [Unloaded],
    mem := table_update t [(NR_syscall1, ref_syscall1 m), (NR_syscall2, ref_syscall2 m), (NR_open, ref_open m),
      (NR_close, ref_close m), (NR_read, ref_read m)] (mem m)\<rparr>)"
proof -
  let ?l = "[(NR_syscall1, ref_syscall1 m), (NR_syscall2, ref_syscall2 m), (NR_open, ref_open m), (NR_close, ref_close m),
    (NR_read, ref_read m)]"
  have "write_table ?l (disable_page_protection m) = Inr ((disable_page_protection m)\<lparr>mem := table_update t ?l (mem m)\<rparr>)"
    using assms by (intro write_unprotected) (simp_all add: hooked_def)
  then show ?thesis
    using assms(1,2) unfolding interceptor_end_def Let_def
    by (simp del: write_table.simps)
      (simp add: disable_page_protection_def enable_page_protection_def protection_cycle)
qed

lemma mapped_update: "mapped m t \<Longrightarrow> mem m' = table_update t new_entries (mem m) \<Longrightarrow> mapped m' t"
  by (auto simp: mapped_def new_entries_def hooked_def)

lemma restored:
  assumes "mapped m t"
  shows "table_update t [(NR_syscall1, the (mem m (slot t NR_syscall1))), (NR_syscall2, the (mem m (slot t NR_syscall2))),
      (NR_open, the (mem m (slot t NR_open))), (NR_close, the (mem m (slot t NR_close))), (NR_read, the (mem m (slot t NR_read)))]
    (table_update t new_entries (mem m)) = mem m"
  using assms by (auto simp: new_entries_def mapped_def hooked_def slots_distinct fun_eq_iff)

text \<open>C17: loading the module succeeds without a protection fault, also when the table is in read-only memory,
  and changes the five entries and nothing else in memory; afterwards the write protection is on and no other
  bit of the control register has changed. Unloading it puts every cell of memory back as it was.\<close>

theorem interceptor_roundtrip:
  assumes "find_sys_call_table n page_offset m = Inr t" "t \<noteq> 0" "mapped m t"
  shows "\<exists>m1 m2. interceptor_start n page_offset m = Inr (0, m1) \<and>
    (\<forall>nr c. (nr, c) \<in> set new_entries \<longrightarrow> mem m1 (slot t nr) = Some c) \<and>
    (\<forall>a. a \<notin> slot t ` set hooked \<longrightarrow> mem m1 a = mem m a) \<and>
    cr0 m1 = set_bit 16 (cr0 m) \<and>
    interceptor_end m1 = Inr m2 \<and> mem m2 = mem m \<and> cr0 m2 = set_bit 16 (cr0 m)"
proof -
  define m1 where "m1 = saved m t (m\<lparr>sys_call_table := t, mem := table_update t new_entries (mem m),
    cr0 := cr0 m OR 0x10000, klog := klog m @ [FoundTable t, Loaded]\<rparr>)"
  have s: "interceptor_start n page_offset m = Inr (0, m1)"
    unfolding m1_def by (rule start_result [OF assms])
  have bit: "w OR 65536 = set_bit 16 w" for w :: "32 word"
    by (simp add: set_bit_eq_or push_bit_eq_mult)
  have twice: "set_bit 16 (set_bit 16 w) = set_bit 16 w" for w :: "32 word"
    by (rule bit_word_eqI) (auto simp: bit_set_bit_iff)
  have f: "mem m1 = table_update t new_entries (mem m)" "sys_call_table m1 = t" "cr0 m1 = set_bit 16 (cr0 m)"
    by (simp_all add: m1_def saved_def bit)
  have r: "ref_syscall1 m1 = the (mem m (slot t NR_syscall1))" "ref_syscall2 m1 = the (mem m (slot t NR_syscall2))"
    "ref_open m1 = the (mem m (slot t NR_open))" "ref_close m1 = the (mem m (slot t NR_close))"
    "ref_read m1 = the (mem m (slot t NR_read))"
    by (simp_all add: m1_def saved_def)
  have e: "interceptor_end m1 = Inr (m1\<lparr>cr0 := cr0 m1 OR 0x10000, klog := klog m1 @ [Unloaded], mem := mem m\<rparr>)"
    using end_result [OF f(2) assms(2) mapped_update [OF assms(3) f(1)]] restored [OF assms(3)] by (simp only: r f(1))
  have new: "\<forall>nr c. (nr, c) \<in> set new_entries \<longrightarrow> mem m1 (slot t nr) = Some c"
    by (auto simp: f(1) new_entries_def slots_distinct)
  have other: "\<forall>a. a \<notin> slot t ` set hooked \<longrightarrow> mem m1 a = mem m a"
    by (auto simp: f(1) new_entries_def hooked_def)
  show ?thesis
    using s new other f(3) e by (intro exI conjI) (assumption | simp add: bit twice)+
qed

lemma example_find: "find_sys_call_table 3 (example_table - 8) example_machine = Inr example_table"
proof -
  have "readable_at example_machine o' k" for o' k by (simp add: readable_at_def example_machine_def)
  moreover have "\<not> table_at example_machine (example_table - 8) j" if "j < 2" for j
    using that example_table_at by (auto simp: less_2_cases_iff)
  ultimately have "find_from 3 example_machine (example_table - 8) = Inr (example_table - 8 + 4 * of_nat 2)"
    using example_table_at(1) by (intro find_from_hit) auto
  then show ?thesis by (simp add: find_sys_call_table_def)
qed

lemma example_mapped: "example_table \<noteq> 0" "mapped example_machine example_table"
  by (simp_all add: example_table_def mapped_def example_machine_def)

theorem interceptor_roundtrip_witness:
  "\<exists>m1 m2. interceptor_start 3 (example_table - 8) example_machine = Inr (0, m1) \<and>
    mem m1 (slot example_table NR_open) = Some (Code NewOpen) \<and>
    interceptor_end m1 = Inr m2 \<and> mem m2 = mem example_machine"
  using interceptor_roundtrip [OF example_find example_mapped] by (fastforce simp: new_entries_def)

section \<open>Calls through the replaced table\<close>

text \<open>The table holds the original system calls.\<close>

definition pristine :: "machine \<Rightarrow> addr \<Rightarrow> bool" where
  "pristine m t \<longleftrightarrow> (\<forall>nr \<in> set hooked. mem m (slot t nr) = Some (Code (Original nr)))"

text \<open>What the module logs for a request of a user.\<close>

definition logged :: "(addr \<Rightarrow> 'k \<Rightarrow> string) \<Rightarrow> 32 word \<Rightarrow> request \<Rightarrow> 'k \<Rightarrow> printk list" where
  "logged user_string uid req st =
     (case req of
        RSyscall1 \<Rightarrow> [Dalek, NowRunning]
      | ROpen f _ _ \<Rightarrow> if uid \<ge> 1000 then [Opening uid f] else []
      | RClose fd \<Rightarrow> if uid \<ge> 1000 then [Closing uid fd] else []
      | RRead fd b _ \<Rightarrow> if strstr (user_string b st) ''VIRUS'' then [Malicious uid fd] else [])"

lemma number_hooked: "number req \<in> set hooked"
  by (cases req) (simp_all add: hooked_def)

lemma pristine_mapped: "pristine m t \<Longrightarrow> mapped m t"
  by (simp add: pristine_def mapped_def)

lemma pristine_call:
  "pristine m t \<Longrightarrow> system_call orig us uid t m req st = (case orig req st of (ret, st') \<Rightarrow> Inr (ret, st', []))"
  using number_hooked [of req]
  by (cases req) (auto simp: pristine_def system_call_def kread_def call_reference_def split: prod.split)

lemma hooked_call:
  assumes "pristine m t" "mem m1 = table_update t new_entries (mem m)"
    and "ref_syscall1 m1 = Code (Original NR_syscall1)" "ref_open m1 = Code (Original NR_open)"
      "ref_close m1 = Code (Original NR_close)" "ref_read m1 = Code (Original NR_read)"
  shows "system_call orig us uid t m1 req st =
    (case orig req st of (ret, st') \<Rightarrow> Inr (if req = RSyscall1 then 0 else ret, st', logged us uid req st))"
  using assms(2-)
  by (cases req) (auto simp: system_call_def kread_def call_reference_def logged_def new_entries_def slots_distinct
      new_sys_cs3013_syscall1_def new_sys_open_def new_sys_close_def new_sys_read_def split: prod.split)


text \<open>An example: the kernel's state is the text in the buffer, and a read puts the file's text there.\<close>

definition file_read :: "request \<Rightarrow> string \<Rightarrow> int \<times> string" where
  "file_read req st = (case req of RRead _ _ _ \<Rightarrow> (5, ''VIRUS'') | _ \<Rightarrow> (0, st))"

lemma example_pristine: "pristine example_machine example_table"
  by (simp add: pristine_def hooked_def example_machine_def slot_def NR_defs)


text \<open>The search for malicious text looks at the buffer before the read: a read that delivers such text into a clean
  buffer is not logged, and one that overwrites it is.\<close>

theorem virus_scan_too_early:
  "\<exists>m1. interceptor_start 3 (example_table - 8) example_machine = Inr (0, m1) \<and>
    system_call file_read (\<lambda>_ st. st) uid example_table m1 (RRead fd b 5) ''clean'' = Inr (5, ''VIRUS'', []) \<and>
    system_call (\<lambda>_ _. (5, ''clean'')) (\<lambda>_ st. st) uid example_table m1 (RRead fd b 5) ''VIRUS'' = Inr (5, ''clean'', [Malicious uid fd])"
proof -
  define m1 where "m1 = saved example_machine example_table (example_machine\<lparr>sys_call_table := example_table,
    mem := table_update example_table new_entries (mem example_machine), cr0 := cr0 example_machine OR 0x10000,
    klog := klog example_machine @ [FoundTable example_table, Loaded]\<rparr>)"
  have s: "interceptor_start 3 (example_table - 8) example_machine = Inr (0, m1)"
    unfolding m1_def by (rule start_result [OF example_find example_mapped])
  have "mem m1 = table_update example_table new_entries (mem example_machine)" by (simp add: m1_def saved_def)
  note call = hooked_call [OF example_pristine this]
  have "ref_syscall1 m1 = Code (Original NR_syscall1)" "ref_open m1 = Code (Original NR_open)"
    "ref_close m1 = Code (Original NR_close)" "ref_read m1 = Code (Original NR_read)"
    using example_pristine by (simp_all add: m1_def saved_def pristine_def hooked_def)
  note call = call [OF this]
  show ?thesis using s by (auto simp: call file_read_def logged_def)
qed

end
