(* ===== verification/Creds.thy ===== *)
theory Creds
  imports Prelude
begin

text \<open>
  The system calls that change the user and group numbers of a process (src/project-0/sys.c, the
  kernel file of project 0): \<^verbatim>\<open>setregid\<close>, \<^verbatim>\<open>setgid\<close>, \<^verbatim>\<open>setreuid\<close>, \<^verbatim>\<open>setuid\<close>, \<^verbatim>\<open>setresuid\<close>, \<^verbatim>\<open>getresuid\<close>, \<^verbatim>\<open>setresgid\<close>,
  \<^verbatim>\<open>getresgid\<close>, \<^verbatim>\<open>setfsuid\<close> and \<^verbatim>\<open>setfsgid\<close>.

  What these functions call is elsewhere in the kernel and is the parameter \<open>kernel_env\<close>: the translation
  of numbers between user namespaces, whether memory and a \<^verbatim>\<open>user_struct\<close> can be had, whether a user has
  reached the limit of processes, \<^verbatim>\<open>ns_capable\<close> for the caller's credentials, and the security module's
  hook, which may refuse the change and fixes the capabilities of the new credentials. \<^verbatim>\<open>commit_creds\<close>
  makes the prepared copy the task's credentials; \<^verbatim>\<open>abort_creds\<close> throws it away.
\<close>

section \<open>State\<close>

type_synonym kid = "32 word"

datatype capability = CAP_SETUID | CAP_SETGID

datatype lsm_setid = LSM_SETID_ID | LSM_SETID_RE | LSM_SETID_RES | LSM_SETID_FS

record cred =
  uid :: kid
  gid :: kid
  suid :: kid
  sgid :: kid
  euid :: kid
  egid :: kid
  fsuid :: kid
  fsgid :: kid
  user :: kid
  caps :: "capability set"

record task =
  cred :: cred
  nproc_exceeded :: bool

record kernel_env =
  make_kuid :: "32 word \<Rightarrow> kid"
  make_kgid :: "32 word \<Rightarrow> kid"
  from_kuid_munged :: "kid \<Rightarrow> 32 word"
  from_kgid_munged :: "kid \<Rightarrow> 32 word"
  can_prepare :: bool
  can_alloc_uid :: "kid \<Rightarrow> bool"
  nproc_full :: "kid \<Rightarrow> bool"
  capable :: "cred \<Rightarrow> capability \<Rightarrow> bool"
  fix_setuid :: "cred \<Rightarrow> cred \<Rightarrow> lsm_setid \<Rightarrow> int \<times> capability set"

definition id_valid :: "kid \<Rightarrow> bool" where
  "id_valid i \<longleftrightarrow> i \<noteq> -1"

section \<open>User numbers\<close>

text \<open>\<^verbatim>\<open>set_user\<close>: the process is marked when the new user already has too many processes.\<close>

definition set_user :: "kernel_env \<Rightarrow> cred \<Rightarrow> task \<Rightarrow> int \<times> cred \<times> task" where
  "set_user k new s =
     (if \<not> can_alloc_uid k (uid new) then (- EAGAIN, new, s)
      else (0, new\<lparr>user := uid new\<rparr>, s\<lparr>nproc_exceeded := nproc_full k (uid new)\<rparr>))"

text \<open>The pattern \<^verbatim>\<open>if (...) { retval = set_user(new); if (retval < 0) goto error; }\<close> and what follows it.\<close>

definition with_user :: "kernel_env \<Rightarrow> bool \<Rightarrow> cred \<Rightarrow> task \<Rightarrow> (cred \<Rightarrow> task \<Rightarrow> int \<times> task) \<Rightarrow> int \<times> task" where
  "with_user k changed new s rest =
     (let (retval, new', s') = (if changed then set_user k new s else (0, new, s)) in
      if retval < 0 then (retval, s') else rest new' s')"

definition fix_and_commit :: "kernel_env \<Rightarrow> lsm_setid \<Rightarrow> cred \<Rightarrow> cred \<Rightarrow> task \<Rightarrow> int \<times> task" where
  "fix_and_commit k flag new old s =
     (let (retval, cs) = fix_setuid k new old flag in
      if retval < 0 then (retval, s) else (0, s\<lparr>cred := new\<lparr>caps := cs\<rparr>\<rparr>))"

definition setreuid :: "kernel_env \<Rightarrow> 32 word \<Rightarrow> 32 word \<Rightarrow> task \<Rightarrow> int \<times> task" where
  "setreuid k r e s =
     (let kruid = make_kuid k r; keuid = make_kuid k e; old = cred s in
      if r \<noteq> -1 \<and> \<not> id_valid kruid then (- EINVAL, s)
      else if e \<noteq> -1 \<and> \<not> id_valid keuid then (- EINVAL, s)
      else if \<not> can_prepare k then (- ENOMEM, s)
      else if r \<noteq> -1 \<and> uid old \<noteq> kruid \<and> euid old \<noteq> kruid \<and> \<not> capable k old CAP_SETUID then (- EPERM, s)
      else if e \<noteq> -1 \<and> uid old \<noteq> keuid \<and> euid old \<noteq> keuid \<and> suid old \<noteq> keuid \<and> \<not> capable k old CAP_SETUID then (- EPERM, s)
      else
        (let new1 = (if r \<noteq> -1 then old\<lparr>uid := kruid\<rparr> else old);
             new2 = (if e \<noteq> -1 then new1\<lparr>euid := keuid\<rparr> else new1)
         in with_user k (uid new2 \<noteq> uid old) new2 s (\<lambda>new3 s1.
              (let new4 = (if r \<noteq> -1 \<or> e \<noteq> -1 \<and> keuid \<noteq> uid old then new3\<lparr>suid := euid new3\<rparr> else new3)
               in fix_and_commit k LSM_SETID_RE (new4\<lparr>fsuid := euid new4\<rparr>) old s1))))"

definition setuid :: "kernel_env \<Rightarrow> 32 word \<Rightarrow> task \<Rightarrow> int \<times> task" where
  "setuid k u s =
     (let kuid = make_kuid k u; old = cred s in
      if \<not> id_valid kuid then (- EINVAL, s)
      else if \<not> can_prepare k then (- ENOMEM, s)
      else if capable k old CAP_SETUID then
        with_user k (kuid \<noteq> uid old) (old\<lparr>suid := kuid, uid := kuid\<rparr>) s (\<lambda>new s1.
          fix_and_commit k LSM_SETID_ID (new\<lparr>fsuid := kuid, euid := kuid\<rparr>) old s1)
      else if kuid \<noteq> uid old \<and> kuid \<noteq> suid old then (- EPERM, s)
      else fix_and_commit k LSM_SETID_ID (old\<lparr>fsuid := kuid, euid := kuid\<rparr>) old s)"

definition setresuid :: "kernel_env \<Rightarrow> 32 word \<Rightarrow> 32 word \<Rightarrow> 32 word \<Rightarrow> task \<Rightarrow> int \<times> task" where
  "setresuid k r e v s =
     (let kruid = make_kuid k r; keuid = make_kuid k e; ksuid = make_kuid k v; old = cred s in
      if r \<noteq> -1 \<and> \<not> id_valid kruid then (- EINVAL, s)
      else if e \<noteq> -1 \<and> \<not> id_valid keuid then (- EINVAL, s)
      else if v \<noteq> -1 \<and> \<not> id_valid ksuid then (- EINVAL, s)
      else if \<not> can_prepare k then (- ENOMEM, s)
      else if \<not> capable k old CAP_SETUID \<and>
        (r \<noteq> -1 \<and> kruid \<noteq> uid old \<and> kruid \<noteq> euid old \<and> kruid \<noteq> suid old \<or>
         e \<noteq> -1 \<and> keuid \<noteq> uid old \<and> keuid \<noteq> euid old \<and> keuid \<noteq> suid old \<or>
         v \<noteq> -1 \<and> ksuid \<noteq> uid old \<and> ksuid \<noteq> euid old \<and> ksuid \<noteq> suid old) then (- EPERM, s)
      else
        with_user k (r \<noteq> -1 \<and> kruid \<noteq> uid old) (if r \<noteq> -1 then old\<lparr>uid := kruid\<rparr> else old) s (\<lambda>new2 s1.
          (let new3 = (if e \<noteq> -1 then new2\<lparr>euid := keuid\<rparr> else new2);
               new4 = (if v \<noteq> -1 then new3\<lparr>suid := ksuid\<rparr> else new3)
           in fix_and_commit k LSM_SETID_RES (new4\<lparr>fsuid := euid new4\<rparr>) old s1)))"

text \<open>\<^verbatim>\<open>setfsuid\<close> always returns the previous number.\<close>

definition setfsuid :: "kernel_env \<Rightarrow> 32 word \<Rightarrow> task \<Rightarrow> 32 word \<times> task" where
  "setfsuid k u s =
     (let old = cred s; old_fsuid = from_kuid_munged k (fsuid old); kuid = make_kuid k u in
      if \<not> id_valid kuid then (old_fsuid, s)
      else if \<not> can_prepare k then (old_fsuid, s)
      else if (kuid = uid old \<or> kuid = euid old \<or> kuid = suid old \<or> kuid = fsuid old \<or> capable k old CAP_SETUID) \<and>
        kuid \<noteq> fsuid old then
        (let (retval, cs) = fix_setuid k (old\<lparr>fsuid := kuid\<rparr>) old LSM_SETID_FS in
         if retval = 0 then (old_fsuid, s\<lparr>cred := old\<lparr>fsuid := kuid, caps := cs\<rparr>\<rparr>) else (old_fsuid, s))
      else (old_fsuid, s))"

text \<open>Three numbers are stored one after the other; \<open>writable\<close> says which addresses \<^verbatim>\<open>put_user\<close> can write.\<close>

definition put_three :: "bool \<times> bool \<times> bool \<Rightarrow> 32 word \<times> 32 word \<times> 32 word \<Rightarrow> int \<times> 32 word option list" where
  "put_three writable v =
     (let (w1, w2, w3) = writable; (a, b, c) = v in
      if \<not> w1 then (- EFAULT, [None, None, None])
      else if \<not> w2 then (- EFAULT, [Some a, None, None])
      else if \<not> w3 then (- EFAULT, [Some a, Some b, None])
      else (0, [Some a, Some b, Some c]))"

definition getresuid :: "kernel_env \<Rightarrow> bool \<times> bool \<times> bool \<Rightarrow> task \<Rightarrow> int \<times> 32 word option list" where
  "getresuid k writable s =
     put_three writable
       (from_kuid_munged k (uid (cred s)), from_kuid_munged k (euid (cred s)), from_kuid_munged k (suid (cred s)))"

section \<open>Group numbers\<close>

definition setregid :: "kernel_env \<Rightarrow> 32 word \<Rightarrow> 32 word \<Rightarrow> task \<Rightarrow> int \<times> task" where
  "setregid k r e s =
     (let krgid = make_kgid k r; kegid = make_kgid k e; old = cred s in
      if r \<noteq> -1 \<and> \<not> id_valid krgid then (- EINVAL, s)
      else if e \<noteq> -1 \<and> \<not> id_valid kegid then (- EINVAL, s)
      else if \<not> can_prepare k then (- ENOMEM, s)
      else if r \<noteq> -1 \<and> \<not> (gid old = krgid \<or> egid old = krgid \<or> capable k old CAP_SETGID) then (- EPERM, s)
      else if e \<noteq> -1 \<and> \<not> (gid old = kegid \<or> egid old = kegid \<or> sgid old = kegid \<or> capable k old CAP_SETGID) then (- EPERM, s)
      else
        (let new1 = (if r \<noteq> -1 then old\<lparr>gid := krgid\<rparr> else old);
             new2 = (if e \<noteq> -1 then new1\<lparr>egid := kegid\<rparr> else new1);
             new3 = (if r \<noteq> -1 \<or> e \<noteq> -1 \<and> kegid \<noteq> gid old then new2\<lparr>sgid := egid new2\<rparr> else new2)
         in (0, s\<lparr>cred := new3\<lparr>fsgid := egid new3\<rparr>\<rparr>)))"

definition setgid :: "kernel_env \<Rightarrow> 32 word \<Rightarrow> task \<Rightarrow> int \<times> task" where
  "setgid k g s =
     (let kgid = make_kgid k g; old = cred s in
      if \<not> id_valid kgid then (- EINVAL, s)
      else if \<not> can_prepare k then (- ENOMEM, s)
      else if capable k old CAP_SETGID then (0, s\<lparr>cred := old\<lparr>gid := kgid, egid := kgid, sgid := kgid, fsgid := kgid\<rparr>\<rparr>)
      else if kgid = gid old \<or> kgid = sgid old then (0, s\<lparr>cred := old\<lparr>egid := kgid, fsgid := kgid\<rparr>\<rparr>)
      else (- EPERM, s))"

definition setresgid :: "kernel_env \<Rightarrow> 32 word \<Rightarrow> 32 word \<Rightarrow> 32 word \<Rightarrow> task \<Rightarrow> int \<times> task" where
  "setresgid k r e v s =
     (let krgid = make_kgid k r; kegid = make_kgid k e; ksgid = make_kgid k v; old = cred s in
      if r \<noteq> -1 \<and> \<not> id_valid krgid then (- EINVAL, s)
      else if e \<noteq> -1 \<and> \<not> id_valid kegid then (- EINVAL, s)
      else if v \<noteq> -1 \<and> \<not> id_valid ksgid then (- EINVAL, s)
      else if \<not> can_prepare k then (- ENOMEM, s)
      else if \<not> capable k old CAP_SETGID \<and>
        (r \<noteq> -1 \<and> krgid \<noteq> gid old \<and> krgid \<noteq> egid old \<and> krgid \<noteq> sgid old \<or>
         e \<noteq> -1 \<and> kegid \<noteq> gid old \<and> kegid \<noteq> egid old \<and> kegid \<noteq> sgid old \<or>
         v \<noteq> -1 \<and> ksgid \<noteq> gid old \<and> ksgid \<noteq> egid old \<and> ksgid \<noteq> sgid old) then (- EPERM, s)
      else
        (let new1 = (if r \<noteq> -1 then old\<lparr>gid := krgid\<rparr> else old);
             new2 = (if e \<noteq> -1 then new1\<lparr>egid := kegid\<rparr> else new1);
             new3 = (if v \<noteq> -1 then new2\<lparr>sgid := ksgid\<rparr> else new2)
         in (0, s\<lparr>cred := new3\<lparr>fsgid := egid new3\<rparr>\<rparr>)))"

definition setfsgid :: "kernel_env \<Rightarrow> 32 word \<Rightarrow> task \<Rightarrow> 32 word \<times> task" where
  "setfsgid k g s =
     (let old = cred s; old_fsgid = from_kgid_munged k (fsgid old); kgid = make_kgid k g in
      if \<not> id_valid kgid then (old_fsgid, s)
      else if \<not> can_prepare k then (old_fsgid, s)
      else if (kgid = gid old \<or> kgid = egid old \<or> kgid = sgid old \<or> kgid = fsgid old \<or> capable k old CAP_SETGID) \<and>
        kgid \<noteq> fsgid old then (old_fsgid, s\<lparr>cred := old\<lparr>fsgid := kgid\<rparr>\<rparr>)
      else (old_fsgid, s))"

definition getresgid :: "kernel_env \<Rightarrow> bool \<times> bool \<times> bool \<Rightarrow> task \<Rightarrow> int \<times> 32 word option list" where
  "getresgid k writable s =
     put_three writable
       (from_kgid_munged k (gid (cred s)), from_kgid_munged k (egid (cred s)), from_kgid_munged k (sgid (cred s)))"

section \<open>Sequences of calls\<close>

datatype id_call =
    Setuid "32 word" | Setreuid "32 word" "32 word" | Setresuid "32 word" "32 word" "32 word" | Setfsuid "32 word"
  | Setgid "32 word" | Setregid "32 word" "32 word" | Setresgid "32 word" "32 word" "32 word" | Setfsgid "32 word"

fun perform :: "kernel_env \<Rightarrow> id_call \<Rightarrow> task \<Rightarrow> int \<times> task" where
  "perform k (Setuid u) s = setuid k u s"
| "perform k (Setreuid r e) s = setreuid k r e s"
| "perform k (Setresuid r e v) s = setresuid k r e v s"
| "perform k (Setfsuid u) s = (let (old, s') = setfsuid k u s in (uint old, s'))"
| "perform k (Setgid g) s = setgid k g s"
| "perform k (Setregid r e) s = setregid k r e s"
| "perform k (Setresgid r e v) s = setresgid k r e v s"
| "perform k (Setfsgid g) s = (let (old, s') = setfsgid k g s in (uint old, s'))"

definition run_calls :: "kernel_env \<Rightarrow> id_call list \<Rightarrow> task \<Rightarrow> task" where
  "run_calls k cs s = fold (\<lambda>c s. snd (perform k c s)) cs s"

text \<open>The numbers a process has: those it can act under or come back to.\<close>

definition cred_uids :: "cred \<Rightarrow> kid set" where "cred_uids c = {uid c, euid c, suid c, fsuid c}"
definition cred_gids :: "cred \<Rightarrow> kid set" where "cred_gids c = {gid c, egid c, sgid c, fsgid c}"

text \<open>A process to which no capability is ever granted.\<close>

definition without_capabilities :: "kernel_env \<Rightarrow> kernel_env" where
  "without_capabilities k = k\<lparr>capable := (\<lambda>_ _. False)\<rparr>"

text \<open>The interface of a set of calls that can only lose what a state holds, and what follows for sequences of them.\<close>

locale confining_calls =
  fixes step :: "'c \<Rightarrow> 's \<Rightarrow> 's" and held :: "'s \<Rightarrow> 'i set"
  assumes step_confined: "held (step c s) \<subseteq> held s"
begin

lemma sequence_confined: "held (fold step cs s) \<subseteq> held s"
proof (induction cs arbitrary: s)
  case (Cons c cs)
  have "held (fold step cs (step c s)) \<subseteq> held (step c s)" by (rule Cons.IH)
  also have "\<dots> \<subseteq> held s" by (rule step_confined)
  finally show ?case by simp
qed simp

lemma never_regained: "i \<notin> held s \<Longrightarrow> i \<notin> held (fold step cs s)"
  using sequence_confined by blast

end

lemma cred_ids_caps [simp]: "cred_uids (c\<lparr>caps := cs\<rparr>) = cred_uids c" "cred_gids (c\<lparr>caps := cs\<rparr>) = cred_gids c"
  by (simp_all add: cred_uids_def cred_gids_def)

lemma fix_and_commit_cases:
  obtains (refused) r where "r < 0" "fix_and_commit k f new old s = (r, s)"
  | (committed) cs where "fix_and_commit k f new old s = (0, s\<lparr>cred := new\<lparr>caps := cs\<rparr>\<rparr>)"
proof (cases "fst (fix_setuid k new old f) < 0")
  case True
  then show ?thesis by (intro refused [of "fst (fix_setuid k new old f)"]) (auto simp: fix_and_commit_def split: prod.split)
next
  case False
  then show ?thesis by (intro committed [of "snd (fix_setuid k new old f)"]) (auto simp: fix_and_commit_def split: prod.split)
qed

lemma with_user_cases:
  obtains (refused) "with_user k changed new s rest = (- EAGAIN, s)"
  | (going) u b where "with_user k changed new s rest = rest (new\<lparr>user := u\<rparr>) (s\<lparr>nproc_exceeded := b\<rparr>)"
proof (cases "changed")
  case False
  then show ?thesis by (intro going [of "user new" "nproc_exceeded s"]) (simp add: with_user_def)
next
  case True
  show ?thesis
  proof (cases "can_alloc_uid k (uid new)")
    case al: True
    then show ?thesis using True by (intro going [of "uid new" "nproc_full k (uid new)"]) (simp add: with_user_def set_user_def)
  next
    case False
    then show ?thesis using True by (intro refused) (simp add: with_user_def set_user_def EAGAIN_def)
  qed
qed

text \<open>The outcomes of the calls: a failure leaves the credentials alone, a success changes them in one way.\<close>

definition failed :: "int \<times> task \<Rightarrow> task \<Rightarrow> bool" where
  "failed res s \<longleftrightarrow> fst res < 0 \<and> cred (snd res) = cred s"

definition committed :: "int \<times> task \<Rightarrow> cred \<Rightarrow> bool" where
  "committed res c \<longleftrightarrow> fst res = 0 \<and> (\<exists>u cs. cred (snd res) = c\<lparr>user := u, caps := cs\<rparr>)"

lemma fix_and_commit_outcome: "cred s = old \<Longrightarrow> failed (fix_and_commit k f new old s) s \<or> committed (fix_and_commit k f new old s) new"
proof (rule fix_and_commit_cases [of k f new old s])
  fix cs assume "fix_and_commit k f new old s = (0, s\<lparr>cred := new\<lparr>caps := cs\<rparr>\<rparr>)"
  then have "committed (fix_and_commit k f new old s) new"
    unfolding committed_def by (auto intro!: exI [of _ "user new"] exI [of _ cs])
  then show ?thesis ..
qed (simp_all add: failed_def)

lemma with_user_outcome:
  assumes "\<And>u b. failed (rest (new\<lparr>user := u\<rparr>) (s\<lparr>nproc_exceeded := b\<rparr>)) s \<or> committed (rest (new\<lparr>user := u\<rparr>) (s\<lparr>nproc_exceeded := b\<rparr>)) c"
  shows "failed (with_user k changed new s rest) s \<or> committed (with_user k changed new s rest) c"
  by (rule with_user_cases [of k changed new s rest]) (simp_all add: assms, simp add: failed_def EAGAIN_def)

lemma failed_nproc: "failed res (s\<lparr>nproc_exceeded := b\<rparr>) = failed res s"
  by (simp add: failed_def)

lemma committed_user: "committed res (c\<lparr>user := u\<rparr>) = committed res c"
  by (simp add: committed_def)

lemma errno_negative: "- EINVAL < 0" "- ENOMEM < 0" "- EPERM < 0" "- EAGAIN < 0" "- EFAULT < 0"
  by (simp_all add: errno_defs)

lemma guarded:
  assumes "res = (if a1 then (n1, s) else if a2 then (n2, s) else if a3 then (n3, s) else if a4 then (n4, s)
      else if a5 then (n5, s) else rest)"
    and "n1 < 0" "n2 < 0" "n3 < 0" "n4 < 0" "n5 < 0" "a1 \<or> a2 \<or> a3 \<or> a4 \<or> a5"
  shows "failed res s"
  using assms by (auto simp: failed_def)

lemma unguarded:
  assumes "res = (if a1 then x1 else if a2 then x2 else if a3 then x3 else if a4 then x4 else if a5 then x5 else rest)"
    and "\<not> (a1 \<or> a2 \<or> a3 \<or> a4 \<or> a5)"
  shows "res = rest"
  using assms by simp

definition keep :: "32 word \<Rightarrow> kid \<Rightarrow> kid \<Rightarrow> kid" where
  "keep arg new old = (if arg \<noteq> -1 then new else old)"

definition reuid_new :: "kernel_env \<Rightarrow> 32 word \<Rightarrow> 32 word \<Rightarrow> cred \<Rightarrow> cred" where
  "reuid_new k r e c =
     (let eu = keep e (make_kuid k e) (euid c) in
      c\<lparr>uid := keep r (make_kuid k r) (uid c), euid := eu,
        suid := (if r \<noteq> -1 \<or> e \<noteq> -1 \<and> make_kuid k e \<noteq> uid c then eu else suid c), fsuid := eu\<rparr>)"

lemma setreuid_outcome:
  "failed (setreuid k r e s) s \<or>
   committed (setreuid k r e s) (reuid_new k r e (cred s)) \<and>
     (r \<noteq> -1 \<longrightarrow> make_kuid k r \<in> {uid (cred s), euid (cred s)} \<or> capable k (cred s) CAP_SETUID) \<and>
     (e \<noteq> -1 \<longrightarrow> make_kuid k e \<in> {uid (cred s), euid (cred s), suid (cred s)} \<or> capable k (cred s) CAP_SETUID)"
proof -
  let ?kr = "make_kuid k r" and ?ke = "make_kuid k e" and ?old = "cred s"
  let ?perm = "\<not> (r \<noteq> -1 \<and> uid ?old \<noteq> ?kr \<and> euid ?old \<noteq> ?kr \<and> \<not> capable k ?old CAP_SETUID) \<and>
    \<not> (e \<noteq> -1 \<and> uid ?old \<noteq> ?ke \<and> euid ?old \<noteq> ?ke \<and> suid ?old \<noteq> ?ke \<and> \<not> capable k ?old CAP_SETUID)"
  show ?thesis
  proof (cases "\<not> (r \<noteq> -1 \<and> \<not> id_valid ?kr) \<and> \<not> (e \<noteq> -1 \<and> \<not> id_valid ?ke) \<and> can_prepare k \<and> ?perm")
    case False
    then have "failed (setreuid k r e s) s" by (intro guarded [OF setreuid_def [unfolded Let_def]] errno_negative) argo
    then show ?thesis ..
  next
    case True
    let ?new2 = "if e \<noteq> -1 then (if r \<noteq> -1 then ?old\<lparr>uid := ?kr\<rparr> else ?old)\<lparr>euid := ?ke\<rparr> else if r \<noteq> -1 then ?old\<lparr>uid := ?kr\<rparr> else ?old"
    let ?new4 = "\<lambda>new3. if r \<noteq> -1 \<or> e \<noteq> -1 \<and> ?ke \<noteq> uid ?old then new3\<lparr>suid := euid new3\<rparr> else new3"
    let ?rest = "\<lambda>new3. fix_and_commit k LSM_SETID_RE ((?new4 new3)\<lparr>fsuid := euid (?new4 new3)\<rparr>) ?old"
    have eq: "setreuid k r e s = with_user k (uid ?new2 \<noteq> uid ?old) ?new2 s ?rest"
      by (rule unguarded [OF setreuid_def [unfolded Let_def]]) (use True in argo)
    have rest: "?rest (?new2\<lparr>user := u\<rparr>) t = fix_and_commit k LSM_SETID_RE ((reuid_new k r e ?old)\<lparr>user := u\<rparr>) ?old t" for u t
      unfolding reuid_new_def keep_def Let_def by (rule arg_cong [of _ _ "\<lambda>c. fix_and_commit k LSM_SETID_RE c ?old t"]) simp
    have "failed (?rest (?new2\<lparr>user := u\<rparr>) (s\<lparr>nproc_exceeded := b\<rparr>)) s \<or>
        committed (?rest (?new2\<lparr>user := u\<rparr>) (s\<lparr>nproc_exceeded := b\<rparr>)) (reuid_new k r e ?old)" for u b
      unfolding rest
      using fix_and_commit_outcome [of "s\<lparr>nproc_exceeded := b\<rparr>" ?old k LSM_SETID_RE "(reuid_new k r e ?old)\<lparr>user := u\<rparr>"]
      by (simp add: failed_nproc committed_user)
    then have "failed (setreuid k r e s) s \<or> committed (setreuid k r e s) (reuid_new k r e ?old)"
      unfolding eq by (rule with_user_outcome)
    moreover from True have "r \<noteq> -1 \<longrightarrow> ?kr \<in> {uid ?old, euid ?old} \<or> capable k ?old CAP_SETUID"
      "e \<noteq> -1 \<longrightarrow> ?ke \<in> {uid ?old, euid ?old, suid ?old} \<or> capable k ?old CAP_SETUID"
      by auto
    ultimately show ?thesis by blast
  qed
qed

definition resuid_new :: "kernel_env \<Rightarrow> 32 word \<Rightarrow> 32 word \<Rightarrow> 32 word \<Rightarrow> cred \<Rightarrow> cred" where
  "resuid_new k r e v c =
     c\<lparr>uid := keep r (make_kuid k r) (uid c), euid := keep e (make_kuid k e) (euid c),
       suid := keep v (make_kuid k v) (suid c), fsuid := keep e (make_kuid k e) (euid c)\<rparr>"

definition own_uid :: "kernel_env \<Rightarrow> 32 word \<Rightarrow> cred \<Rightarrow> bool" where
  "own_uid k a c \<longleftrightarrow> a = -1 \<or> make_kuid k a \<in> {uid c, euid c, suid c} \<or> capable k c CAP_SETUID"

lemma setresuid_outcome:
  "failed (setresuid k r e v s) s \<or>
   committed (setresuid k r e v s) (resuid_new k r e v (cred s)) \<and>
     own_uid k r (cred s) \<and> own_uid k e (cred s) \<and> own_uid k v (cred s)"
proof -
  let ?kr = "make_kuid k r" and ?ke = "make_kuid k e" and ?ks = "make_kuid k v" and ?old = "cred s"
  let ?denied = "\<not> capable k ?old CAP_SETUID \<and>
      (r \<noteq> -1 \<and> ?kr \<noteq> uid ?old \<and> ?kr \<noteq> euid ?old \<and> ?kr \<noteq> suid ?old \<or>
       e \<noteq> -1 \<and> ?ke \<noteq> uid ?old \<and> ?ke \<noteq> euid ?old \<and> ?ke \<noteq> suid ?old \<or>
       v \<noteq> -1 \<and> ?ks \<noteq> uid ?old \<and> ?ks \<noteq> euid ?old \<and> ?ks \<noteq> suid ?old)"
  show ?thesis
  proof (cases "\<not> (r \<noteq> -1 \<and> \<not> id_valid ?kr) \<and> \<not> (e \<noteq> -1 \<and> \<not> id_valid ?ke) \<and> \<not> (v \<noteq> -1 \<and> \<not> id_valid ?ks) \<and>
      can_prepare k \<and> \<not> ?denied")
    case False
    then have "failed (setresuid k r e v s) s"
      by (intro guarded [OF setresuid_def [unfolded Let_def]] errno_negative) blast
    then show ?thesis ..
  next
    case True
    let ?new1 = "if r \<noteq> -1 then ?old\<lparr>uid := ?kr\<rparr> else ?old"
    let ?new3 = "\<lambda>new2. if e \<noteq> -1 then new2\<lparr>euid := ?ke\<rparr> else new2"
    let ?new4 = "\<lambda>new2. if v \<noteq> -1 then (?new3 new2)\<lparr>suid := ?ks\<rparr> else ?new3 new2"
    let ?rest = "\<lambda>new2. fix_and_commit k LSM_SETID_RES ((?new4 new2)\<lparr>fsuid := euid (?new4 new2)\<rparr>) ?old"
    have eq: "setresuid k r e v s = with_user k (r \<noteq> -1 \<and> ?kr \<noteq> uid ?old) ?new1 s ?rest"
      by (rule unguarded [OF setresuid_def [unfolded Let_def]]) (use True in blast)
    have rest: "?rest (?new1\<lparr>user := u\<rparr>) t = fix_and_commit k LSM_SETID_RES ((resuid_new k r e v ?old)\<lparr>user := u\<rparr>) ?old t" for u t
      unfolding resuid_new_def keep_def by (rule arg_cong [of _ _ "\<lambda>c. fix_and_commit k LSM_SETID_RES c ?old t"]) simp
    have "failed (?rest (?new1\<lparr>user := u\<rparr>) (s\<lparr>nproc_exceeded := b\<rparr>)) s \<or>
        committed (?rest (?new1\<lparr>user := u\<rparr>) (s\<lparr>nproc_exceeded := b\<rparr>)) (resuid_new k r e v ?old)" for u b
      unfolding rest
      using fix_and_commit_outcome [of "s\<lparr>nproc_exceeded := b\<rparr>" ?old k LSM_SETID_RES "(resuid_new k r e v ?old)\<lparr>user := u\<rparr>"]
      by (simp add: failed_nproc committed_user)
    then have "failed (setresuid k r e v s) s \<or> committed (setresuid k r e v s) (resuid_new k r e v ?old)"
      unfolding eq by (rule with_user_outcome)
    moreover have "own_uid k r ?old \<and> own_uid k e ?old \<and> own_uid k v ?old" using True by (auto simp: own_uid_def)
    ultimately show ?thesis by blast
  qed
qed

definition setuid_new :: "kernel_env \<Rightarrow> 32 word \<Rightarrow> cred \<Rightarrow> cred" where
  "setuid_new k u c =
     (let ku = make_kuid k u in
      if capable k c CAP_SETUID then c\<lparr>suid := ku, uid := ku, fsuid := ku, euid := ku\<rparr> else c\<lparr>fsuid := ku, euid := ku\<rparr>)"

lemma setuid_outcome:
  "failed (setuid k u s) s \<or>
   committed (setuid k u s) (setuid_new k u (cred s)) \<and>
     (capable k (cred s) CAP_SETUID \<or> make_kuid k u \<in> {uid (cred s), suid (cred s)})"
proof -
  let ?ku = "make_kuid k u" and ?old = "cred s"
  let ?rest = "\<lambda>new. fix_and_commit k LSM_SETID_ID (new\<lparr>fsuid := ?ku, euid := ?ku\<rparr>) ?old"
  let ?all = "?old\<lparr>suid := ?ku, uid := ?ku, fsuid := ?ku, euid := ?ku\<rparr>"
  have "failed (?rest (?old\<lparr>suid := ?ku, uid := ?ku, user := x\<rparr>) (s\<lparr>nproc_exceeded := b\<rparr>)) s \<or>
      committed (?rest (?old\<lparr>suid := ?ku, uid := ?ku, user := x\<rparr>) (s\<lparr>nproc_exceeded := b\<rparr>)) ?all" for x b
  proof -
    have "?old\<lparr>suid := ?ku, uid := ?ku, user := x\<rparr>\<lparr>fsuid := ?ku, euid := ?ku\<rparr> = ?all\<lparr>user := x\<rparr>" by simp
    moreover have "cred (s\<lparr>nproc_exceeded := b\<rparr>) = ?old" by simp
    note fix_and_commit_outcome [OF this, of k LSM_SETID_ID "?all\<lparr>user := x\<rparr>"]
    ultimately show ?thesis by (simp only: failed_nproc committed_user)
  qed
  note cap = with_user_outcome [of ?rest, OF this]
  have nocap: "failed (?rest ?old s) s \<or> committed (?rest ?old s) (?old\<lparr>fsuid := ?ku, euid := ?ku\<rparr>)"
    by (rule fix_and_commit_outcome) simp
  have fail: "failed (- EINVAL, s) s" "failed (- ENOMEM, s) s" "failed (- EPERM, s) s" by (simp_all add: failed_def errno_defs)
  show ?thesis
    unfolding setuid_def setuid_new_def Let_def using cap nocap fail by (auto split: if_splits)
qed

lemma committed_direct: "committed (0, s\<lparr>cred := c\<rparr>) c"
  unfolding committed_def by (auto intro!: exI [of _ "user c"] exI [of _ "caps c"])

definition own_gid :: "kernel_env \<Rightarrow> 32 word \<Rightarrow> cred \<Rightarrow> bool" where
  "own_gid k a c \<longleftrightarrow> a = -1 \<or> make_kgid k a \<in> {gid c, egid c, sgid c} \<or> capable k c CAP_SETGID"

definition resgid_new :: "kernel_env \<Rightarrow> 32 word \<Rightarrow> 32 word \<Rightarrow> 32 word \<Rightarrow> cred \<Rightarrow> cred" where
  "resgid_new k r e v c =
     c\<lparr>gid := keep r (make_kgid k r) (gid c), egid := keep e (make_kgid k e) (egid c),
       sgid := keep v (make_kgid k v) (sgid c), fsgid := keep e (make_kgid k e) (egid c)\<rparr>"

lemma setresgid_outcome:
  "failed (setresgid k r e v s) s \<or>
   committed (setresgid k r e v s) (resgid_new k r e v (cred s)) \<and>
     own_gid k r (cred s) \<and> own_gid k e (cred s) \<and> own_gid k v (cred s)"
proof -
  let ?kr = "make_kgid k r" and ?ke = "make_kgid k e" and ?ks = "make_kgid k v" and ?old = "cred s"
  let ?denied = "\<not> capable k ?old CAP_SETGID \<and>
      (r \<noteq> -1 \<and> ?kr \<noteq> gid ?old \<and> ?kr \<noteq> egid ?old \<and> ?kr \<noteq> sgid ?old \<or>
       e \<noteq> -1 \<and> ?ke \<noteq> gid ?old \<and> ?ke \<noteq> egid ?old \<and> ?ke \<noteq> sgid ?old \<or>
       v \<noteq> -1 \<and> ?ks \<noteq> gid ?old \<and> ?ks \<noteq> egid ?old \<and> ?ks \<noteq> sgid ?old)"
  show ?thesis
  proof (cases "\<not> (r \<noteq> -1 \<and> \<not> id_valid ?kr) \<and> \<not> (e \<noteq> -1 \<and> \<not> id_valid ?ke) \<and> \<not> (v \<noteq> -1 \<and> \<not> id_valid ?ks) \<and>
      can_prepare k \<and> \<not> ?denied")
    case False
    then have "failed (setresgid k r e v s) s"
      by (intro guarded [OF setresgid_def [unfolded Let_def]] errno_negative) blast
    then show ?thesis ..
  next
    case True
    let ?new1 = "if r \<noteq> -1 then ?old\<lparr>gid := ?kr\<rparr> else ?old"
    let ?new2 = "if e \<noteq> -1 then ?new1\<lparr>egid := ?ke\<rparr> else ?new1"
    let ?new3 = "if v \<noteq> -1 then ?new2\<lparr>sgid := ?ks\<rparr> else ?new2"
    have "setresgid k r e v s = (0, s\<lparr>cred := ?new3\<lparr>fsgid := egid ?new3\<rparr>\<rparr>)"
      by (rule unguarded [OF setresgid_def [unfolded Let_def]]) (use True in blast)
    moreover have "?new3\<lparr>fsgid := egid ?new3\<rparr> = resgid_new k r e v ?old" unfolding resgid_new_def keep_def by simp
    ultimately have "committed (setresgid k r e v s) (resgid_new k r e v ?old)" by (simp only: committed_direct)
    moreover have "own_gid k r ?old \<and> own_gid k e ?old \<and> own_gid k v ?old" using True by (auto simp: own_gid_def)
    ultimately show ?thesis by blast
  qed
qed

definition regid_new :: "kernel_env \<Rightarrow> 32 word \<Rightarrow> 32 word \<Rightarrow> cred \<Rightarrow> cred" where
  "regid_new k r e c =
     (let eg = keep e (make_kgid k e) (egid c) in
      c\<lparr>gid := keep r (make_kgid k r) (gid c), egid := eg,
        sgid := (if r \<noteq> -1 \<or> e \<noteq> -1 \<and> make_kgid k e \<noteq> gid c then eg else sgid c), fsgid := eg\<rparr>)"

lemma setregid_outcome:
  "failed (setregid k r e s) s \<or>
   committed (setregid k r e s) (regid_new k r e (cred s)) \<and> own_gid k r (cred s) \<and> own_gid k e (cred s)"
proof -
  let ?kr = "make_kgid k r" and ?ke = "make_kgid k e" and ?old = "cred s"
  let ?p1 = "gid ?old = ?kr \<or> egid ?old = ?kr \<or> capable k ?old CAP_SETGID"
  let ?p2 = "gid ?old = ?ke \<or> egid ?old = ?ke \<or> sgid ?old = ?ke \<or> capable k ?old CAP_SETGID"
  show ?thesis
  proof (cases "\<not> (r \<noteq> -1 \<and> \<not> id_valid ?kr) \<and> \<not> (e \<noteq> -1 \<and> \<not> id_valid ?ke) \<and> can_prepare k \<and>
      \<not> (r \<noteq> -1 \<and> \<not> ?p1) \<and> \<not> (e \<noteq> -1 \<and> \<not> ?p2)")
    case False
    then have "failed (setregid k r e s) s"
      by (intro guarded [OF setregid_def [unfolded Let_def]] errno_negative) blast
    then show ?thesis ..
  next
    case True
    let ?new1 = "if r \<noteq> -1 then ?old\<lparr>gid := ?kr\<rparr> else ?old"
    let ?new2 = "if e \<noteq> -1 then ?new1\<lparr>egid := ?ke\<rparr> else ?new1"
    let ?new3 = "if r \<noteq> -1 \<or> e \<noteq> -1 \<and> ?ke \<noteq> gid ?old then ?new2\<lparr>sgid := egid ?new2\<rparr> else ?new2"
    have "setregid k r e s = (0, s\<lparr>cred := ?new3\<lparr>fsgid := egid ?new3\<rparr>\<rparr>)"
      by (rule unguarded [OF setregid_def [unfolded Let_def]]) (use True in blast)
    moreover have "?new3\<lparr>fsgid := egid ?new3\<rparr> = regid_new k r e ?old" unfolding regid_new_def keep_def Let_def by simp
    ultimately have "committed (setregid k r e s) (regid_new k r e ?old)" by (simp only: committed_direct)
    moreover have "own_gid k r ?old \<and> own_gid k e ?old" using True by (auto simp: own_gid_def)
    ultimately show ?thesis by blast
  qed
qed

definition setgid_new :: "kernel_env \<Rightarrow> 32 word \<Rightarrow> cred \<Rightarrow> cred" where
  "setgid_new k g c =
     (let kg = make_kgid k g in
      if capable k c CAP_SETGID then c\<lparr>gid := kg, egid := kg, sgid := kg, fsgid := kg\<rparr> else c\<lparr>egid := kg, fsgid := kg\<rparr>)"

lemma setgid_outcome:
  "failed (setgid k g s) s \<or>
   committed (setgid k g s) (setgid_new k g (cred s)) \<and>
     (capable k (cred s) CAP_SETGID \<or> make_kgid k g \<in> {gid (cred s), sgid (cred s)})"
proof -
  have fail: "failed (- EINVAL, s) s" "failed (- ENOMEM, s) s" "failed (- EPERM, s) s" by (simp_all add: failed_def errno_defs)
  show ?thesis
    unfolding setgid_def setgid_new_def Let_def using fail by (auto simp: committed_direct)
qed

lemma setfsuid_outcome:
  "cred (snd (setfsuid k u s)) = cred s \<or>
   (\<exists>cs. cred (snd (setfsuid k u s)) = (cred s)\<lparr>fsuid := make_kuid k u, caps := cs\<rparr>) \<and>
     (make_kuid k u \<in> {uid (cred s), euid (cred s), suid (cred s)} \<or> capable k (cred s) CAP_SETUID)"
  by (auto simp: setfsuid_def Let_def split: prod.split)

lemma setfsgid_outcome:
  "cred (snd (setfsgid k g s)) = cred s \<or>
   cred (snd (setfsgid k g s)) = (cred s)\<lparr>fsgid := make_kgid k g\<rparr> \<and>
     (make_kgid k g \<in> {gid (cred s), egid (cred s), sgid (cred s)} \<or> capable k (cred s) CAP_SETGID)"
  by (auto simp: setfsgid_def Let_def)

section \<open>A process without capabilities\<close>

lemma capable_none [simp]: "capable (without_capabilities k) c x = False"
  by (simp add: without_capabilities_def)

lemma outcome_ids:
  assumes "failed res s \<or> committed res c \<and> P" "P \<Longrightarrow> cred_uids c \<subseteq> cred_uids (cred s) \<and> cred_gids c \<subseteq> cred_gids (cred s)"
  shows "cred_uids (cred (snd res)) \<subseteq> cred_uids (cred s) \<and> cred_gids (cred (snd res)) \<subseteq> cred_gids (cred s)"
proof -
  have "cred_uids (cred (snd res)) = cred_uids c \<and> cred_gids (cred (snd res)) = cred_gids c" if "committed res c"
    using that by (auto simp: committed_def cred_uids_def cred_gids_def)
  then show ?thesis using assms by (auto simp: failed_def)
qed

lemma keep_own:
  "own_uid (without_capabilities k) a c \<Longrightarrow> x \<in> cred_uids c \<Longrightarrow> keep a (make_kuid (without_capabilities k) a) x \<in> cred_uids c"
  "own_gid (without_capabilities k) a c \<Longrightarrow> x \<in> cred_gids c \<Longrightarrow> keep a (make_kgid (without_capabilities k) a) x \<in> cred_gids c"
  by (auto simp: keep_def own_uid_def own_gid_def cred_uids_def cred_gids_def)

lemma cred_ids_member [simp]:
  "uid c \<in> cred_uids c" "euid c \<in> cred_uids c" "suid c \<in> cred_uids c" "gid c \<in> cred_gids c" "egid c \<in> cred_gids c" "sgid c \<in> cred_gids c"
  by (simp_all add: cred_uids_def cred_gids_def)

lemma cred_ids_subset:
  "uid c \<in> B \<Longrightarrow> euid c \<in> B \<Longrightarrow> suid c \<in> B \<Longrightarrow> fsuid c \<in> B \<Longrightarrow> cred_uids c \<subseteq> B"
  "gid c \<in> D \<Longrightarrow> egid c \<in> D \<Longrightarrow> sgid c \<in> D \<Longrightarrow> fsgid c \<in> D \<Longrightarrow> cred_gids c \<subseteq> D"
  by (simp_all add: cred_uids_def cred_gids_def)

lemma new_ids:
  "own_uid (without_capabilities k) r c \<Longrightarrow> own_uid (without_capabilities k) e c \<Longrightarrow> own_uid (without_capabilities k) v c \<Longrightarrow>
   cred_uids (resuid_new (without_capabilities k) r e v c) \<subseteq> cred_uids c \<and> cred_gids (resuid_new (without_capabilities k) r e v c) = cred_gids c"
  "own_uid (without_capabilities k) r c \<Longrightarrow> own_uid (without_capabilities k) e c \<Longrightarrow>
   cred_uids (reuid_new (without_capabilities k) r e c) \<subseteq> cred_uids c \<and> cred_gids (reuid_new (without_capabilities k) r e c) = cred_gids c"
  "own_gid (without_capabilities k) r c \<Longrightarrow> own_gid (without_capabilities k) e c \<Longrightarrow> own_gid (without_capabilities k) v c \<Longrightarrow>
   cred_gids (resgid_new (without_capabilities k) r e v c) \<subseteq> cred_gids c \<and> cred_uids (resgid_new (without_capabilities k) r e v c) = cred_uids c"
  "own_gid (without_capabilities k) r c \<Longrightarrow> own_gid (without_capabilities k) e c \<Longrightarrow>
   cred_gids (regid_new (without_capabilities k) r e c) \<subseteq> cred_gids c \<and> cred_uids (regid_new (without_capabilities k) r e c) = cred_uids c"
  by (intro conjI cred_ids_subset; simp add: resuid_new_def reuid_new_def resgid_new_def regid_new_def Let_def keep_own;
      simp add: cred_uids_def cred_gids_def)+

lemma perform_confined:
  "cred_uids (cred (snd (perform (without_capabilities k) c s))) \<subseteq> cred_uids (cred s) \<and>
   cred_gids (cred (snd (perform (without_capabilities k) c s))) \<subseteq> cred_gids (cred s)"
proof (cases c)
  case (Setuid u)
  have "cred_uids (setuid_new (without_capabilities k) u (cred s)) \<subseteq> cred_uids (cred s) \<and>
      cred_gids (setuid_new (without_capabilities k) u (cred s)) \<subseteq> cred_gids (cred s)"
    if "make_kuid (without_capabilities k) u \<in> {uid (cred s), suid (cred s)}"
    using that by (auto simp: setuid_new_def Let_def cred_uids_def cred_gids_def)
  then show ?thesis using Setuid outcome_ids [OF setuid_outcome [of "without_capabilities k" u s]] by auto
next
  case (Setreuid r e)
  have "own_uid (without_capabilities k) r (cred s) \<and> own_uid (without_capabilities k) e (cred s)"
    if "(r \<noteq> -1 \<longrightarrow> make_kuid (without_capabilities k) r \<in> {uid (cred s), euid (cred s)} \<or> capable (without_capabilities k) (cred s) CAP_SETUID) \<and>
     (e \<noteq> -1 \<longrightarrow> make_kuid (without_capabilities k) e \<in> {uid (cred s), euid (cred s), suid (cred s)} \<or> capable (without_capabilities k) (cred s) CAP_SETUID)"
    using that by (auto simp: own_uid_def)
  then show ?thesis using Setreuid outcome_ids [OF setreuid_outcome [of "without_capabilities k" r e s]] new_ids(2) [of k r "cred s" e]
    by auto
next
  case (Setresuid r e v)
  then show ?thesis using outcome_ids [OF setresuid_outcome [of "without_capabilities k" r e v s]] new_ids(1) [of k r "cred s" e v] by auto
next
  case (Setfsuid u)
  then show ?thesis using setfsuid_outcome [of "without_capabilities k" u s]
    by (auto simp: cred_uids_def cred_gids_def split: prod.split)
next
  case (Setgid g)
  have "cred_uids (setgid_new (without_capabilities k) g (cred s)) \<subseteq> cred_uids (cred s) \<and>
      cred_gids (setgid_new (without_capabilities k) g (cred s)) \<subseteq> cred_gids (cred s)"
    if "make_kgid (without_capabilities k) g \<in> {gid (cred s), sgid (cred s)}"
    using that by (auto simp: setgid_new_def Let_def cred_uids_def cred_gids_def)
  then show ?thesis using Setgid outcome_ids [OF setgid_outcome [of "without_capabilities k" g s]] by auto
next
  case (Setregid r e)
  then show ?thesis using outcome_ids [OF setregid_outcome [of "without_capabilities k" r e s]] new_ids(4) [of k r "cred s" e] by auto
next
  case (Setresgid r e v)
  then show ?thesis using outcome_ids [OF setresgid_outcome [of "without_capabilities k" r e v s]] new_ids(3) [of k r "cred s" e v] by auto
next
  case (Setfsgid g)
  then show ?thesis using setfsgid_outcome [of "without_capabilities k" g s]
    by (auto simp: cred_uids_def cred_gids_def split: prod.split)
qed

interpretation user_numbers: confining_calls "\<lambda>c s. snd (perform (without_capabilities k) c s)" "\<lambda>s. cred_uids (cred s)" for k
  by unfold_locales (simp add: perform_confined)

interpretation group_numbers: confining_calls "\<lambda>c s. snd (perform (without_capabilities k) c s)" "\<lambda>s. cred_gids (cred s)" for k
  by unfold_locales (simp add: perform_confined)

text \<open>C7: no sequence of these calls takes a process without capabilities to a user or group number it does not already
  have as its real, effective, saved or file-system number; a number given up is never regained.\<close>

theorem creds_confined:
  "cred_uids (cred (run_calls (without_capabilities k) cs s)) \<subseteq> cred_uids (cred s) \<and>
   cred_gids (cred (run_calls (without_capabilities k) cs s)) \<subseteq> cred_gids (cred s)"
  unfolding run_calls_def by (intro conjI user_numbers.sequence_confined group_numbers.sequence_confined)

section \<open>The calls compared\<close>

text \<open>A call that reports an error leaves the credentials as they were, whatever the reason: a number that has no
  meaning in the namespace, no memory, no permission, no user structure or the security module's refusal. And a
  call that changes them reports success.\<close>

theorem set_calls_atomic:
  assumes "\<forall>u. c \<noteq> Setfsuid u" "\<forall>g. c \<noteq> Setfsgid g"
  shows "(fst (perform k c s) < 0 \<longrightarrow> cred (snd (perform k c s)) = cred s) \<and>
    (cred (snd (perform k c s)) \<noteq> cred s \<longrightarrow> fst (perform k c s) = 0)"
proof -
  have "failed (perform k c s) s \<or> fst (perform k c s) = 0"
  proof (cases c)
    case (Setuid u)
    then show ?thesis using setuid_outcome [of k u s] by (auto simp: committed_def)
  next
    case (Setreuid r e)
    then show ?thesis using setreuid_outcome [of k r e s] by (auto simp: committed_def)
  next
    case (Setresuid r e v)
    then show ?thesis using setresuid_outcome [of k r e v s] by (auto simp: committed_def)
  next
    case (Setgid g)
    then show ?thesis using setgid_outcome [of k g s] by (auto simp: committed_def)
  next
    case (Setregid r e)
    then show ?thesis using setregid_outcome [of k r e s] by (auto simp: committed_def)
  next
    case (Setresgid r e v)
    then show ?thesis using setresgid_outcome [of k r e v s] by (auto simp: committed_def)
  qed (use assms in simp_all)
  then show ?thesis by (auto simp: failed_def)
qed

text \<open>A kernel for examples: one namespace, root may do everything, the security module agrees.\<close>

definition plain_env :: kernel_env where
  "plain_env = \<lparr>make_kuid = (\<lambda>u. u), make_kgid = (\<lambda>g. g), from_kuid_munged = (\<lambda>u. u), from_kgid_munged = (\<lambda>g. g),
     can_prepare = True, can_alloc_uid = (\<lambda>_. True), nproc_full = (\<lambda>_. False),
     capable = (\<lambda>c cap. cap \<in> caps c), fix_setuid = (\<lambda>new old _. (0, if euid new = 0 then caps old else {}))\<rparr>"

definition example_task :: "kid \<Rightarrow> task" where
  "example_task u = \<lparr>cred = \<lparr>uid = u, gid = u, suid = u, sgid = u, euid = u, egid = u, fsuid = u, fsgid = u, user = u,
     caps = (if u = 0 then {CAP_SETUID, CAP_SETGID} else {})\<rparr>, nproc_exceeded = False\<rparr>"

theorem set_calls_atomic_witness:
  "fst (perform plain_env (Setuid 0) (example_task 1000)) < 0 \<and>
   cred (snd (perform plain_env (Setuid 0) (example_task 1000))) = cred (example_task 1000)"
proof -
  have "fst (perform plain_env (Setuid 0) (example_task 1000)) < 0"
    by (simp add: setuid_def plain_env_def example_task_def id_valid_def Let_def EPERM_def)
  then show ?thesis using set_calls_atomic [of "Setuid 0" plain_env "example_task 1000"] by simp
qed



lemma committed_ids: "committed res c \<Longrightarrow> cred_uids (cred (snd res)) = cred_uids c"
  by (auto simp: committed_def cred_uids_def)



lemma setresuid_valid:
  assumes "fst (setresuid k r e v s) = 0"
  shows "(r \<noteq> -1 \<longrightarrow> id_valid (make_kuid k r)) \<and> (e \<noteq> -1 \<longrightarrow> id_valid (make_kuid k e)) \<and> (v \<noteq> -1 \<longrightarrow> id_valid (make_kuid k v))"
proof (rule ccontr)
  assume "\<not> ?thesis"
  then have "failed (setresuid k r e v s) s"
    by (intro guarded [OF setresuid_def [unfolded Let_def]] errno_negative) blast
  then show False using assms by (simp add: failed_def)
qed

text \<open>\<^verbatim>\<open>getresuid\<close> after a successful \<^verbatim>\<open>setresuid\<close> returns the three numbers given, in a namespace that translates valid
  numbers back and forth; an argument of -1 keeps what \<^verbatim>\<open>getresuid\<close> returned before.\<close>

theorem setresuid_getresuid:
  assumes "fst (setresuid k r e v s) = 0" "\<And>u. id_valid (make_kuid k u) \<Longrightarrow> from_kuid_munged k (make_kuid k u) = u"
  shows "getresuid k (True, True, True) (snd (setresuid k r e v s)) =
    (0, [Some (if r \<noteq> -1 then r else from_kuid_munged k (uid (cred s))),
         Some (if e \<noteq> -1 then e else from_kuid_munged k (euid (cred s))),
         Some (if v \<noteq> -1 then v else from_kuid_munged k (suid (cred s)))])"
proof -
  have "committed (setresuid k r e v s) (resuid_new k r e v (cred s))"
    using setresuid_outcome [of k r e v s] assms(1) by (auto simp: failed_def)
  then have "uid (cred (snd (setresuid k r e v s))) = keep r (make_kuid k r) (uid (cred s))"
    "euid (cred (snd (setresuid k r e v s))) = keep e (make_kuid k e) (euid (cred s))"
    "suid (cred (snd (setresuid k r e v s))) = keep v (make_kuid k v) (suid (cred s))"
    by (auto simp: committed_def resuid_new_def)
  then show ?thesis
    using setresuid_valid [OF assms(1)] assms(2) by (simp add: getresuid_def put_three_def keep_def)
qed

theorem setresuid_getresuid_witness:
  "getresuid plain_env (True, True, True) (snd (setresuid plain_env 10 (-1) 30 (example_task 0))) = (0, [Some 10, Some 0, Some 30])"
proof -
  have "fst (setresuid plain_env 10 (-1) 30 (example_task 0)) = 0"
    by (simp add: setresuid_def with_user_def set_user_def fix_and_commit_def plain_env_def example_task_def id_valid_def Let_def)
  from setresuid_getresuid [OF this] show ?thesis by (simp add: plain_env_def example_task_def)
qed

end
