(* ===== verification/Sessions.thy ===== *)
theory Sessions
  imports Prelude
begin

text \<open>
  Process groups and sessions (src/project-0/sys.c): \<^verbatim>\<open>setpgid\<close>, \<^verbatim>\<open>getpgid\<close>, \<^verbatim>\<open>getsid\<close> and \<^verbatim>\<open>setsid\<close>.

  The table of tasks is a list; a task is found by its number, and the first member of a process group
  by its group. One pid namespace is assumed, so that a \<^verbatim>\<open>struct pid\<close> is its number. Group and
  session belong to a thread group and are kept in the entry of its leader, as in the kernel. The
  security module's answers are parameters. Fork, exec and exit are other parts of the kernel: the
  step relation at the end has them as steps of the surroundings, with what these calls rely on (a new
  task gets a number that no task, group or session uses).
\<close>

section \<open>Tasks\<close>

record tcb =
  tid :: int
  tgid :: int
  real_parent :: int
  pgrp :: int
  session :: int
  sess_leader :: bool
  fork_noexec :: bool
  has_tty :: bool

type_synonym tasks = "tcb list"

definition find_task :: "tasks \<Rightarrow> int \<Rightarrow> tcb option" where
  "find_task ts p = find (\<lambda>t. tid t = p) ts"

definition is_leader :: "tcb \<Rightarrow> bool" where
  "is_leader t \<longleftrightarrow> tid t = tgid t"

text \<open>\<^verbatim>\<open>pid_task(pid, PIDTYPE_PGID)\<close>: only leaders are on the lists of groups.\<close>

definition group_member :: "tasks \<Rightarrow> int \<Rightarrow> tcb option" where
  "group_member ts g = find (\<lambda>t. is_leader t \<and> pgrp t = g) ts"

definition update_task :: "int \<Rightarrow> (tcb \<Rightarrow> tcb) \<Rightarrow> tasks \<Rightarrow> tasks" where
  "update_task p f ts = map (\<lambda>t. if tid t = p then f t else t) ts"

definition same_thread_group :: "tasks \<Rightarrow> int \<Rightarrow> tcb \<Rightarrow> bool" where
  "same_thread_group ts p gl = (case find_task ts p of None \<Rightarrow> False | Some q \<Rightarrow> tgid q = tgid gl)"

section \<open>The system calls\<close>

text \<open>\<open>gl\<close> is \<^verbatim>\<open>current->group_leader\<close>.\<close>

definition setpgid :: "(tcb \<Rightarrow> int \<Rightarrow> int) \<Rightarrow> tcb \<Rightarrow> int \<Rightarrow> int \<Rightarrow> tasks \<Rightarrow> int \<times> tasks" where
  "setpgid security gl pid0 pgid0 ts =
     (let pid = (if pid0 = 0 then tid gl else pid0);
          pgid = (if pgid0 = 0 then pid else pgid0)
      in if pgid < 0 then (- EINVAL, ts)
         else case find_task ts pid of
           None \<Rightarrow> (- ESRCH, ts)
         | Some p \<Rightarrow>
             if \<not> is_leader p then (- EINVAL, ts)
             else if same_thread_group ts (real_parent p) gl \<and> session p \<noteq> session gl then (- EPERM, ts)
             else if same_thread_group ts (real_parent p) gl \<and> \<not> fork_noexec p then (- EACCES, ts)
             else if \<not> same_thread_group ts (real_parent p) gl \<and> tid p \<noteq> tid gl then (- ESRCH, ts)
             else if sess_leader p then (- EPERM, ts)
             else if pgid \<noteq> pid \<and> (case group_member ts pgid of None \<Rightarrow> True | Some g \<Rightarrow> session g \<noteq> session gl) then (- EPERM, ts)
             else
               (let err = security p pgid in
                if err \<noteq> 0 then (err, ts)
                else (0, if pgrp p \<noteq> pgid then update_task pid (\<lambda>t. t\<lparr>pgrp := pgid\<rparr>) ts else ts)))"

definition task_pgrp :: "tasks \<Rightarrow> tcb \<Rightarrow> int option" where
  "task_pgrp ts t = map_option pgrp (find_task ts (tgid t))"

definition task_session :: "tasks \<Rightarrow> tcb \<Rightarrow> int option" where
  "task_session ts t = map_option session (find_task ts (tgid t))"

definition getpgid :: "(tcb \<Rightarrow> int) \<Rightarrow> tcb \<Rightarrow> int \<Rightarrow> tasks \<Rightarrow> int" where
  "getpgid security gl pid ts =
     (if pid = 0 then pgrp gl
      else case find_task ts pid of
        None \<Rightarrow> - ESRCH
      | Some p \<Rightarrow>
          (case task_pgrp ts p of
             None \<Rightarrow> - ESRCH
           | Some grp \<Rightarrow> if security p \<noteq> 0 then security p else grp))"

definition getsid :: "(tcb \<Rightarrow> int) \<Rightarrow> tcb \<Rightarrow> int \<Rightarrow> tasks \<Rightarrow> int" where
  "getsid security gl pid ts =
     (if pid = 0 then session gl
      else case find_task ts pid of
        None \<Rightarrow> - ESRCH
      | Some p \<Rightarrow>
          (case task_session ts p of
             None \<Rightarrow> - ESRCH
           | Some sid \<Rightarrow> if security p \<noteq> 0 then security p else sid))"

definition set_special_pids :: "int \<Rightarrow> tcb \<Rightarrow> tcb" where
  "set_special_pids pid t =
     (let t1 = (if session t \<noteq> pid then t\<lparr>session := pid\<rparr> else t)
      in if pgrp t1 \<noteq> pid then t1\<lparr>pgrp := pid\<rparr> else t1)"

definition setsid :: "tcb \<Rightarrow> tasks \<Rightarrow> int \<times> tasks" where
  "setsid gl ts =
     (if sess_leader gl then (- EPERM, ts)
      else if group_member ts (tid gl) \<noteq> None then (- EPERM, ts)
      else (tid gl, update_task (tid gl) (\<lambda>t. (set_special_pids (tid gl) (t\<lparr>sess_leader := True\<rparr>))\<lparr>has_tty := False\<rparr>) ts))"

section \<open>Steps\<close>

definition forked :: "int \<Rightarrow> tcb \<Rightarrow> tcb \<Rightarrow> tcb" where
  "forked n p gl = \<lparr>tid = n, tgid = n, real_parent = tid p, pgrp = pgrp gl, session = session gl, sess_leader = False,
     fork_noexec = True, has_tty = has_tty gl\<rparr>"

inductive job_control :: "tasks \<Rightarrow> tasks \<Rightarrow> bool" where
  Setpgid: "gl \<in> set ts \<Longrightarrow> is_leader gl \<Longrightarrow> job_control ts (snd (setpgid security gl pid pgid ts))"
| Setsid: "gl \<in> set ts \<Longrightarrow> is_leader gl \<Longrightarrow> job_control ts (snd (setsid gl ts))"
| Fork: "gl \<in> set ts \<Longrightarrow> is_leader gl \<Longrightarrow> p \<in> set ts \<Longrightarrow> tgid p = tid gl \<Longrightarrow> 0 < n \<Longrightarrow>
    \<forall>t \<in> set ts. tid t \<noteq> n \<and> tgid t \<noteq> n \<and> pgrp t \<noteq> n \<and> session t \<noteq> n \<Longrightarrow> job_control ts (forked n p gl # ts)"
| Exec: "job_control ts (update_task n (\<lambda>t. t\<lparr>fork_noexec := False\<rparr>) ts)"
| Exit: "job_control ts (filter (\<lambda>t. tgid t \<noteq> n) ts)"

definition first_task :: tcb where
  "first_task = \<lparr>tid = 1, tgid = 1, real_parent = 0, pgrp = 0, session = 0, sess_leader = False, fork_noexec = True, has_tty = False\<rparr>"

inductive job_reachable :: "tasks \<Rightarrow> bool" where
  Boot: "job_reachable [first_task]"
| Step: "job_reachable ts \<Longrightarrow> job_control ts ts' \<Longrightarrow> job_reachable ts'"

section \<open>Invariant\<close>

text \<open>Facts about pairs of leaders, so that every step is a statement about the one entry it changes.\<close>

definition compatible :: "tcb \<Rightarrow> tcb \<Rightarrow> bool" where
  "compatible p q \<longleftrightarrow>
     (pgrp p = pgrp q \<longrightarrow> session p = session q) \<and>
     (pgrp q = tid p \<longrightarrow> session q = session p) \<and>
     (session q = tid p \<longrightarrow> sess_leader p)"

definition leader_ok :: "tcb \<Rightarrow> bool" where
  "leader_ok p \<longleftrightarrow> 0 < tid p \<and> (sess_leader p \<longrightarrow> session p = tid p \<and> pgrp p = tid p)"

definition job_inv :: "tasks \<Rightarrow> bool" where
  "job_inv ts \<longleftrightarrow> distinct (map tid ts) \<and>
     (\<forall>p \<in> set ts. is_leader p \<longrightarrow> leader_ok p) \<and>
     (\<forall>p \<in> set ts. \<forall>q \<in> set ts. is_leader p \<longrightarrow> is_leader q \<longrightarrow> compatible p q)"

lemma find_task_Some: "find_task ts p = Some t \<Longrightarrow> t \<in> set ts \<and> tid t = p"
  by (auto simp: find_task_def find_Some_iff)

lemma group_member_Some: "group_member ts g = Some t \<Longrightarrow> t \<in> set ts \<and> is_leader t \<and> pgrp t = g"
  by (auto simp: group_member_def find_Some_iff)

lemma group_member_None: "group_member ts g = None \<Longrightarrow> t \<in> set ts \<Longrightarrow> is_leader t \<Longrightarrow> pgrp t \<noteq> g"
  by (auto simp: group_member_def find_None_iff)

lemma set_update_task: "set (update_task p f ts) = {if tid t = p then f t else t | t. t \<in> set ts}"
  by (auto simp: update_task_def)

lemma tid_update_task: "(\<And>t. tid (f t) = tid t) \<Longrightarrow> map tid (update_task p f ts) = map tid ts"
  by (auto simp: update_task_def)

lemma unique_tid: "job_inv ts \<Longrightarrow> p \<in> set ts \<Longrightarrow> q \<in> set ts \<Longrightarrow> tid p = tid q \<Longrightarrow> p = q"
  by (metis (full_types) distinct_map inj_on_def job_inv_def)

text \<open>One entry changes.\<close>

lemma job_inv_update:
  assumes "job_inv ts" "p \<in> set ts" "is_leader p" "\<And>t. tid (f t) = tid t" "\<And>t. tgid (f t) = tgid t"
    and "leader_ok (f p)" "compatible (f p) (f p)"
    and "\<And>q. q \<in> set ts \<Longrightarrow> is_leader q \<Longrightarrow> tid q \<noteq> tid p \<Longrightarrow> compatible (f p) q \<and> compatible q (f p)"
  shows "job_inv (update_task (tid p) f ts)"
proof -
  have lead: "is_leader (f t) = is_leader t" for t using assms(4,5) by (simp add: is_leader_def)
  have cases: "t' = f p \<or> t' \<in> set ts \<and> tid t' \<noteq> tid p" if "t' \<in> set (update_task (tid p) f ts)" for t'
    using that unique_tid [OF assms(1) _ assms(2)] by (auto simp: set_update_task split: if_splits)
  have old: "\<And>q. q \<in> set ts \<Longrightarrow> is_leader q \<Longrightarrow> leader_ok q"
    "\<And>q r. q \<in> set ts \<Longrightarrow> r \<in> set ts \<Longrightarrow> is_leader q \<Longrightarrow> is_leader r \<Longrightarrow> compatible q r"
    using assms(1) by (simp_all add: job_inv_def)
  have "leader_ok t'" if "t' \<in> set (update_task (tid p) f ts)" "is_leader t'" for t'
    using cases [OF that(1)] that(2) old(1) assms(6) by auto
  moreover have "compatible t' u'"
    if "t' \<in> set (update_task (tid p) f ts)" "u' \<in> set (update_task (tid p) f ts)" "is_leader t'" "is_leader u'" for t' u'
    using cases [OF that(1)] cases [OF that(2)] that(3,4) old(2) [of t' u'] assms(7,8) by auto
  moreover have "distinct (map tid (update_task (tid p) f ts))"
    using assms(1) by (simp add: tid_update_task [OF assms(4)] job_inv_def)
  ultimately show ?thesis by (simp add: job_inv_def)
qed

lemma setpgid_cases:
  assumes "gl \<in> set ts" "is_leader gl" "job_inv ts"
  obtains (unchanged) "snd (setpgid security gl pid pgid ts) = ts"
  | (moved) p g where "p \<in> set ts" "is_leader p" "\<not> sess_leader p" "session p = session gl"
      "g = tid p \<or> (\<exists>m \<in> set ts. is_leader m \<and> pgrp m = g \<and> session m = session gl)"
      "setpgid security gl pid pgid ts = (0, update_task (tid p) (\<lambda>t. t\<lparr>pgrp := g\<rparr>) ts)"
proof (cases "snd (setpgid security gl pid pgid ts) = ts")
  case changed: False
  define i where "i = (if pid = 0 then tid gl else pid)"
  define g where "g = (if pgid = 0 then i else pgid)"
  have e: "setpgid security gl pid pgid ts = (if g < 0 then (- EINVAL, ts)
      else case find_task ts i of
        None \<Rightarrow> (- ESRCH, ts)
      | Some p \<Rightarrow>
          if \<not> is_leader p then (- EINVAL, ts)
          else if same_thread_group ts (real_parent p) gl \<and> session p \<noteq> session gl then (- EPERM, ts)
          else if same_thread_group ts (real_parent p) gl \<and> \<not> fork_noexec p then (- EACCES, ts)
          else if \<not> same_thread_group ts (real_parent p) gl \<and> tid p \<noteq> tid gl then (- ESRCH, ts)
          else if sess_leader p then (- EPERM, ts)
          else if g \<noteq> i \<and> (case group_member ts g of None \<Rightarrow> True | Some m \<Rightarrow> session m \<noteq> session gl) then (- EPERM, ts)
          else if security p g \<noteq> 0 then (security p g, ts)
          else (0, if pgrp p \<noteq> g then update_task i (\<lambda>t. t\<lparr>pgrp := g\<rparr>) ts else ts))"
    unfolding setpgid_def Let_def i_def g_def by (rule refl)
  have "find_task ts i \<noteq> None"
  proof
    assume n: "find_task ts i = None"
    have "snd (setpgid security gl pid pgid ts) = ts" unfolding e n by simp
    then show False using changed by simp
  qed
  then obtain p where p: "find_task ts i = Some p" by auto
  then have pin: "p \<in> set ts" "tid p = i" using find_task_Some by auto
  have c: "is_leader p" "\<not> sess_leader p"
    "\<not> (same_thread_group ts (real_parent p) gl \<and> session p \<noteq> session gl)"
    "\<not> (\<not> same_thread_group ts (real_parent p) gl \<and> tid p \<noteq> tid gl)"
    "\<not> (g \<noteq> i \<and> (case group_member ts g of None \<Rightarrow> True | Some m \<Rightarrow> session m \<noteq> session gl))"
    "setpgid security gl pid pgid ts = (0, update_task i (\<lambda>t. t\<lparr>pgrp := g\<rparr>) ts)"
    using changed by (auto simp: e p split: if_splits)
  have "p = gl" if "tid p = tid gl" using that unique_tid [OF assms(3) pin(1) assms(1)] by simp
  then have "session p = session gl" using c(3,4) by blast
  moreover have "g = tid p \<or> (\<exists>m \<in> set ts. is_leader m \<and> pgrp m = g \<and> session m = session gl)"
    using c(5) pin(2) by (auto split: option.splits dest: group_member_Some)
  ultimately show ?thesis using moved [OF pin(1) c(1,2)] c(6) pin(2) by simp
qed (rule unchanged)

lemma setpgid_inv:
  assumes "job_inv ts" "gl \<in> set ts" "is_leader gl"
  shows "job_inv (snd (setpgid security gl pid pgid ts))"
proof (rule setpgid_cases [OF assms(2,3,1), of security pid pgid])
  fix p g
  assume p: "p \<in> set ts" "is_leader p" "\<not> sess_leader p" "session p = session gl"
    and g: "g = tid p \<or> (\<exists>m \<in> set ts. is_leader m \<and> pgrp m = g \<and> session m = session gl)"
    and r: "setpgid security gl pid pgid ts = (0, update_task (tid p) (\<lambda>t. t\<lparr>pgrp := g\<rparr>) ts)"
  have comp: "compatible q r" if "q \<in> set ts" "r \<in> set ts" "is_leader q" "is_leader r" for q r
    using that assms(1) by (simp add: job_inv_def)
  have pos: "leader_ok (p\<lparr>pgrp := g\<rparr>)" using assms(1) p by (auto simp: job_inv_def leader_ok_def)
  have self: "compatible (p\<lparr>pgrp := g\<rparr>) (p\<lparr>pgrp := g\<rparr>)"
    using comp [OF p(1,1,2,2)] by (simp add: compatible_def)
  have other: "compatible (p\<lparr>pgrp := g\<rparr>) q \<and> compatible q (p\<lparr>pgrp := g\<rparr>)"
    if q: "q \<in> set ts" "is_leader q" "tid q \<noteq> tid p" for q
  proof -
    note pq = comp [OF p(1) q(1) p(2) q(2)] comp [OF q(1) p(1) q(2) p(2)]
    show ?thesis
    proof (cases "g = tid p")
      case True
      then show ?thesis using pq q(3) by (auto simp: compatible_def)
    next
      case False
      then obtain m where m: "m \<in> set ts" "is_leader m" "pgrp m = g" "session m = session p" using g p(4) by auto
      note qm = comp [OF q(1) m(1) q(2) m(2)] comp [OF m(1) q(1) m(2) q(2)]
      show ?thesis using pq qm m(3,4) by (auto simp: compatible_def)
    qed
  qed
  have "job_inv (update_task (tid p) (\<lambda>t. t\<lparr>pgrp := g\<rparr>) ts)"
    by (rule job_inv_update [OF assms(1) p(1,2)]) (use pos self other in simp_all)
  then show ?thesis using r by simp
qed (simp add: assms(1))

lemma setsid_inv:
  assumes "job_inv ts" "gl \<in> set ts" "is_leader gl"
  shows "job_inv (snd (setsid gl ts))"
proof (cases "sess_leader gl \<or> group_member ts (tid gl) \<noteq> None")
  case False
  let ?f = "\<lambda>t. (set_special_pids (tid gl) (t\<lparr>sess_leader := True\<rparr>))\<lparr>has_tty := False\<rparr>"
  have f: "tid (?f t) = tid t" "tgid (?f t) = tgid t" "pgrp (?f t) = tid gl" "session (?f t) = tid gl" "sess_leader (?f t)" for t
    by (simp_all add: set_special_pids_def Let_def)
  have none: "pgrp q \<noteq> tid gl" if "q \<in> set ts" "is_leader q" for q using False that group_member_None by blast
  have "0 < tid gl" using assms by (auto simp: job_inv_def leader_ok_def)
  then have "leader_ok (?f gl)" "compatible (?f gl) (?f gl)" using f by (auto simp: leader_ok_def compatible_def)
  moreover have "compatible (?f gl) q \<and> compatible q (?f gl)" if "q \<in> set ts" "is_leader q" "tid q \<noteq> tid gl" for q
    using none [OF that(1,2)] that(3) by (auto simp: compatible_def f)
  ultimately have "job_inv (update_task (tid gl) ?f ts)"
    using job_inv_update [OF assms, of ?f] f(1,2) by blast
  then show ?thesis using False by (simp add: setsid_def)
qed (auto simp: setsid_def assms(1))

lemma fork_inv:
  assumes "job_inv ts" "gl \<in> set ts" "is_leader gl" "0 < n"
    and "\<forall>t \<in> set ts. tid t \<noteq> n \<and> tgid t \<noteq> n \<and> pgrp t \<noteq> n \<and> session t \<noteq> n"
  shows "job_inv (forked n p gl # ts)"
proof -
  have comp: "compatible q r" if "q \<in> set ts" "r \<in> set ts" "is_leader q" "is_leader r" for q r
    using that assms(1) by (simp add: job_inv_def)
  have "compatible (forked n p gl) q \<and> compatible q (forked n p gl)" if "q \<in> set ts" "is_leader q" for q
  proof -
    have n: "tid q \<noteq> n" "pgrp q \<noteq> n" "session q \<noteq> n" "pgrp gl \<noteq> n" "session gl \<noteq> n" using assms(2,5) that(1) by simp_all
    have f: "tid (forked n p gl) = n" "pgrp (forked n p gl) = pgrp gl" "session (forked n p gl) = session gl" by (simp_all add: forked_def)
    show ?thesis
      using comp [OF assms(2) that(1) assms(3) that(2)] comp [OF that(1) assms(2) that(2) assms(3)] n
      unfolding compatible_def f by simp
  qed
  moreover have "compatible (forked n p gl) (forked n p gl)" "leader_ok (forked n p gl)"
    using assms(2,4,5) by (auto simp: compatible_def leader_ok_def forked_def)
  moreover have "tid (forked n p gl) \<notin> tid ` set ts" using assms(5) by (auto simp: forked_def)
  ultimately show ?thesis using assms(1) by (auto simp: job_inv_def)
qed

lemma job_inv_map:
  assumes f: "\<And>t. tid (f t) = tid t" "\<And>t. tgid (f t) = tgid t" "\<And>t. pgrp (f t) = pgrp t" "\<And>t. session (f t) = session t"
    "\<And>t. sess_leader (f t) = sess_leader t"
  shows "job_inv ts \<Longrightarrow> job_inv (map f ts)"
proof -
  have "is_leader (f t) = is_leader t" "leader_ok (f t) = leader_ok t" "compatible (f t) (f u) = compatible t u" for t u
    by (simp_all add: is_leader_def leader_ok_def compatible_def f)
  moreover have "tid \<circ> f = tid" by (simp add: fun_eq_iff f)
  ultimately show "job_inv ts \<Longrightarrow> job_inv (map f ts)" by (simp add: job_inv_def)
qed

lemma job_control_inv: "job_control ts ts' \<Longrightarrow> job_inv ts \<Longrightarrow> job_inv ts'"
proof (induction rule: job_control.induct)
  case (Exec ts n)
  then show ?case unfolding update_task_def by (intro job_inv_map) simp_all
next
  case (Exit ts n)
  then show ?case by (auto simp: job_inv_def distinct_map_filter)
qed (simp_all add: setpgid_inv setsid_inv fork_inv)

lemma job_reachable_inv: "job_reachable ts \<Longrightarrow> job_inv ts"
proof (induction rule: job_reachable.induct)
  case Boot
  show ?case by (simp add: job_inv_def first_task_def leader_ok_def compatible_def)
qed (rule job_control_inv)

text \<open>C9: in every state the system can reach, a process group lies within one session, a session leader leads its own
  group, and no process belongs to the group or session named after another process of a different session.\<close>

theorem groups_within_sessions:
  assumes "job_reachable ts" "p \<in> set ts" "q \<in> set ts" "is_leader p" "is_leader q"
  shows "(pgrp p = pgrp q \<longrightarrow> session p = session q) \<and>
    (pgrp q = tid p \<longrightarrow> session q = session p) \<and>
    (session q = tid p \<longrightarrow> sess_leader p) \<and>
    (sess_leader p \<longrightarrow> session p = tid p \<and> pgrp p = tid p)"
proof -
  have "compatible p q" "leader_ok p" using job_reachable_inv [OF assms(1)] assms(2-) by (simp_all add: job_inv_def)
  then show ?thesis unfolding compatible_def leader_ok_def by blast
qed

definition shell_task :: tcb where
  "shell_task = first_task\<lparr>sess_leader := True, session := 1, pgrp := 1\<rparr>"

lemma example_reachable_tasks: "job_reachable [forked 2 shell_task shell_task, shell_task]"
proof -
  have s: "setsid first_task [first_task] = (1, [shell_task])"
    by (simp add: setsid_def first_task_def shell_task_def group_member_def is_leader_def update_task_def set_special_pids_def)
  have "job_control [first_task] (snd (setsid first_task [first_task]))"
    by (rule Setsid) (simp_all add: first_task_def is_leader_def)
  then have "job_reachable [shell_task]" using job_reachable.Step [OF Boot] by (simp add: s)
  moreover have "job_control [shell_task] (forked 2 shell_task shell_task # [shell_task])"
    by (rule Fork) (simp_all add: shell_task_def first_task_def is_leader_def)
  ultimately show ?thesis by (rule job_reachable.Step)
qed

theorem groups_within_sessions_witness:
  "pgrp (forked 2 shell_task shell_task) = pgrp shell_task \<and> session (forked 2 shell_task shell_task) = session shell_task"
  using groups_within_sessions [OF example_reachable_tasks, of shell_task "forked 2 shell_task shell_task"]
  by (simp add: forked_def is_leader_def shell_task_def first_task_def)

text \<open>C30: a successful \<^verbatim>\<open>setsid\<close> makes the caller the leader of a new session and a new group of which it is the only
  member; it fails exactly for a session leader and for a process whose number names an existing group.\<close>

theorem setsid_new_session:
  assumes "job_reachable ts" "gl \<in> set ts" "is_leader gl"
  shows "if sess_leader gl \<or> (\<exists>t \<in> set ts. is_leader t \<and> pgrp t = tid gl) then setsid gl ts = (- EPERM, ts)
    else fst (setsid gl ts) = tid gl \<and>
      (\<forall>t \<in> set (snd (setsid gl ts)). is_leader t \<longrightarrow> (session t = tid gl \<longleftrightarrow> tid t = tid gl) \<and> (pgrp t = tid gl \<longleftrightarrow> tid t = tid gl)) \<and>
      map tid (snd (setsid gl ts)) = map tid ts"
proof -
  have member: "group_member ts (tid gl) \<noteq> None \<longleftrightarrow> (\<exists>t \<in> set ts. is_leader t \<and> pgrp t = tid gl)"
    by (auto simp: group_member_def find_None_iff)
  let ?f = "\<lambda>t. (set_special_pids (tid gl) (t\<lparr>sess_leader := True\<rparr>))\<lparr>has_tty := False\<rparr>"
  have f: "tid (?f t) = tid t" "tgid (?f t) = tgid t" "pgrp (?f t) = tid gl" "session (?f t) = tid gl" for t
    by (simp_all add: set_special_pids_def Let_def)
  note inv = job_reachable_inv [OF assms(1)]
  show ?thesis
  proof (cases "sess_leader gl \<or> (\<exists>t \<in> set ts. is_leader t \<and> pgrp t = tid gl)")
    case True
    then show ?thesis using member by (auto simp: setsid_def)
  next
    case False
    then have r: "setsid gl ts = (tid gl, update_task (tid gl) ?f ts)" using member by (auto simp: setsid_def)
    have old: "session t \<noteq> tid gl" if "t \<in> set ts" "is_leader t" for t
    proof -
      have "compatible gl t" using inv that assms(2,3) by (simp add: job_inv_def)
      then show ?thesis using False unfolding compatible_def by blast
    qed
    have "(session t = tid gl \<longleftrightarrow> tid t = tid gl) \<and> (pgrp t = tid gl \<longleftrightarrow> tid t = tid gl)"
      if t: "t \<in> set (update_task (tid gl) ?f ts)" "is_leader t" for t
    proof -
      obtain u where u: "u \<in> set ts" "t = (if tid u = tid gl then ?f u else u)" using t(1) unfolding set_update_task by blast
      show ?thesis
      proof (cases "tid u = tid gl")
        case True
        then show ?thesis using u(2) f by simp
      next
        case ne: False
        then have "t = u" using u(2) by simp
        then show ?thesis using ne False old [OF u(1)] t(2) u(1) by auto
      qed
    qed
    moreover have "map tid (update_task (tid gl) ?f ts) = map tid ts" by (rule tid_update_task) (rule f(1))
    ultimately show ?thesis unfolding if_not_P [OF False] r by simp
  qed
qed

theorem setsid_new_session_witness:
  "fst (setsid (forked 2 shell_task shell_task) [forked 2 shell_task shell_task, shell_task]) = 2"
  using setsid_new_session [OF example_reachable_tasks, of "forked 2 shell_task shell_task"]
  by (simp add: forked_def is_leader_def shell_task_def first_task_def)

end
