(* ===== verification/Rlimits.thy ===== *)
theory Rlimits
  imports Creds
begin

text \<open>
  Resource limits (src/project-0/sys.c): \<^verbatim>\<open>getrlimit\<close>, \<^verbatim>\<open>old_getrlimit\<close>, \<^verbatim>\<open>setrlimit\<close>, \<^verbatim>\<open>prlimit64\<close> and what they share.
  The machine is the 32-bit one of the projects: a limit is 32 bits wide, and \<^verbatim>\<open>prlimit64\<close> exchanges 64 bits with the
  caller. The processes are a map from numbers; the constants of the kernel's headers, \<^verbatim>\<open>capable\<close> and the security
  module are parameters (\<open>limit_env\<close>).
\<close>

section \<open>State\<close>

record rlimit =
  rlim_cur :: "32 word"
  rlim_max :: "32 word"

record rlimit64 =
  cur64 :: "64 word"
  max64 :: "64 word"

record rproc =
  rlims :: "rlimit list"
  has_sighand :: bool
  pcred :: cred
  cpu_expiry :: "32 word option"

type_synonym rprocs = "int \<Rightarrow> rproc option"

record limit_env =
  nr_open :: "32 word"
  sys_resource :: bool
  ns_resource :: "cred \<Rightarrow> bool"
  may_setrlimit :: "rproc \<Rightarrow> nat \<Rightarrow> rlimit \<Rightarrow> int"

definition RLIM_NLIMITS :: nat where "RLIM_NLIMITS = 16"
definition RLIMIT_CPU :: nat where "RLIMIT_CPU = 0"
definition RLIMIT_NOFILE :: nat where "RLIMIT_NOFILE = 7"

definition RLIM_INFINITY :: "32 word" where "RLIM_INFINITY = -1"
definition RLIM64_INFINITY :: "64 word" where "RLIM64_INFINITY = -1"

section \<open>Operations\<close>

definition rlim64_is_infinity :: "64 word \<Rightarrow> bool" where
  "rlim64_is_infinity v \<longleftrightarrow> v \<ge> ucast (-1 :: 32 word)"

definition rlim_to_rlim64 :: "rlimit \<Rightarrow> rlimit64" where
  "rlim_to_rlim64 r =
     \<lparr>cur64 = (if rlim_cur r = RLIM_INFINITY then RLIM64_INFINITY else ucast (rlim_cur r)),
      max64 = (if rlim_max r = RLIM_INFINITY then RLIM64_INFINITY else ucast (rlim_max r))\<rparr>"

definition rlim64_to_rlim :: "rlimit64 \<Rightarrow> rlimit" where
  "rlim64_to_rlim r =
     \<lparr>rlim_cur = (if rlim64_is_infinity (cur64 r) then RLIM_INFINITY else ucast (cur64 r)),
      rlim_max = (if rlim64_is_infinity (max64 r) then RLIM_INFINITY else ucast (max64 r))\<rparr>"

text \<open>\<^verbatim>\<open>do_prlimit\<close>: the result, the previous limit where there is one, and the process.\<close>

definition do_prlimit :: "limit_env \<Rightarrow> nat \<Rightarrow> rlimit option \<Rightarrow> rproc \<Rightarrow> int \<times> rlimit option \<times> rproc" where
  "do_prlimit k resource new tsk =
     (if resource \<ge> RLIM_NLIMITS then (- EINVAL, None, tsk)
      else if (case new of None \<Rightarrow> False | Some n \<Rightarrow> rlim_cur n > rlim_max n) then (- EINVAL, None, tsk)
      else if (case new of None \<Rightarrow> False | Some n \<Rightarrow> resource = RLIMIT_NOFILE \<and> rlim_max n > nr_open k) then (- EPERM, None, tsk)
      else if \<not> has_sighand tsk then (- ESRCH, None, tsk)
      else
        (let rlim = rlims tsk ! resource in
         case new of
           None \<Rightarrow> (0, Some rlim, tsk)
         | Some n \<Rightarrow>
             (let denied = rlim_max n > rlim_max rlim \<and> \<not> sys_resource k;
                  retval = (if denied then - EPERM else may_setrlimit k tsk resource n);
                  n' = (if resource = RLIMIT_CPU \<and> rlim_cur n = 0 then n\<lparr>rlim_cur := 1\<rparr> else n)
              in if retval \<noteq> 0 then (retval, None, tsk)
                 else (0, Some rlim,
                       (let t = tsk\<lparr>rlims := (rlims tsk)[resource := n']\<rparr> in
                        if resource = RLIMIT_CPU \<and> rlim_cur n' \<noteq> RLIM_INFINITY then t\<lparr>cpu_expiry := Some (rlim_cur n')\<rparr> else t)))))"

text \<open>The user's memory: what \<^verbatim>\<open>copy_from_user\<close> finds (\<open>None\<close>: it fails) and whether \<^verbatim>\<open>copy_to_user\<close> works.\<close>

definition getrlimit :: "limit_env \<Rightarrow> nat \<Rightarrow> bool \<Rightarrow> rproc \<Rightarrow> int \<times> rlimit option" where
  "getrlimit k resource writable cur =
     (let (ret, value, _) = do_prlimit k resource None cur in
      if ret = 0 then (if writable then (0, value) else (- EFAULT, None)) else (ret, None))"

definition old_getrlimit :: "nat \<Rightarrow> bool \<Rightarrow> rproc \<Rightarrow> int \<times> rlimit option" where
  "old_getrlimit resource writable cur =
     (if resource \<ge> RLIM_NLIMITS then (- EINVAL, None)
      else
        (let x = rlims cur ! resource;
             y = \<lparr>rlim_cur = min (rlim_cur x) 0x7FFFFFFF, rlim_max = min (rlim_max x) 0x7FFFFFFF\<rparr>
         in if writable then (0, Some y) else (- EFAULT, None)))"

definition setrlimit :: "limit_env \<Rightarrow> nat \<Rightarrow> rlimit option \<Rightarrow> rproc \<Rightarrow> int \<times> rproc" where
  "setrlimit k resource arg cur =
     (case arg of
        None \<Rightarrow> (- EFAULT, cur)
      | Some n \<Rightarrow> (let (ret, _, t) = do_prlimit k resource (Some n) cur in (ret, t)))"

definition check_prlimit_permission :: "limit_env \<Rightarrow> cred \<Rightarrow> int \<Rightarrow> int \<Rightarrow> cred \<Rightarrow> int" where
  "check_prlimit_permission k c current pid t =
     (if current = pid then 0
      else if uid c = euid t \<and> uid c = suid t \<and> uid c = uid t \<and> gid c = egid t \<and> gid c = sgid t \<and> gid c = gid t then 0
      else if ns_resource k t then 0
      else - EPERM)"

text \<open>
  \<open>new\<close> is the pointer to the new limit: \<open>None\<close> when it is null, \<open>Some None\<close> when it cannot be read; \<open>want_old\<close> and
  \<open>writable\<close> say whether the other pointer is not null and can be written.
\<close>

definition prlimit64 ::
    "limit_env \<Rightarrow> int \<Rightarrow> int \<Rightarrow> nat \<Rightarrow> rlimit64 option option \<Rightarrow> bool \<Rightarrow> bool \<Rightarrow> rprocs \<Rightarrow> int \<times> rlimit64 option \<times> rprocs" where
  "prlimit64 k current pid0 resource new want_old writable ps =
     (case new of
        Some None \<Rightarrow> (- EFAULT, None, ps)
      | _ \<Rightarrow>
        (let pid = (if pid0 = 0 then current else pid0) in
         case (ps current, ps pid) of
           (Some c, Some tsk) \<Rightarrow>
             (let perm = check_prlimit_permission k (pcred c) current pid (pcred tsk) in
              if perm \<noteq> 0 then (perm, None, ps)
              else
                (let (ret, old, tsk') = do_prlimit k resource (map_option rlim64_to_rlim (Option.bind new id)) tsk;
                     ps' = ps(pid \<mapsto> tsk')
                 in if ret = 0 \<and> want_old
                    then (if writable then (0, map_option rlim_to_rlim64 old, ps') else (- EFAULT, None, ps'))
                    else (ret, None, ps')))
         | _ \<Rightarrow> (- ESRCH, None, ps)))"

section \<open>Conversion\<close>

lemma ucast_up_down: "ucast (ucast w :: 64 word) = (w :: 32 word)"
  by (rule bit_word_eqI) (simp add: bit_ucast_iff)

lemma uint_ucast_up: "uint (ucast w :: 64 word) = uint w" for w :: "32 word"
  using uint_bounded [of w] by (simp add: unsigned_ucast_eq take_bit_eq_mod)

lemma infinity_iff: "rlim64_is_infinity (ucast w) \<longleftrightarrow> w = RLIM_INFINITY" for w :: "32 word"
proof -
  have "ucast (-1 :: 32 word) \<le> (ucast w :: 64 word) \<longleftrightarrow> (-1 :: 32 word) \<le> w"
    by (simp only: word_le_def uint_ucast_up)
  then show ?thesis by (simp only: rlim64_is_infinity_def RLIM_INFINITY_def word_order.extremum_unique)
qed

text \<open>A limit survives the way through the 64-bit interface.\<close>

lemma rlim64_roundtrip: "rlim64_to_rlim (rlim_to_rlim64 r) = r"
proof -
  have i: "rlim64_is_infinity RLIM64_INFINITY" by (simp add: rlim64_is_infinity_def RLIM64_INFINITY_def)
  show ?thesis by (simp add: rlim64_to_rlim_def rlim_to_rlim64_def i infinity_iff ucast_up_down)
qed

section \<open>Sequences of setrlimit\<close>

definition all_limits :: "rproc \<Rightarrow> bool" where
  "all_limits t \<longleftrightarrow> length (rlims t) = RLIM_NLIMITS"

definition hard :: "rproc \<Rightarrow> nat \<Rightarrow> 32 word" where
  "hard t r = rlim_max (rlims t ! r)"

definition soft :: "rproc \<Rightarrow> nat \<Rightarrow> 32 word" where
  "soft t r = rlim_cur (rlims t ! r)"

text \<open>The soft limit is within the hard one, but a limit of no processor time is stored as one second.\<close>

definition soft_within_hard :: "rproc \<Rightarrow> bool" where
  "soft_within_hard t \<longleftrightarrow>
     (\<forall>r < RLIM_NLIMITS. soft t r \<le> hard t r \<or> r = RLIMIT_CPU \<and> soft t r = 1 \<and> hard t r = 0)"

lemma do_prlimit_set:
  obtains (refused) e where "e \<noteq> 0" "do_prlimit k r (Some n) t = (e, None, t)"
  | (stored) n' x where "r < RLIM_NLIMITS" "rlim_cur n \<le> rlim_max n" "rlim_max n \<le> rlim_max (rlims t ! r) \<or> sys_resource k"
      "n' = (if r = RLIMIT_CPU \<and> rlim_cur n = 0 then n\<lparr>rlim_cur := 1\<rparr> else n)"
      "do_prlimit k r (Some n) t = (0, Some (rlims t ! r), t\<lparr>rlims := (rlims t)[r := n'], cpu_expiry := x\<rparr>)"
proof -
  let ?denied = "rlim_max n > rlim_max (rlims t ! r) \<and> \<not> sys_resource k"
  let ?n = "if r = RLIMIT_CPU \<and> rlim_cur n = 0 then n\<lparr>rlim_cur := 1\<rparr> else n"
  show ?thesis
  proof (cases "r \<ge> RLIM_NLIMITS \<or> rlim_cur n > rlim_max n \<or> r = RLIMIT_NOFILE \<and> rlim_max n > nr_open k \<or>
      \<not> has_sighand t \<or> ?denied \<or> may_setrlimit k t r n \<noteq> 0")
    case True
    then have "\<exists>e. e \<noteq> 0 \<and> do_prlimit k r (Some n) t = (e, None, t)"
      by (auto simp: do_prlimit_def Let_def errno_defs)
    then show ?thesis using refused by blast
  next
    case False
    then have "do_prlimit k r (Some n) t = (0, Some (rlims t ! r), t\<lparr>rlims := (rlims t)[r := ?n],
        cpu_expiry := if r = RLIMIT_CPU \<and> rlim_cur ?n \<noteq> RLIM_INFINITY then Some (rlim_cur ?n) else cpu_expiry t\<rparr>)"
      by (auto simp: do_prlimit_def Let_def)
    moreover have "r < RLIM_NLIMITS" "rlim_cur n \<le> rlim_max n" "rlim_max n \<le> rlim_max (rlims t ! r) \<or> sys_resource k"
      using False by (auto simp: not_less not_le)
    ultimately show ?thesis using stored [OF _ _ _ refl] by blast
  qed
qed

definition without_resource :: "limit_env \<Rightarrow> limit_env" where
  "without_resource k = k\<lparr>sys_resource := False\<rparr>"

definition set_step :: "limit_env \<Rightarrow> nat \<times> rlimit option \<Rightarrow> rproc \<Rightarrow> rproc" where
  "set_step k c t = snd (setrlimit (without_resource k) (fst c) (snd c) t)"

lemma set_step_cases:
  obtains (same) "set_step k c t = t"
  | (stored) n n' x where "fst c < RLIM_NLIMITS" "rlim_cur n \<le> rlim_max n" "rlim_max n \<le> hard t (fst c)"
      "n' = (if fst c = RLIMIT_CPU \<and> rlim_cur n = 0 then n\<lparr>rlim_cur := 1\<rparr> else n)"
      "set_step k c t = t\<lparr>rlims := (rlims t)[fst c := n'], cpu_expiry := x\<rparr>"
proof (cases "snd c")
  case None
  then show ?thesis using same by (simp add: set_step_def setrlimit_def)
next
  case (Some n)
  then have e: "set_step k c t = snd (snd (do_prlimit (without_resource k) (fst c) (Some n) t))"
    by (simp add: set_step_def setrlimit_def split: prod.split)
  show ?thesis
  proof (rule do_prlimit_set [of "without_resource k" "fst c" n t])
    fix n' x
    assume "fst c < RLIM_NLIMITS" "rlim_cur n \<le> rlim_max n"
      "rlim_max n \<le> rlim_max (rlims t ! fst c) \<or> sys_resource (without_resource k)"
      "n' = (if fst c = RLIMIT_CPU \<and> rlim_cur n = 0 then n\<lparr>rlim_cur := 1\<rparr> else n)"
      "do_prlimit (without_resource k) (fst c) (Some n) t =
         (0, Some (rlims t ! fst c), t\<lparr>rlims := (rlims t)[fst c := n'], cpu_expiry := x\<rparr>)"
    then show ?thesis using stored [of n n' x] e by (simp add: hard_def without_resource_def)
  qed (use same e in simp)
qed

text \<open>The values the hard limits allow, as what a process can only lose.\<close>

definition allowed :: "rproc \<Rightarrow> (nat \<times> 32 word) set" where
  "allowed t = {(r, v). r < length (rlims t) \<and> v \<le> hard t r}"

lemma set_step_allowed: "allowed (set_step k c t) \<subseteq> allowed t"
proof (rule set_step_cases [of k c t])
  fix n n' x
  assume a: "rlim_max n \<le> hard t (fst c)" "n' = (if fst c = RLIMIT_CPU \<and> rlim_cur n = 0 then n\<lparr>rlim_cur := 1\<rparr> else n)"
    "set_step k c t = t\<lparr>rlims := (rlims t)[fst c := n'], cpu_expiry := x\<rparr>"
  have "rlim_max n' \<le> hard t (fst c)" using a(1,2) by auto
  then have "hard (set_step k c t) r \<le> hard t r" if "r < length (rlims t)" for r
    using a(3) that by (cases "r = fst c") (simp_all add: hard_def)
  then show ?thesis using a(3) by (auto simp: allowed_def intro: order_trans)
qed simp

interpretation hard_limits: confining_calls "set_step k" allowed for k
  by unfold_locales (rule set_step_allowed)

lemma set_step_soft:
  assumes "all_limits t" "soft_within_hard t"
  shows "all_limits (set_step k c t) \<and> soft_within_hard (set_step k c t)"
proof (rule set_step_cases [of k c t])
  fix n n' x
  assume a: "fst c < RLIM_NLIMITS" "rlim_cur n \<le> rlim_max n"
    "n' = (if fst c = RLIMIT_CPU \<and> rlim_cur n = 0 then n\<lparr>rlim_cur := 1\<rparr> else n)"
    "set_step k c t = t\<lparr>rlims := (rlims t)[fst c := n'], cpu_expiry := x\<rparr>"
  have one: "1 \<le> rlim_max n \<or> rlim_max n = 0" by (metis word_gt_0 word_less_1 not_le)
  have "rlim_cur n' \<le> rlim_max n' \<or> fst c = RLIMIT_CPU \<and> rlim_cur n' = 1 \<and> rlim_max n' = 0"
    using a(2,3) one by auto
  moreover have len: "length (rlims t) = RLIM_NLIMITS" using assms(1) by (simp add: all_limits_def)
  ultimately have "soft (set_step k c t) r \<le> hard (set_step k c t) r \<or>
      r = RLIMIT_CPU \<and> soft (set_step k c t) r = 1 \<and> hard (set_step k c t) r = 0" if "r < RLIM_NLIMITS" for r
    using that assms(2) a(4) by (cases "r = fst c") (auto simp: soft_within_hard_def soft_def hard_def)
  then show ?thesis using len a(4) by (simp add: soft_within_hard_def all_limits_def)
qed (use assms in simp)

interpretation soft_limits: kept_by_calls "set_step k" "\<lambda>t. all_limits t \<and> soft_within_hard t" for k
  by unfold_locales (rule set_step_soft; simp)

text \<open>C31: without the capability no sequence of \<^verbatim>\<open>setrlimit\<close> calls raises a hard limit, and every soft limit stays within its
  hard limit, with one exception: asking for no processor time at all stores a soft limit of one second above a
  hard limit of none.\<close>

theorem limits_invariant:
  assumes "all_limits t" "soft_within_hard t" "r < RLIM_NLIMITS"
  shows "hard (fold (set_step k) cs t) r \<le> hard t r \<and> soft_within_hard (fold (set_step k) cs t) \<and>
    (r \<noteq> RLIMIT_CPU \<longrightarrow> soft (fold (set_step k) cs t) r \<le> hard (fold (set_step k) cs t) r)"
proof -
  have "all_limits (fold (set_step k) cs t) \<and> soft_within_hard (fold (set_step k) cs t)"
    using assms(1,2) by (intro soft_limits.sequence_keeps conjI)
  moreover from this have "(r, hard (fold (set_step k) cs t) r) \<in> allowed (fold (set_step k) cs t)"
    using assms(3) by (simp add: allowed_def all_limits_def)
  then have "(r, hard (fold (set_step k) cs t) r) \<in> allowed t" using hard_limits.sequence_confined by blast
  ultimately show ?thesis using assms(3) unfolding soft_within_hard_def allowed_def by auto
qed

definition example_limits :: rproc where
  "example_limits = \<lparr>rlims = replicate RLIM_NLIMITS \<lparr>rlim_cur = 10, rlim_max = 20\<rparr>, has_sighand = True,
     pcred = cred (example_task 1000), cpu_expiry = None\<rparr>"

definition example_limit_env :: limit_env where
  "example_limit_env = \<lparr>nr_open = 1024, sys_resource = False, ns_resource = (\<lambda>_. False), may_setrlimit = (\<lambda>_ _ _. 0)\<rparr>"

theorem limits_invariant_witness:
  "soft (fold (set_step example_limit_env) [(0, Some \<lparr>rlim_cur = 0, rlim_max = 0\<rparr>), (3, Some \<lparr>rlim_cur = 5, rlim_max = 99\<rparr>)] example_limits) 0 = 1 \<and>
   hard (fold (set_step example_limit_env) [(0, Some \<lparr>rlim_cur = 0, rlim_max = 0\<rparr>), (3, Some \<lparr>rlim_cur = 5, rlim_max = 99\<rparr>)] example_limits) 3 \<le> 20"
proof -
  have w: "all_limits example_limits" "soft_within_hard example_limits" "3 < RLIM_NLIMITS"
    by (simp_all add: all_limits_def soft_within_hard_def soft_def hard_def example_limits_def RLIM_NLIMITS_def)
  have h: "hard example_limits 3 = 20" by (simp add: hard_def example_limits_def RLIM_NLIMITS_def)
  have "soft (fold (set_step example_limit_env) [(0, Some \<lparr>rlim_cur = 0, rlim_max = 0\<rparr>), (3, Some \<lparr>rlim_cur = 5, rlim_max = 99\<rparr>)] example_limits) 0 = 1"
    by (simp add: set_step_def setrlimit_def do_prlimit_def soft_def without_resource_def example_limit_env_def example_limits_def
        RLIM_NLIMITS_def RLIMIT_CPU_def RLIMIT_NOFILE_def EPERM_def Let_def)
  then show ?thesis
    using limits_invariant [OF w, of example_limit_env "[(0, Some \<lparr>rlim_cur = 0, rlim_max = 0\<rparr>), (3, Some \<lparr>rlim_cur = 5, rlim_max = 99\<rparr>)]"]
    unfolding h by blast
qed

end
