(* ===== verification/Priority.thy ===== *)
theory Priority
  imports Prelude
begin

text \<open>
  Scheduling priorities (src/project-0/sys.c): \<^verbatim>\<open>set_one_prio_perm\<close>, \<^verbatim>\<open>set_one_prio\<close>, \<^verbatim>\<open>setpriority\<close> and \<^verbatim>\<open>getpriority\<close>. The tasks
  are a list in the order the kernel's loops visit them. Capabilities, \<^verbatim>\<open>can_nice\<close>, the security module and the
  table of users are parameters (\<open>prio_env\<close>).
\<close>

record ptask =
  ptid :: int
  pvnr :: int
  ppgrp :: int
  puid :: "32 word"
  peuid :: "32 word"
  nice :: int

record prio_env =
  current_task :: ptask
  make_uid :: "int \<Rightarrow> 32 word"
  user_exists :: "32 word \<Rightarrow> bool"
  nice_capable :: "ptask \<Rightarrow> bool"
  can_nice :: "ptask \<Rightarrow> int \<Rightarrow> bool"
  setnice_hook :: "ptask \<Rightarrow> int \<Rightarrow> int"

definition PRIO_PROCESS :: int where "PRIO_PROCESS = 0"
definition PRIO_PGRP :: int where "PRIO_PGRP = 1"
definition PRIO_USER :: int where "PRIO_USER = 2"
definition MIN_NICE :: int where "MIN_NICE = - 20"
definition MAX_NICE :: int where "MAX_NICE = 19"

definition set_one_prio_perm :: "prio_env \<Rightarrow> ptask \<Rightarrow> bool" where
  "set_one_prio_perm k p \<longleftrightarrow>
     puid p = peuid (current_task k) \<or> peuid p = peuid (current_task k) \<or> nice_capable k p"

definition set_one_prio :: "prio_env \<Rightarrow> ptask \<Rightarrow> int \<Rightarrow> int \<Rightarrow> int \<times> ptask" where
  "set_one_prio k p niceval error =
     (if \<not> set_one_prio_perm k p then (- EPERM, p)
      else if niceval < nice p \<and> \<not> can_nice k p niceval then (- EACCES, p)
      else
        (let no_nice = setnice_hook k p niceval in
         if no_nice \<noteq> 0 then (no_nice, p)
         else (if error = - ESRCH then 0 else error, p\<lparr>nice := niceval\<rparr>)))"

text \<open>The tasks a call is about (\<open>pvnr\<close> is the number the caller's namespace gives a task, 0 outside it); \<open>None\<close>: there is no
  such user.\<close>

definition selected :: "prio_env \<Rightarrow> int \<Rightarrow> int \<Rightarrow> (ptask \<Rightarrow> bool) option" where
  "selected k which who =
     (if which = PRIO_PROCESS then
        Some (if who \<noteq> 0 then (\<lambda>p. pvnr p = who) else (\<lambda>p. ptid p = ptid (current_task k)))
      else if which = PRIO_PGRP then
        (let pgrp = (if who \<noteq> 0 then who else ppgrp (current_task k)) in Some (\<lambda>p. ppgrp p = pgrp))
      else
        (let uid = (if who = 0 then puid (current_task k) else make_uid k who) in
         if who \<noteq> 0 \<and> uid \<noteq> puid (current_task k) \<and> \<not> user_exists k uid then None
         else Some (\<lambda>p. puid p = uid \<and> pvnr p \<noteq> 0)))"

fun set_prios :: "prio_env \<Rightarrow> (ptask \<Rightarrow> bool) \<Rightarrow> int \<Rightarrow> int \<Rightarrow> ptask list \<Rightarrow> int \<times> ptask list" where
  "set_prios k sel niceval error [] = (error, [])"
| "set_prios k sel niceval error (p # ps) =
     (if sel p then
        (let (e1, p') = set_one_prio k p niceval error; (e2, ps') = set_prios k sel niceval e1 ps in (e2, p' # ps'))
      else (let (e2, ps') = set_prios k sel niceval error ps in (e2, p # ps')))"

definition clamp :: "int \<Rightarrow> int" where
  "clamp niceval =
     (let n1 = (if niceval < MIN_NICE then MIN_NICE else niceval) in if n1 > MAX_NICE then MAX_NICE else n1)"

definition setpriority :: "prio_env \<Rightarrow> int \<Rightarrow> int \<Rightarrow> int \<Rightarrow> ptask list \<Rightarrow> int \<times> ptask list" where
  "setpriority k which who niceval ps =
     (if which > PRIO_USER \<or> which < PRIO_PROCESS then (- EINVAL, ps)
      else case selected k which who of
        None \<Rightarrow> (- ESRCH, ps)
      | Some sel \<Rightarrow> set_prios k sel (clamp niceval) (- ESRCH) ps)"

definition nice_to_rlimit :: "int \<Rightarrow> int" where
  "nice_to_rlimit n = MAX_NICE - n + 1"

fun best_prio :: "(ptask \<Rightarrow> bool) \<Rightarrow> int \<Rightarrow> ptask list \<Rightarrow> int" where
  "best_prio sel retval [] = retval"
| "best_prio sel retval (p # ps) =
     best_prio sel (if sel p \<and> nice_to_rlimit (nice p) > retval then nice_to_rlimit (nice p) else retval) ps"

definition getpriority :: "prio_env \<Rightarrow> int \<Rightarrow> int \<Rightarrow> ptask list \<Rightarrow> int" where
  "getpriority k which who ps =
     (if which > PRIO_USER \<or> which < PRIO_PROCESS then - EINVAL
      else case selected k which who of
        None \<Rightarrow> - ESRCH
      | Some sel \<Rightarrow> best_prio sel (- ESRCH) ps)"

section \<open>Setting\<close>

definition may_set :: "prio_env \<Rightarrow> int \<Rightarrow> ptask \<Rightarrow> bool" where
  "may_set k n p \<longleftrightarrow> set_one_prio_perm k p \<and> (nice p \<le> n \<or> can_nice k p n) \<and> setnice_hook k p n = 0"

lemma set_one_prio_result:
  "set_one_prio k p n error = (if may_set k n p then (if error = - ESRCH then 0 else error, p\<lparr>nice := n\<rparr>)
     else (fst (set_one_prio k p n error), p))"
  by (auto simp: set_one_prio_def may_set_def Let_def)

lemma set_one_prio_error:
  "\<not> may_set k n p \<Longrightarrow> setnice_hook k p n \<noteq> - ESRCH \<Longrightarrow> fst (set_one_prio k p n error) \<notin> {0, - ESRCH}"
  by (auto simp: set_one_prio_def may_set_def Let_def errno_defs)

lemma set_prios_tasks:
  "snd (set_prios k sel n error ps) = map (\<lambda>p. if sel p \<and> may_set k n p then p\<lparr>nice := n\<rparr> else p) ps"
proof (induction ps arbitrary: error)
  case (Cons p ps)
  show ?case using Cons.IH by (subst set_prios.simps, subst set_one_prio_result) (auto split: prod.split simp: prod_eq_iff)
qed simp

lemma set_prios_error:
  assumes "\<And>p. setnice_hook k p n \<noteq> - ESRCH"
  shows "fst (set_prios k sel n error ps) = 0 \<longleftrightarrow>
    (\<forall>p \<in> set ps. sel p \<longrightarrow> may_set k n p) \<and> (error = 0 \<or> error = - ESRCH \<and> (\<exists>p \<in> set ps. sel p))"
proof (induction ps arbitrary: error)
  case Nil
  then show ?case by (simp add: ESRCH_def)
next
  case (Cons p ps)
  have "fst (set_prios k sel n error (p # ps)) =
      fst (set_prios k sel n (if sel p then fst (set_one_prio k p n error) else error) ps)"
    by (simp split: prod.split)
  moreover have "fst (set_one_prio k p n error) \<notin> {0, - ESRCH}" if "\<not> may_set k n p"
    using set_one_prio_error [OF that assms] .
  moreover have "fst (set_one_prio k p n error) = (if error = - ESRCH then 0 else error)" if "may_set k n p"
    using that set_one_prio_result [of k p n error] by simp
  ultimately show ?case using Cons.IH by (cases "sel p"; cases "may_set k n p") (auto simp: ESRCH_def)
qed

lemma best_prio_all:
  "(\<forall>p \<in> set ps. sel p \<longrightarrow> nice p = n) \<Longrightarrow>
   best_prio sel r ps = (if (\<exists>p \<in> set ps. sel p) then max r (nice_to_rlimit n) else r)"
  by (induction ps arbitrary: r) auto

lemma selected_nice: "selected k which who = Some sel \<Longrightarrow> sel (p\<lparr>nice := n\<rparr>) = sel p"
  by (auto simp: selected_def Let_def split: if_splits)

lemma clamp_bounds: "MIN_NICE \<le> clamp n" "clamp n \<le> MAX_NICE"
  by (simp_all add: clamp_def MIN_NICE_def MAX_NICE_def Let_def)

text \<open>C32: \<^verbatim>\<open>setpriority\<close> reports success exactly when there is a task to set and every one of them may be set; then all of
  them, and no others, have the value given, cut to the range from -20 to 19, and \<^verbatim>\<open>getpriority\<close> for the same tasks returns
  20 minus that value, a number from 1 to 40.\<close>

theorem priority_roundtrip:
  assumes "PRIO_PROCESS \<le> which" "which \<le> PRIO_USER" "selected k which who = Some sel"
    and "\<And>p n. setnice_hook k p n \<noteq> - ESRCH"
  shows "(fst (setpriority k which who n ps) = 0 \<longleftrightarrow>
      (\<exists>p \<in> set ps. sel p) \<and> (\<forall>p \<in> set ps. sel p \<longrightarrow> may_set k (clamp n) p)) \<and>
    (fst (setpriority k which who n ps) = 0 \<longrightarrow>
      snd (setpriority k which who n ps) = map (\<lambda>p. if sel p then p\<lparr>nice := clamp n\<rparr> else p) ps \<and>
      getpriority k which who (snd (setpriority k which who n ps)) = 20 - clamp n \<and>
      1 \<le> 20 - clamp n \<and> 20 - clamp n \<le> 40)"
proof -
  let ?n = "clamp n"
  have s: "setpriority k which who n ps = set_prios k sel ?n (- ESRCH) ps"
    using assms(1-3) by (simp add: setpriority_def)
  have e: "fst (setpriority k which who n ps) = 0 \<longleftrightarrow> (\<exists>p \<in> set ps. sel p) \<and> (\<forall>p \<in> set ps. sel p \<longrightarrow> may_set k ?n p)"
    unfolding s set_prios_error [OF assms(4)] by (auto simp: ESRCH_def)
  moreover have "snd (setpriority k which who n ps) = map (\<lambda>p. if sel p then p\<lparr>nice := ?n\<rparr> else p) ps"
    "getpriority k which who (snd (setpriority k which who n ps)) = 20 - ?n"
    if ok: "fst (setpriority k which who n ps) = 0"
  proof -
    let ?ps = "map (\<lambda>p. if sel p then p\<lparr>nice := ?n\<rparr> else p) ps"
    show r: "snd (setpriority k which who n ps) = ?ps"
      unfolding s set_prios_tasks using ok e by (intro map_cong) auto
    have "\<forall>p \<in> set ?ps. sel p \<longrightarrow> nice p = ?n" "\<exists>p \<in> set ?ps. sel p"
      using ok e selected_nice [OF assms(3)] by auto
    then have "best_prio sel (- ESRCH) ?ps = max (- ESRCH) (nice_to_rlimit ?n)" by (simp only: best_prio_all if_True)
    also have "\<dots> = 20 - ?n" using clamp_bounds [of n] by (simp add: nice_to_rlimit_def MAX_NICE_def ESRCH_def)
    finally show "getpriority k which who (snd (setpriority k which who n ps)) = 20 - ?n"
      using assms(1-3) unfolding r by (simp add: getpriority_def)
  qed
  ultimately show ?thesis using clamp_bounds [of n] by (simp add: MIN_NICE_def MAX_NICE_def)
qed

definition example_ptask :: "int \<Rightarrow> ptask" where
  "example_ptask i = \<lparr>ptid = i, pvnr = i, ppgrp = 1, puid = 1000, peuid = 1000, nice = 0\<rparr>"

definition example_prio :: prio_env where
  "example_prio = \<lparr>current_task = example_ptask 1, make_uid = word_of_int, user_exists = (\<lambda>_. True), nice_capable = (\<lambda>_. False),
     can_nice = (\<lambda>_ _. False), setnice_hook = (\<lambda>_ _. 0)\<rparr>"

theorem priority_roundtrip_witness:
  "fst (setpriority example_prio PRIO_PGRP 0 99 [example_ptask 1, example_ptask 2]) = 0 \<and>
   getpriority example_prio PRIO_PGRP 0 (snd (setpriority example_prio PRIO_PGRP 0 99 [example_ptask 1, example_ptask 2])) = 1"
proof -
  have sel: "selected example_prio PRIO_PGRP 0 = Some (\<lambda>p. ppgrp p = 1)"
    by (simp add: selected_def PRIO_PGRP_def PRIO_PROCESS_def example_prio_def example_ptask_def)
  let ?ps = "[example_ptask 1, example_ptask 2]"
  have c: "clamp 99 = 19" by (simp add: clamp_def MIN_NICE_def MAX_NICE_def)
  have "setnice_hook example_prio p n \<noteq> - ESRCH" for p n by (simp add: example_prio_def ESRCH_def)
  moreover have "PRIO_PROCESS \<le> PRIO_PGRP" "PRIO_PGRP \<le> PRIO_USER" by (simp_all add: PRIO_PROCESS_def PRIO_PGRP_def PRIO_USER_def)
  ultimately have *: "(fst (setpriority example_prio PRIO_PGRP 0 99 ?ps) = 0 \<longleftrightarrow>
      (\<exists>p \<in> set ?ps. ppgrp p = 1) \<and> (\<forall>p \<in> set ?ps. ppgrp p = 1 \<longrightarrow> may_set example_prio (clamp 99) p)) \<and>
    (fst (setpriority example_prio PRIO_PGRP 0 99 ?ps) = 0 \<longrightarrow>
      getpriority example_prio PRIO_PGRP 0 (snd (setpriority example_prio PRIO_PGRP 0 99 ?ps)) = 20 - clamp 99)"
    using priority_roundtrip [OF _ _ sel, of 99 ?ps] by blast
  have "\<forall>p \<in> set ?ps. ppgrp p = 1 \<and> may_set example_prio 19 p"
    by (simp add: may_set_def set_one_prio_perm_def example_prio_def example_ptask_def)
  then have ok: "fst (setpriority example_prio PRIO_PGRP 0 99 ?ps) = 0"
    using conjunct1 [OF *] c by (metis list.set_intros(1))
  moreover have "getpriority example_prio PRIO_PGRP 0 (snd (setpriority example_prio PRIO_PGRP 0 99 ?ps)) = 20 - clamp 99"
    using conjunct2 [OF *] ok by (rule mp)
  ultimately show ?thesis unfolding c by presburger
qed

end
