(* ===== verification/Usage.thy ===== *)
theory Usage
  imports Creds Sessions
begin

text \<open>
  What a process asks the kernel about itself (src/project-0/sys.c): its numbers (\<^verbatim>\<open>getpid\<close> to \<^verbatim>\<open>getegid\<close>), its times
  (\<^verbatim>\<open>times\<close>), its use of resources (\<^verbatim>\<open>getrusage\<close>), the processor it runs on (\<^verbatim>\<open>getcpu\<close>); and \<^verbatim>\<open>umask\<close>. The counters are of the
  width of \<^verbatim>\<open>unsigned long\<close> (\<open>'l\<close>), and their sums wrap around. The scheduler's clocks, their conversion and the memory
  of the process are parameters.
\<close>

section \<open>Numbers of the caller\<close>

definition getpid :: "tcb \<Rightarrow> int" where
  "getpid current = tgid current"

definition gettid :: "tcb \<Rightarrow> int" where
  "gettid current = tid current"

text \<open>A parent that the process cannot see has the number 0.\<close>

definition getppid :: "tasks \<Rightarrow> tcb \<Rightarrow> int" where
  "getppid ts current = (case find_task ts (real_parent current) of None \<Rightarrow> 0 | Some p \<Rightarrow> tgid p)"

definition getpgrp :: "(tcb \<Rightarrow> int) \<Rightarrow> tcb \<Rightarrow> tasks \<Rightarrow> int" where
  "getpgrp security gl ts = getpgid security gl 0 ts"

definition getuid :: "kernel_env \<Rightarrow> task \<Rightarrow> 32 word" where
  "getuid k s = from_kuid_munged k (uid (cred s))"

definition geteuid :: "kernel_env \<Rightarrow> task \<Rightarrow> 32 word" where
  "geteuid k s = from_kuid_munged k (euid (cred s))"

definition getgid :: "kernel_env \<Rightarrow> task \<Rightarrow> 32 word" where
  "getgid k s = from_kgid_munged k (gid (cred s))"

definition getegid :: "kernel_env \<Rightarrow> task \<Rightarrow> 32 word" where
  "getegid k s = from_kgid_munged k (egid (cred s))"

section \<open>Counters\<close>

record 'w counters =
  nvcsw :: 'w
  nivcsw :: 'w
  min_flt :: 'w
  maj_flt :: 'w
  inblock :: 'w
  oublock :: 'w

text \<open>
  A process: the counters of the calling thread and of the threads of its group (in the order they are visited), and what
  the group's structure holds: the counters of threads that have ended, and those of children waited for.
\<close>

record 'w usage_process =
  this_thread :: "'w counters"
  threads :: "'w counters list"
  ended :: "'w counters"
  children :: "'w counters"
  maxrss :: 'w
  cmaxrss :: 'w
  cutime :: "64 word"
  cstime :: "64 word"

text \<open>
  \<open>thread_times\<close> and \<open>group_times\<close>: the adjusted times of the calling thread and of its group; \<open>has_sighand\<close>: the lock of
  the signal handlers could be taken; \<open>hiwater\<close>: what \<^verbatim>\<open>setmax_mm_hiwater_rss\<close> does, where there is memory.
\<close>

record 'w clock_env =
  thread_times :: "64 word \<times> 64 word"
  group_times :: "64 word \<times> 64 word"
  has_sighand :: bool
  hiwater :: "('w \<Rightarrow> 'w) option"
  cputime_to_timeval :: "64 word \<Rightarrow> int \<times> int"
  cputime_to_clock_t :: "64 word \<Rightarrow> 'w"
  clock_ticks :: 'w

record 'w rusage =
  ru_utime :: "int \<times> int"
  ru_stime :: "int \<times> int"
  ru_maxrss :: 'w
  ru_counters :: "'w counters"

datatype rusage_who = RUSAGE_SELF | RUSAGE_CHILDREN | RUSAGE_BOTH | RUSAGE_THREAD | RUSAGE_OTHER

definition no_counters :: "'l::len word counters" where
  "no_counters = \<lparr>nvcsw = 0, nivcsw = 0, min_flt = 0, maj_flt = 0, inblock = 0, oublock = 0\<rparr>"

definition no_rusage :: "'l::len word rusage" where
  "no_rusage = \<lparr>ru_utime = (0, 0), ru_stime = (0, 0), ru_maxrss = 0, ru_counters = no_counters\<rparr>"

definition add_counters :: "'l::len word counters \<Rightarrow> 'l word counters \<Rightarrow> 'l word counters" where
  "add_counters r t = \<lparr>nvcsw = nvcsw r + nvcsw t, nivcsw = nivcsw r + nivcsw t, min_flt = min_flt r + min_flt t,
     maj_flt = maj_flt r + maj_flt t, inblock = inblock r + inblock t, oublock = oublock r + oublock t\<rparr>"

definition accumulate_thread_rusage :: "'l::len word counters \<Rightarrow> 'l word counters \<Rightarrow> 'l word counters" where
  "accumulate_thread_rusage t r = add_counters r t"

text \<open>The end of \<^verbatim>\<open>k_getrusage\<close>, from the label \<^verbatim>\<open>out\<close>: the times are converted and the pages become units of 1024 bytes.\<close>

definition rusage_out ::
    "'l::len word clock_env \<Rightarrow> rusage_who \<Rightarrow> 64 word \<Rightarrow> 64 word \<Rightarrow> 'l word \<Rightarrow> 'l word counters \<Rightarrow> 'l word rusage" where
  "rusage_out k who utime stime rss r =
     (let rss = (if who \<noteq> RUSAGE_CHILDREN then (case hiwater k of None \<Rightarrow> rss | Some setmax \<Rightarrow> setmax rss) else rss) in
      \<lparr>ru_utime = cputime_to_timeval k utime, ru_stime = cputime_to_timeval k stime, ru_maxrss = rss * 4, ru_counters = r\<rparr>)"

text \<open>\<open>None\<close>: the macro \<^verbatim>\<open>BUG\<close>, which stops the kernel.\<close>

definition k_getrusage :: "'l::len word clock_env \<Rightarrow> 'l word usage_process \<Rightarrow> rusage_who \<Rightarrow> 'l word rusage option" where
  "k_getrusage k p who =
     (if who = RUSAGE_THREAD then
        Some (rusage_out k who (fst (thread_times k)) (snd (thread_times k)) (maxrss p)
          (accumulate_thread_rusage (this_thread p) no_counters))
      else if \<not> has_sighand k then Some no_rusage
      else if who \<notin> {RUSAGE_BOTH, RUSAGE_CHILDREN, RUSAGE_SELF} then None
      else
        (let (utime, stime, r, rss) =
           (if who = RUSAGE_BOTH \<or> who = RUSAGE_CHILDREN then (cutime p, cstime p, children p, cmaxrss p)
            else (0, 0, no_counters, 0)) in
         if who = RUSAGE_CHILDREN then Some (rusage_out k who utime stime rss r)
         else
           (let r = add_counters r (ended p);
                rss = (if rss < maxrss p then maxrss p else rss);
                r = fold accumulate_thread_rusage (threads p) r
            in Some (rusage_out k who (utime + fst (group_times k)) (stime + snd (group_times k)) rss r))))"

definition getrusage :: "'l::len word clock_env \<Rightarrow> bool \<Rightarrow> 'l word usage_process \<Rightarrow> rusage_who \<Rightarrow> (int \<times> 'l word rusage option) option" where
  "getrusage k writable p who =
     map_option (\<lambda>r. if writable then (0, Some r) else (- EFAULT, None)) (k_getrusage k p who)"

definition sys_getrusage :: "'l::len word clock_env \<Rightarrow> bool \<Rightarrow> 'l word usage_process \<Rightarrow> rusage_who \<Rightarrow> (int \<times> 'l word rusage option) option" where
  "sys_getrusage k writable p who =
     (if who \<noteq> RUSAGE_SELF \<and> who \<noteq> RUSAGE_CHILDREN \<and> who \<noteq> RUSAGE_THREAD then Some (- EINVAL, None)
      else getrusage k writable p who)"

text \<open>The compatibility call; \<open>put\<close> is \<^verbatim>\<open>put_compat_rusage\<close>.\<close>

definition compat_getrusage :: "'l::len word clock_env \<Rightarrow> ('l word rusage \<Rightarrow> 'r) \<Rightarrow> 'r \<Rightarrow> 'l word usage_process \<Rightarrow> rusage_who \<Rightarrow> 'r option" where
  "compat_getrusage k put einval p who =
     (if who \<noteq> RUSAGE_SELF \<and> who \<noteq> RUSAGE_CHILDREN \<and> who \<noteq> RUSAGE_THREAD then Some einval
      else map_option put (k_getrusage k p who))"

section \<open>Times, mask and processor\<close>

record 'w tms =
  tms_utime :: 'w
  tms_stime :: 'w
  tms_cutime :: 'w
  tms_cstime :: 'w

definition do_sys_times :: "'l::len word clock_env \<Rightarrow> 'l word usage_process \<Rightarrow> 'l word tms" where
  "do_sys_times k p =
     \<lparr>tms_utime = cputime_to_clock_t k (fst (group_times k)), tms_stime = cputime_to_clock_t k (snd (group_times k)),
      tms_cutime = cputime_to_clock_t k (cutime p), tms_cstime = cputime_to_clock_t k (cstime p)\<rparr>"

text \<open>The result is signed: a number of clock ticks, or an error.\<close>

definition times :: "'l::len word clock_env \<Rightarrow> bool \<Rightarrow> bool \<Rightarrow> 'l word usage_process \<Rightarrow> int \<times> 'l word tms option" where
  "times k null writable p =
     (if null then (sint (clock_ticks k), None)
      else if writable then (sint (clock_ticks k), Some (do_sys_times k p))
      else (- EFAULT, None))"

definition S_IRWXUGO :: "32 word" where "S_IRWXUGO = 0x1FF"

text \<open>The old mask, and the mask the process has from then on.\<close>

definition umask :: "32 word \<Rightarrow> 32 word \<Rightarrow> 32 word \<times> 32 word" where
  "umask m current = (current, and m S_IRWXUGO)"

text \<open>For each pointer: \<open>None\<close> where it is null, whether it can be written otherwise; and what is written.\<close>

definition getcpu :: "int \<Rightarrow> (int \<Rightarrow> int) \<Rightarrow> bool option \<Rightarrow> bool option \<Rightarrow> int \<times> int option \<times> int option" where
  "getcpu cpu node cpup nodep =
     (if cpup = Some False \<or> nodep = Some False then - EFAULT else 0,
      if cpup = Some True then Some cpu else None,
      if nodep = Some True then Some (node cpu) else None)"

section \<open>Properties\<close>

definition counter_fields :: "('l::len word counters \<Rightarrow> 'l word) list" where
  "counter_fields = [nvcsw, nivcsw, min_flt, maj_flt, inblock, oublock]"

lemma add_counters_field: "f \<in> set counter_fields \<Longrightarrow> f (add_counters a b) = f a + f b"
  by (auto simp: counter_fields_def add_counters_def)

lemma no_counters_field: "f \<in> set counter_fields \<Longrightarrow> f no_counters = 0"
  by (auto simp: counter_fields_def no_counters_def)

lemma fold_threads:
  "f \<in> set counter_fields \<Longrightarrow> f (fold accumulate_thread_rusage ts r) = f r + sum_list (map f ts)"
  by (induction ts arbitrary: r) (simp_all add: accumulate_thread_rusage_def add_counters_field add.assoc)

lemmas rusage_defs = k_getrusage_def rusage_out_def Let_def

text \<open>What \<^verbatim>\<open>k_getrusage\<close> reports: for the process itself each counter is the sum over its threads, ended or not; for its
  children the counters of those waited for; for both the sum of the two, with the sum of the times and the larger of the
  two sizes; for the thread its own. A lookup for anything else stops the kernel, and the system call never asks for it.\<close>

theorem getrusage_sums:
  assumes "has_sighand k"
  shows "\<exists>self child both thread. k_getrusage k p RUSAGE_SELF = Some self \<and> k_getrusage k p RUSAGE_CHILDREN = Some child \<and>
    k_getrusage k p RUSAGE_BOTH = Some both \<and> k_getrusage k p RUSAGE_THREAD = Some thread \<and>
    (\<forall>f \<in> set counter_fields.
       f (ru_counters self) = f (ended p) + sum_list (map f (threads p)) \<and>
       f (ru_counters child) = f (children p) \<and>
       f (ru_counters both) = f (ru_counters self) + f (ru_counters child) \<and>
       f (ru_counters thread) = f (this_thread p)) \<and>
    ru_utime both = cputime_to_timeval k (cutime p + fst (group_times k)) \<and>
    (hiwater k = None \<longrightarrow> ru_maxrss both = 4 * max (maxrss p) (cmaxrss p)) \<and>
    k_getrusage k p RUSAGE_OTHER = None \<and> (\<forall>writable who. sys_getrusage k writable p who \<noteq> None)"
proof -
  have system: "sys_getrusage k writable p who \<noteq> None" for writable who
    using assms by (cases who) (simp_all add: sys_getrusage_def getrusage_def k_getrusage_def Let_def)
  have larger: "(if a < b then b else a) = max b a" for a b :: "'a word" by (auto simp: max_def)
  show ?thesis
    using assms system
    by (simp add: rusage_defs larger fold_threads add_counters_field no_counters_field accumulate_thread_rusage_def
        mult.commute add.assoc add.left_commute add.commute)
qed

definition example_process :: "32 word usage_process" where
  "example_process = \<lparr>this_thread = no_counters\<lparr>nvcsw := 3\<rparr>, threads = [no_counters\<lparr>nvcsw := 3\<rparr>, no_counters\<lparr>nvcsw := 4\<rparr>],
     ended = no_counters\<lparr>nvcsw := 10\<rparr>, children = no_counters\<lparr>nvcsw := 100\<rparr>, maxrss = 7, cmaxrss = 9, cutime = 1, cstime = 2\<rparr>"

definition example_clock :: "32 word clock_env" where
  "example_clock = \<lparr>thread_times = (1, 1), group_times = (2, 2), has_sighand = True, hiwater = None,
     cputime_to_timeval = (\<lambda>t. (uint t, 0)), cputime_to_clock_t = ucast, clock_ticks = 0\<rparr>"

theorem getrusage_sums_witness:
  "\<exists>both. k_getrusage example_clock example_process RUSAGE_BOTH = Some both \<and> nvcsw (ru_counters both) = 117 \<and> ru_maxrss both = 36"
proof -
  have h: "has_sighand example_clock" by (simp add: example_clock_def)
  have n: "nvcsw \<in> set counter_fields" by (simp add: counter_fields_def)
  have v: "nvcsw (ended example_process) + sum_list (map nvcsw (threads example_process)) + nvcsw (children example_process) = 117"
    "4 * max (maxrss example_process) (cmaxrss example_process) = 36" "hiwater example_clock = None"
    by (simp_all add: example_process_def example_clock_def max_def no_counters_def)
  show ?thesis using getrusage_sums [OF h, of example_process] n v by metis
qed

text \<open>The numbers set by \<^verbatim>\<open>setresuid\<close> are the ones the getters return.\<close>

lemma setresuid_getuid:
  assumes "fst (setresuid k r e v s) = 0" "\<And>u. id_valid (make_kuid k u) \<Longrightarrow> from_kuid_munged k (make_kuid k u) = u"
  shows "getuid k (snd (setresuid k r e v s)) = (if r \<noteq> -1 then r else getuid k s) \<and>
    geteuid k (snd (setresuid k r e v s)) = (if e \<noteq> -1 then e else geteuid k s)"
  using setresuid_getresuid [OF assms] by (simp add: getresuid_def put_three_def getuid_def geteuid_def)

lemma umask_restores:
  "fst (umask m c) = c \<and> snd (umask (fst (umask m c)) (snd (umask m c))) = and c S_IRWXUGO"
  by (simp add: umask_def)


end
