(* ===== verification/Uts.thy ===== *)
theory Uts
  imports Prelude
begin

text \<open>
  The names of the system (src/project-0/sys.c): the three versions of \<^verbatim>\<open>uname\<close> with \<^verbatim>\<open>override_release\<close>, \<^verbatim>\<open>sethostname\<close>,
  \<^verbatim>\<open>gethostname\<close> and \<^verbatim>\<open>setdomainname\<close>. A field is a char array of fixed length, the list of its characters.
  Capabilities, user memory, the personality of the caller and what the build sets (release, version number,
  name of the compatible machine) are parameters (\<open>uts_env\<close>).
\<close>

section \<open>State\<close>

definition NEW_UTS_LEN :: nat where "NEW_UTS_LEN = 64"
definition OLD_UTS_LEN :: nat where "OLD_UTS_LEN = 8"

record old_utsname =
  sysname :: string
  nodename :: string
  release :: string
  version :: string
  machine :: string

record utsname = old_utsname +
  domainname :: string

text \<open>
  \<open>struct_ok\<close>, \<open>release_ok\<close>, \<open>machine_ok\<close>: the stores into the caller's structure work; \<open>override_machine\<close>: the array
  \<^verbatim>\<open>compat_uts_machine\<close>, where the build has it.
\<close>

record uts_env =
  uts_capable :: bool
  uname26 :: bool
  per_linux32 :: bool
  uts_release :: string
  version_code :: "32 word"
  override_machine :: "string option"
  struct_ok :: bool
  release_ok :: bool
  machine_ok :: bool

definition NUL :: char where "NUL = CHR 0x00"

definition c_string :: "string \<Rightarrow> string" where
  "c_string s = takeWhile (\<lambda>c. c \<noteq> NUL) s"

section \<open>Operations\<close>

definition parse_compat_uts_machine :: "string \<Rightarrow> string" where
  "parse_compat_uts_machine arg =
     (let copied = take OLD_UTS_LEN (c_string arg) in copied @ replicate (OLD_UTS_LEN - length copied) NUL @ [NUL])"

text \<open>The loop that skips the three numbers of the release.\<close>

fun skip_numbers :: "nat \<Rightarrow> string \<Rightarrow> string" where
  "skip_numbers ndots [] = []"
| "skip_numbers ndots (c # rest) =
     (if c = CHR ''.'' \<and> ndots + 1 \<ge> 3 then c # rest
      else if \<not> is_digit c \<and> c \<noteq> CHR ''.'' then c # rest
      else skip_numbers (if c = CHR ''.'' then ndots + 1 else ndots) rest)"

definition compat_release :: "uts_env \<Rightarrow> string" where
  "compat_release k =
     ''2.6.'' @ print_nat (unat (and (drop_bit 8 (version_code k)) 0xff + 60)) @ skip_numbers 0 (uts_release k)"

text \<open>The two corrections: whether the store worked, and the structure of the caller.\<close>

definition override_release :: "uts_env \<Rightarrow> 'a old_utsname_scheme \<Rightarrow> bool \<times> 'a old_utsname_scheme" where
  "override_release k name =
     (if uname26 k then
        (let copy = min (max (length (release name)) 1) 65; written = take (copy - 1) (compat_release k) in
         if release_ok k then (True, name\<lparr>release := blit (release name) 0 (written @ [NUL])\<rparr>) else (False, name))
      else (True, name))"

definition override_architecture :: "uts_env \<Rightarrow> 'a old_utsname_scheme \<Rightarrow> bool \<times> 'a old_utsname_scheme" where
  "override_architecture k name =
     (case override_machine k of
        None \<Rightarrow> (True, name)
      | Some arch \<Rightarrow>
          if per_linux32 k then
            (if machine_ok k then (True, name\<lparr>machine := blit (machine name) 0 arch\<rparr>) else (False, name))
          else (True, name))"

text \<open>The calls answer with the caller's structure as far as it was stored (\<open>None\<close>: not at all).\<close>

definition newuname :: "uts_env \<Rightarrow> utsname \<Rightarrow> int \<times> utsname option" where
  "newuname k u =
     (if \<not> struct_ok k then (- EFAULT, None)
      else
        (let (ok, name) = override_release k u in
         if \<not> ok then (- EFAULT, Some name)
         else
           (let (ok, name) = override_architecture k name in
            if \<not> ok then (- EFAULT, Some name) else (0, Some name))))"

definition uname :: "uts_env \<Rightarrow> bool \<Rightarrow> utsname \<Rightarrow> int \<times> old_utsname option" where
  "uname k null u =
     (if null then (- EFAULT, None)
      else if \<not> struct_ok k then (- EFAULT, None)
      else
        (let (ok, name) = override_release k (old_utsname.truncate u) in
         if \<not> ok then (- EFAULT, Some name)
         else
           (let (ok, name) = override_architecture k name in
            if \<not> ok then (- EFAULT, Some name) else (0, Some name))))"

definition shortened :: "string \<Rightarrow> string" where
  "shortened s = take OLD_UTS_LEN s @ [NUL]"

definition olduname :: "uts_env \<Rightarrow> bool \<Rightarrow> utsname \<Rightarrow> int \<times> old_utsname option" where
  "olduname k null u =
     (if null then (- EFAULT, None)
      else if \<not> struct_ok k then (- EFAULT, None)
      else
        (let tmp = \<lparr>sysname = shortened (sysname u), nodename = shortened (nodename u), release = shortened (release u),
               version = shortened (version u), machine = shortened (machine u)\<rparr>;
             (ok, name) = override_architecture k tmp in
         if \<not> ok then (- EFAULT, Some name)
         else
           (let (ok, name) = override_release k name in
            if \<not> ok then (- EFAULT, Some name) else (0, Some name))))"

text \<open>\<open>user\<close> is what \<^verbatim>\<open>copy_from_user\<close> finds for a number of bytes.\<close>

definition sethostname :: "uts_env \<Rightarrow> (nat \<Rightarrow> string option) \<Rightarrow> int \<Rightarrow> utsname \<Rightarrow> int \<times> utsname" where
  "sethostname k user len u =
     (if \<not> uts_capable k then (- EPERM, u)
      else if len < 0 \<or> len > int NEW_UTS_LEN then (- EINVAL, u)
      else case user (nat len) of
        None \<Rightarrow> (- EFAULT, u)
      | Some tmp \<Rightarrow> (0, u\<lparr>nodename := tmp @ replicate (length (nodename u) - nat len) NUL\<rparr>))"

definition setdomainname :: "uts_env \<Rightarrow> (nat \<Rightarrow> string option) \<Rightarrow> int \<Rightarrow> utsname \<Rightarrow> int \<times> utsname" where
  "setdomainname k user len u =
     (if \<not> uts_capable k then (- EPERM, u)
      else if len < 0 \<or> len > int NEW_UTS_LEN then (- EINVAL, u)
      else case user (nat len) of
        None \<Rightarrow> (- EFAULT, u)
      | Some tmp \<Rightarrow> (0, u\<lparr>domainname := tmp @ replicate (length (domainname u) - nat len) NUL\<rparr>))"

text \<open>
  \<^verbatim>\<open>gethostname\<close> copies the name through an array of 65 characters: a fault where it reads or writes past an array.
  \<^verbatim>\<open>strlen\<close> of an array without a null character reads past its end.
\<close>

definition strlen :: "string \<Rightarrow> nat cres" where
  "strlen s = (if NUL \<in> set s then Inr (length (c_string s)) else Inl OutOfBounds)"

definition gethostname :: "(nat \<Rightarrow> bool) \<Rightarrow> int \<Rightarrow> utsname \<Rightarrow> (int \<times> string) cres" where
  "gethostname writable len u =
     (if len < 0 then Inr (- EINVAL, [])
      else cbind (strlen (nodename u)) (\<lambda>n.
        (let i = min (int (1 + n)) len in
         if nat i > NEW_UTS_LEN + 1 \<or> nat i > length (nodename u) then Inl OutOfBounds
         else Inr (if writable (nat i) then (0, take (nat i) (nodename u)) else (- EFAULT, [])))))"

section \<open>Well-formed names\<close>

definition field_ok :: "nat \<Rightarrow> string \<Rightarrow> bool" where
  "field_ok n s \<longleftrightarrow> length s = n + 1 \<and> s ! n = NUL"

definition uts_ok :: "utsname \<Rightarrow> bool" where
  "uts_ok u \<longleftrightarrow> field_ok 64 (sysname u) \<and> field_ok 64 (nodename u) \<and> field_ok 64 (release u) \<and> field_ok 64 (version u) \<and>
     field_ok 64 (machine u) \<and> field_ok 64 (domainname u)"

lemma field_ok_NUL: "field_ok n s \<Longrightarrow> NUL \<in> set s"
  unfolding field_ok_def by (metis less_add_one nth_mem)

lemma field_ok_length: "field_ok n s \<Longrightarrow> length (c_string s) \<le> n"
proof (rule ccontr)
  assume "field_ok n s" "\<not> length (c_string s) \<le> n"
  then have "n < length (takeWhile (\<lambda>c. c \<noteq> NUL) s)" "s ! n = NUL" by (simp_all add: c_string_def field_ok_def)
  then show False using nth_mem [of n "takeWhile (\<lambda>c. c \<noteq> NUL) s"] takeWhile_nth [of n _ s] set_takeWhileD by metis
qed

lemma set_name_field:
  "field_ok 64 s \<Longrightarrow> length tmp = n \<Longrightarrow> n \<le> 64 \<Longrightarrow> field_ok 64 (tmp @ replicate (length s - n) NUL)"
  by (simp add: field_ok_def nth_append)

lemma c_string_append: "NUL \<notin> set w \<Longrightarrow> c_string (w @ NUL # s) = w"
  by (induction w) (auto simp: c_string_def)

lemma c_string_append_zeros: "n > 0 \<Longrightarrow> c_string (s @ replicate n NUL) = c_string s"
  by (induction s) (cases n; simp add: c_string_def)+

lemma take_c_string: "c_string s = take (length (c_string s)) s"
  by (simp add: c_string_def takeWhile_eq_take [symmetric])

lemma c_string_zeros:
  "n > 0 \<Longrightarrow> take (length (c_string s) + 1) (s @ replicate n NUL) = c_string s @ [NUL]"
  by (induction s) (cases n; simp add: c_string_def)+

text \<open>C36: a host name that was set is read back: \<^verbatim>\<open>gethostname\<close> gives the bytes up to the first null character, and the null character,
  as far as the caller has room, without an access outside an array; the fields of the system's names keep their
  length and their final null character.\<close>

theorem hostname_roundtrip:
  assumes "uts_ok u" "uts_capable k" "0 \<le> len" "len \<le> 64" "user (nat len) = Some tmp" "length tmp = nat len"
    and "0 \<le> room" "\<And>n. writable n"
  shows "\<exists>u'. sethostname k user len u = (0, u') \<and> uts_ok u' \<and>
    gethostname writable room u' = Inr (0, take (nat room) (c_string tmp @ [NUL]))"
proof -
  let ?n = "tmp @ replicate (length (nodename u) - nat len) NUL"
  have l: "length (nodename u) = 65" using assms(1) by (simp add: uts_ok_def field_ok_def)
  have f: "field_ok 64 ?n" using assms(1,4,6) by (intro set_name_field) (simp_all add: uts_ok_def)
  have z: "length (nodename u) - nat len > 0" using l assms(4) by simp
  have c: "c_string ?n = c_string tmp" by (rule c_string_append_zeros [OF z])
  have "sethostname k user len u = (0, u\<lparr>nodename := ?n\<rparr>)"
    using assms(2-6) by (simp add: sethostname_def NEW_UTS_LEN_def)
  moreover have "uts_ok (u\<lparr>nodename := ?n\<rparr>)" using assms(1) f by (simp add: uts_ok_def)
  moreover have "gethostname writable room (u\<lparr>nodename := ?n\<rparr>) = Inr (0, take (nat room) (c_string tmp @ [NUL]))"
  proof -
    have "strlen ?n = Inr (length (c_string tmp))" using field_ok_NUL [OF f] c by (simp add: strlen_def)
    moreover have "length (c_string tmp) \<le> 64" using field_ok_length [OF f] c by simp
    moreover have "nat (min (int (1 + length (c_string tmp))) room) = min (length (c_string tmp) + 1) (nat room)"
      using assms(7) by linarith
    moreover have "take (min (length (c_string tmp) + 1) (nat room)) ?n = take (nat room) (c_string tmp @ [NUL])"
      by (simp only: c_string_zeros [OF z, symmetric] take_take min.commute)
    ultimately show ?thesis using assms(7,8) f by (simp add: gethostname_def NEW_UTS_LEN_def field_ok_def)
  qed
  ultimately show ?thesis by blast
qed

definition example_uts :: utsname where
  "example_uts = \<lparr>sysname = replicate 65 NUL, nodename = replicate 65 NUL, release = replicate 65 NUL, version = replicate 65 NUL,
     machine = replicate 65 NUL, domainname = replicate 65 NUL\<rparr>"

definition example_uts_env :: uts_env where
  "example_uts_env = \<lparr>uts_capable = True, uname26 = True, per_linux32 = False, uts_release = ''4.1.39-vm'', version_code = 0x40127,
     override_machine = None, struct_ok = True, release_ok = True, machine_ok = True\<rparr>"

lemma example_uts_ok: "uts_ok example_uts"
  by (simp add: uts_ok_def field_ok_def example_uts_def)

theorem hostname_roundtrip_witness:
  "\<exists>u'. sethostname example_uts_env (\<lambda>_. Some ''cs3013'') 6 example_uts = (0, u') \<and>
     gethostname (\<lambda>_. True) 4 u' = Inr (0, ''cs30'')"
  using hostname_roundtrip [OF example_uts_ok, of example_uts_env 6 "\<lambda>_. Some ''cs3013''" "''cs3013''" 4 "\<lambda>_. True"]
  by (auto simp: example_uts_env_def c_string_def NUL_def)

section \<open>The release of old programs\<close>

lemma skip_numbers_set: "set (skip_numbers n s) \<subseteq> set s"
  by (induction n s rule: skip_numbers.induct) auto

lemma compat_release_NUL:
  assumes "NUL \<notin> set (uts_release k)"
  shows "NUL \<notin> set (compat_release k)"
proof -
  have "\<not> is_digit NUL" by (simp add: is_digit_def NUL_def)
  then have "NUL \<notin> set (print_nat n)" for n using print_nat_digits by blast
  then show ?thesis using assms skip_numbers_set [of 0 "uts_release k"] by (auto simp: compat_release_def NUL_def)
qed

lemma c_string_prefix: "NUL \<notin> set w \<Longrightarrow> length w < length s \<Longrightarrow> c_string (blit s 0 (w @ [NUL])) = w"
  by (simp add: blit_def c_string_append)

lemma override_release_string:
  assumes "uname26 k" "release_ok k" "NUL \<notin> set (uts_release k)" "0 < length (release name)" "length (release name) \<le> 65"
  obtains name' where "override_release k name = (True, name')" "name' = name\<lparr>release := release name'\<rparr>"
    "length (release name') = length (release name)"
    "c_string (release name') = take (length (release name) - 1) (compat_release k)"
proof -
  let ?w = "take (length (release name) - 1) (compat_release k)"
  have n: "NUL \<notin> set ?w" using compat_release_NUL [OF assms(3)] in_set_takeD by fastforce
  have m: "min (max (length (release name)) 1) 65 = length (release name)" using assms(4,5) by linarith
  have "length ?w < length (release name)" using assms(4) by (simp only: length_take)
  then show ?thesis
    using that [of "name\<lparr>release := blit (release name) 0 (?w @ [NUL])\<rparr>"] assms(1,2) n m c_string_prefix [of ?w "release name"]
    by (simp add: override_release_def Let_def)
qed

text \<open>With the \<^verbatim>\<open>UNAME26\<close> personality each \<^verbatim>\<open>uname\<close> call reports as release \<^verbatim>\<open>2.6.\<close>, the second version number plus 60
  and what follows the three numbers of the real release, cut to the field (64 characters, 8 in the oldest structure)
  and ended; every field keeps its length.\<close>

theorem uname26_release:
  assumes "uts_ok u" "uname26 k" "release_ok k" "struct_ok k" "override_machine k = None" "NUL \<notin> set (uts_release k)"
  shows "(\<exists>n. newuname k u = (0, Some n) \<and> length (release n) = 65 \<and> c_string (release n) = take 64 (compat_release k) \<and>
      n = u\<lparr>release := release n\<rparr>) \<and>
    (\<exists>n. uname k False u = (0, Some n) \<and> length (release n) = 65 \<and> c_string (release n) = take 64 (compat_release k)) \<and>
    (\<exists>n. olduname k False u = (0, Some n) \<and> length (release n) = 9 \<and> c_string (release n) = take 8 (compat_release k))"
proof -
  have l: "length (release u) = 65" using assms(1) by (simp add: uts_ok_def field_ok_def)
  have arch: "override_architecture k name = (True, name)" for name :: "'a old_utsname_scheme"
    using assms(5) by (simp add: override_architecture_def)
  have short: "length (shortened s) = 9" if "length s = 65" for s
    using that by (simp add: shortened_def OLD_UTS_LEN_def)
  have "\<exists>n. newuname k u = (0, Some n) \<and> length (release n) = 65 \<and> c_string (release n) = take 64 (compat_release k) \<and>
      n = u\<lparr>release := release n\<rparr>"
    using l assms(5) by (rule_tac override_release_string [OF assms(2,3,6), of u])
      (simp_all add: newuname_def assms(4) override_architecture_def)
  moreover have "\<exists>n. uname k False u = (0, Some n) \<and> length (release n) = 65 \<and> c_string (release n) = take 64 (compat_release k)"
    using l assms(5) by (rule_tac override_release_string [OF assms(2,3,6), of "old_utsname.truncate u"])
      (simp_all add: uname_def assms(4) override_architecture_def old_utsname.truncate_def)
  moreover have "\<exists>n. olduname k False u = (0, Some n) \<and> length (release n) = 9 \<and> c_string (release n) = take 8 (compat_release k)"
  proof -
    let ?t = "\<lparr>sysname = shortened (sysname u), nodename = shortened (nodename u), release = shortened (release u),
      version = shortened (version u), machine = shortened (machine u)\<rparr>"
    show ?thesis using short [OF l] assms(5) by (rule_tac override_release_string [OF assms(2,3,6), of ?t])
      (simp_all add: olduname_def assms(4) override_architecture_def)
  qed
  ultimately show ?thesis by blast
qed

theorem uname26_release_witness:
  "\<exists>n. newuname example_uts_env example_uts = (0, Some n) \<and> c_string (release n) = ''2.6.61-vm''"
proof -
  have "compat_release example_uts_env = ''2.6.61-vm''"
    by code_simp
  then show ?thesis
    using uname26_release [OF example_uts_ok, of example_uts_env] by (auto simp: example_uts_env_def NUL_def)
qed

end
