(* ===== verification/Sysinfo.thy ===== *)
theory Sysinfo
  imports Prelude
begin

text \<open>
  \<^verbatim>\<open>do_sysinfo\<close> and the calls \<^verbatim>\<open>sysinfo\<close> of src/project-0/sys.c. The width of \<^verbatim>\<open>unsigned long\<close> is a type parameter
  (\<open>'l\<close>, 32 or 64), since the native call exists on both machines and the compatibility call only on the larger
  one. What the kernel's other files fill in (\<^verbatim>\<open>si_meminfo\<close>, \<^verbatim>\<open>si_swapinfo\<close>, the load, the clock) is a
  parameter (\<open>info_env\<close>).
\<close>

section \<open>State\<close>

record 'w sysinfo =
  uptime :: 'w
  loads :: "'w list"
  totalram :: 'w
  freeram :: 'w
  sharedram :: 'w
  bufferram :: 'w
  totalswap :: 'w
  freeswap :: 'w
  procs :: "16 word"
  totalhigh :: 'w
  freehigh :: 'w
  mem_unit :: "32 word"

record 'w info_env =
  tv_sec :: 'w
  tv_nsec :: 'w
  avenrun :: "'w list"
  nr_threads :: 'w
  si_meminfo :: "'w sysinfo \<Rightarrow> 'w sysinfo"
  si_swapinfo :: "'w sysinfo \<Rightarrow> 'w sysinfo"

section \<open>Shifts\<close>

lemma unat_push: "unat (push_bit n t) = unat t * 2 ^ n mod 2 ^ LENGTH('l)" for t :: "'l::len word"
  by (simp only: unsigned_push_bit_eq, simp only: push_bit_eq_mult take_bit_eq_mod)

lemma unat_drop: "unat (drop_bit n t) = unat t div 2 ^ n" for t :: "'l::len word"
  by (simp only: unat_drop_bit_eq, simp only: drop_bit_eq_div)

lemma unat_pow2: "b < LENGTH('l) \<Longrightarrow> unat (2 ^ b :: 'l::len word) = 2 ^ b"
  using unat_of_nat [of "2 ^ b", where 'a = 'l] by (simp add: take_bit_eq_mod)

section \<open>Operations\<close>

definition cleared :: "'l::len word sysinfo" where
  "cleared = \<lparr>uptime = 0, loads = [0, 0, 0], totalram = 0, freeram = 0, sharedram = 0, bufferram = 0, totalswap = 0,
     freeswap = 0, procs = 0, totalhigh = 0, freehigh = 0, mem_unit = 0\<rparr>"

text \<open>The part of \<^verbatim>\<open>do_sysinfo\<close> before the memory values are scaled.\<close>

definition filled :: "'l::len word info_env \<Rightarrow> 'l word sysinfo" where
  "filled k = si_swapinfo k (si_meminfo k (cleared
     \<lparr>uptime := tv_sec k + (if tv_nsec k \<noteq> 0 then 1 else 0), loads := avenrun k, procs := ucast (nr_threads k)\<rparr>))"

text \<open>The loop that counts the bits of the unit; \<open>None\<close> is the jump to \<^verbatim>\<open>out\<close> on an overflow.\<close>

function count_bits :: "32 word \<Rightarrow> nat \<Rightarrow> 'l::len word \<Rightarrow> nat option" where
  "count_bits munit bitcount mem_total =
     (if munit > 1 then
        (let sav_total = mem_total; mem_total' = push_bit 1 mem_total in
         if mem_total' < sav_total then None else count_bits (drop_bit 1 munit) (bitcount + 1) mem_total')
      else Some bitcount)"
  by pat_completeness auto

lemma half_less: "(m :: 32 word) > 1 \<Longrightarrow> unat (drop_bit 1 m) < unat m"
  unfolding unat_drop by (simp add: word_less_nat_alt)

termination count_bits
  by (relation "measure (\<lambda>(m, _, _). unat m)") (auto dest: half_less)

declare count_bits.simps [simp del]

definition shift_left :: "nat \<Rightarrow> 'l::len word sysinfo \<Rightarrow> 'l word sysinfo" where
  "shift_left n i = i\<lparr>totalram := push_bit n (totalram i), freeram := push_bit n (freeram i),
     sharedram := push_bit n (sharedram i), bufferram := push_bit n (bufferram i),
     totalswap := push_bit n (totalswap i), freeswap := push_bit n (freeswap i),
     totalhigh := push_bit n (totalhigh i), freehigh := push_bit n (freehigh i)\<rparr>"

definition do_sysinfo :: "'l::len word info_env \<Rightarrow> 'l word sysinfo" where
  "do_sysinfo k =
     (let info = filled k; mem_total = totalram info + totalswap info in
      if mem_total < totalram info \<or> mem_total < totalswap info then info
      else case count_bits (mem_unit info) 0 mem_total of
        None \<Rightarrow> info
      | Some bitcount \<Rightarrow> (shift_left bitcount info)\<lparr>mem_unit := 1\<rparr>)"

definition sys_sysinfo :: "'l::len word info_env \<Rightarrow> bool \<Rightarrow> int \<times> 'l word sysinfo option" where
  "sys_sysinfo k writable = (if writable then (0, Some (do_sysinfo k)) else (- EFAULT, None))"

text \<open>
  The compatibility call. Its loop doubles the unit up to a page of 4096 bytes; it would not end for a unit of 0.
  The fields are stored one after the other (\<open>ok n\<close>: the store of field \<open>n\<close> works), each cut to the width it has
  in \<^verbatim>\<open>compat_sysinfo\<close>.
\<close>

definition PAGE_SIZE :: "32 word" where "PAGE_SIZE = 4096"

partial_function (option) count_doublings :: "32 word \<Rightarrow> nat \<Rightarrow> (32 word \<times> nat) option" where
  "count_doublings unit bitcount =
     (if unit < PAGE_SIZE then count_doublings (push_bit 1 unit) (bitcount + 1) else Some (unit, bitcount))"

definition shift_right :: "nat \<Rightarrow> 'l::len word sysinfo \<Rightarrow> 'l word sysinfo" where
  "shift_right n i = i\<lparr>totalram := drop_bit n (totalram i), freeram := drop_bit n (freeram i),
     sharedram := drop_bit n (sharedram i), bufferram := drop_bit n (bufferram i),
     totalswap := drop_bit n (totalswap i), freeswap := drop_bit n (freeswap i),
     totalhigh := drop_bit n (totalhigh i), freehigh := drop_bit n (freehigh i)\<rparr>"

definition scaled_down :: "64 word sysinfo \<Rightarrow> 64 word sysinfo option" where
  "scaled_down s =
     (if drop_bit 32 (totalram s) \<noteq> 0 \<or> drop_bit 32 (totalswap s) \<noteq> 0
      then map_option (\<lambda>(unit, bitcount). (shift_right bitcount s)\<lparr>mem_unit := unit\<rparr>) (count_doublings (mem_unit s) 0)
      else Some s)"

definition compat_fields :: "64 word sysinfo \<Rightarrow> 32 word list" where
  "compat_fields s = [ucast (uptime s), ucast (loads s ! 0), ucast (loads s ! 1), ucast (loads s ! 2),
     ucast (totalram s), ucast (freeram s), ucast (sharedram s), ucast (bufferram s), ucast (totalswap s), ucast (freeswap s),
     ucast (procs s), ucast (totalhigh s), ucast (freehigh s), mem_unit s]"

definition compat_sysinfo :: "64 word info_env \<Rightarrow> bool \<Rightarrow> (nat \<Rightarrow> bool) \<Rightarrow> (int \<times> 32 word list) option" where
  "compat_sysinfo k access ok =
     map_option (\<lambda>s.
       if \<not> access then (- EFAULT, [])
       else
         (let n = length (takeWhile ok [0..<14]) in
          (if n = 14 then 0 else - EFAULT, take n (compat_fields s))))
     (scaled_down (do_sysinfo k))"

section \<open>Scaling\<close>

lemma double_overflow:
  "push_bit 1 t < t \<longleftrightarrow> 2 ^ LENGTH('l) \<le> 2 * unat t" for t :: "'l::len word"
proof -
  have u: "unat (push_bit 1 t) = 2 * unat t mod 2 ^ LENGTH('l)"
    unfolding unat_push by (simp add: mult.commute)
  have l: "unat t < 2 ^ LENGTH('l)" by (rule unsigned_less)
  show ?thesis
  proof (cases "2 ^ LENGTH('l) \<le> 2 * unat t")
    case True
    moreover have "2 * unat t - 2 ^ LENGTH('l) < 2 ^ LENGTH('l)" using l True by linarith
    ultimately have "2 * unat t mod 2 ^ LENGTH('l) = 2 * unat t - 2 ^ LENGTH('l)" by (simp only: le_mod_geq mod_less)
    then show ?thesis using True l u unfolding word_less_nat_alt by linarith
  next
    case False
    then show ?thesis using u by (simp add: word_less_nat_alt)
  qed
qed

lemma unat_push_bit_small:
  "unat t * 2 ^ n < 2 ^ LENGTH('l) \<Longrightarrow> unat (push_bit n t) = unat t * 2 ^ n" for t :: "'l::len word"
  by (simp only: unat_push mod_less)

lemma count_bits_step:
  "1 < m \<Longrightarrow> count_bits m c t =
     (if 2 ^ LENGTH('l) \<le> 2 * unat t then None else count_bits (drop_bit 1 m) (c + 1) (push_bit 1 t))"
  for t :: "'l::len word"
  by (subst count_bits.simps) (simp only: Let_def double_overflow if_True)

lemma count_bits_power:
  "b < 32 \<Longrightarrow> count_bits (2 ^ b) c t = (if unat t * 2 ^ b < 2 ^ LENGTH('l) then Some (c + b) else None)"
  for t :: "'l::len word"
proof (induction b arbitrary: c t)
  case 0
  have "unat t < 2 ^ LENGTH('l)" by (rule unsigned_less)
  then show ?case by (simp add: count_bits.simps)
next
  case (Suc b)
  have "unat (2 ^ Suc b :: 32 word) = 2 ^ Suc b" using Suc.prems by (intro unat_pow2) simp
  moreover have "(1 :: nat) < 2 ^ Suc b" by (rule one_less_power) simp_all
  ultimately have one: "(1 :: 32 word) < 2 ^ Suc b" unfolding word_less_nat_alt by simp
  have half: "drop_bit 1 (2 ^ Suc b :: 32 word) = 2 ^ b"
    using Suc.prems by (simp only: word_unat_eq_iff unat_drop) (simp add: unat_pow2 del: power_Suc, simp)
  have le: "unat t * 2 \<le> unat t * 2 ^ Suc b" by simp
  show ?case
  proof (cases "2 ^ LENGTH('l) \<le> 2 * unat t")
    case True
    then have "\<not> unat t * 2 ^ Suc b < 2 ^ LENGTH('l)" using le by linarith
    then show ?thesis using one True by (simp only: count_bits_step if_True if_False)
  next
    case False
    then have "unat (push_bit 1 t) = unat t * 2" using unat_push_bit_small [of t 1] by simp
    moreover have "count_bits (2 ^ Suc b) c t = count_bits (2 ^ b) (c + 1) (push_bit 1 t)"
      using one half False by (simp only: count_bits_step if_False)
    ultimately show ?thesis using Suc by (simp only: Suc.IH Suc_lessD) (simp add: ac_simps)
  qed
qed

text \<open>What the kernel fills in: a unit that is a power of two, and parts that are not larger than their wholes.\<close>

definition filled_ok :: "'l::len word sysinfo \<Rightarrow> nat \<Rightarrow> bool" where
  "filled_ok i b \<longleftrightarrow> b < 32 \<and> mem_unit i = 2 ^ b \<and>
     freeram i \<le> totalram i \<and> sharedram i \<le> totalram i \<and> bufferram i \<le> totalram i \<and>
     totalhigh i \<le> totalram i \<and> freehigh i \<le> totalram i \<and> freeswap i \<le> totalswap i"

definition memory_fields :: "(('l::len word sysinfo \<Rightarrow> 'l word) \<times> nat) list" where
  "memory_fields = [(totalram, 4), (freeram, 5), (sharedram, 6), (bufferram, 7), (totalswap, 8), (freeswap, 9),
     (totalhigh, 11), (freehigh, 12)]"

definition total :: "'l::len word sysinfo \<Rightarrow> nat" where
  "total i = unat (totalram i) + unat (totalswap i)"

lemma field_le_whole:
  "filled_ok i b \<Longrightarrow> (f, n) \<in> set memory_fields \<Longrightarrow> f i \<le> totalram i \<or> f i \<le> totalswap i"
  by (auto simp: filled_ok_def memory_fields_def)

lemma field_le_total: "filled_ok i b \<Longrightarrow> (f, n) \<in> set memory_fields \<Longrightarrow> unat (f i) \<le> total i"
  by (drule (1) field_le_whole) (auto simp: total_def word_le_nat_alt)

lemma shift_left_field: "(f, n) \<in> set memory_fields \<Longrightarrow> f ((shift_left c i)\<lparr>mem_unit := u\<rparr>) = push_bit c (f i)"
  by (auto simp: memory_fields_def shift_left_def)

lemma shift_right_field: "(f, n) \<in> set memory_fields \<Longrightarrow> f ((shift_right c i)\<lparr>mem_unit := u\<rparr>) = drop_bit c (f i)"
  by (auto simp: memory_fields_def shift_right_def)

lemma sum_overflow:
  "x + y < x \<or> x + y < y \<longleftrightarrow> 2 ^ LENGTH('l) \<le> unat x + unat y" for x y :: "'l::len word"
proof (cases "2 ^ LENGTH('l) \<le> unat x + unat y")
  case True
  moreover have l: "unat x < 2 ^ LENGTH('l)" "unat y < 2 ^ LENGTH('l)" by (rule unsigned_less)+
  ultimately have "unat (x + y) = unat x + unat y - 2 ^ LENGTH('l)" unfolding unat_word_ariths
    by (subst le_mod_geq) (simp_all only: mod_less)
  then show ?thesis using True l unfolding word_less_nat_alt by linarith
next
  case False
  then have "unat (x + y) = unat x + unat y" unfolding unat_word_ariths by (simp only: mod_less not_le)
  then show ?thesis using False by (simp add: word_less_nat_alt)
qed

lemma do_sysinfo_cases:
  fixes k :: "'l::len word info_env"
  assumes "filled_ok (filled k) b"
  shows "do_sysinfo k = (if total (filled k) * 2 ^ b < 2 ^ LENGTH('l) then (shift_left b (filled k))\<lparr>mem_unit := 1\<rparr> else filled k)"
    (is "_ = (if ?fits then _ else _)")
proof (cases "2 ^ LENGTH('l) \<le> total (filled k)")
  case True
  then have "\<not> ?fits" using order_trans [of _ "total (filled k)" "total (filled k) * 2 ^ b"] by (simp add: not_less)
  then show ?thesis using True sum_overflow [of "totalram (filled k)" "totalswap (filled k)"]
    by (simp add: do_sysinfo_def Let_def total_def)
next
  case False
  then have "unat (totalram (filled k) + totalswap (filled k)) = total (filled k)"
    unfolding unat_word_ariths total_def by (simp only: mod_less not_le)
  then show ?thesis using False assms sum_overflow [of "totalram (filled k)" "totalswap (filled k)"]
    by (auto simp: do_sysinfo_def Let_def total_def filled_ok_def count_bits_power)
qed

text \<open>C33: when the kernel's unit is a power of two, \<^verbatim>\<open>do_sysinfo\<close> reports every amount of memory exactly: no shift
  loses a bit, and the product of an amount and the unit is what it was. The unit becomes one byte exactly when the sum of memory
  and swap space, in bytes, fits an \<^verbatim>\<open>unsigned long\<close> (or was one byte before).\<close>

theorem sysinfo_exact:
  fixes k :: "'l::len word info_env"
  assumes "filled_ok (filled k) b"
  shows "(\<forall>(f, n) \<in> set memory_fields.
      unat (f (do_sysinfo k)) * unat (mem_unit (do_sysinfo k)) = unat (f (filled k)) * 2 ^ b) \<and>
    (mem_unit (do_sysinfo k) = 1 \<longleftrightarrow> b = 0 \<or> total (filled k) * 2 ^ b < 2 ^ LENGTH('l))"
proof -
  have unit: "unat (mem_unit (filled k)) = 2 ^ b" using assms by (simp add: filled_ok_def unat_pow2)
  then have one: "mem_unit (filled k) = 1 \<longleftrightarrow> b = 0" by (simp add: word_unat_eq_iff)
  show ?thesis
  proof (cases "total (filled k) * 2 ^ b < 2 ^ LENGTH('l)")
    case True
    have "unat (f (do_sysinfo k)) = unat (f (filled k)) * 2 ^ b" if f: "(f, n) \<in> set memory_fields" for f n
    proof -
      have "unat (f (filled k)) * 2 ^ b < 2 ^ LENGTH('l)"
        using field_le_total [OF assms f] True by (meson le_less_trans mult_le_mono1)
      then show ?thesis using do_sysinfo_cases [OF assms] True shift_left_field [OF f]
        by (simp only: if_True unat_push_bit_small)
    qed
    moreover have "mem_unit (do_sysinfo k) = 1" using do_sysinfo_cases [OF assms] True by simp
    ultimately show ?thesis using True by auto
  next
    case False
    then show ?thesis using do_sysinfo_cases [OF assms] unit one by simp
  qed
qed

definition example_info :: "32 word info_env" where
  "example_info = \<lparr>tv_sec = 100, tv_nsec = 5, avenrun = [0, 0, 0], nr_threads = 70,
     si_meminfo = (\<lambda>i. i\<lparr>totalram := 0x10000, freeram := 0x8000, mem_unit := 4096\<rparr>),
     si_swapinfo = (\<lambda>i. i\<lparr>totalswap := 0x20000, freeswap := 0x20000\<rparr>)\<rparr>"

theorem sysinfo_exact_witness:
  "unat (freeram (do_sysinfo example_info)) * unat (mem_unit (do_sysinfo example_info)) = 0x8000000 \<and>
   mem_unit (do_sysinfo example_info) = 1"
proof -
  have ok: "filled_ok (filled example_info) 12"
    by (simp add: filled_ok_def filled_def example_info_def cleared_def)
  have v: "unat (freeram (filled example_info)) = 0x8000" "total (filled example_info) = 0x30000"
    by (simp_all add: filled_def example_info_def cleared_def total_def)
  have f: "(freeram, 5) \<in> set memory_fields" by (simp add: memory_fields_def)
  show ?thesis using sysinfo_exact [OF ok] bspec [OF conjunct1 [OF sysinfo_exact [OF ok]] f] by (simp add: v)
qed

section \<open>The compatibility call\<close>

lemma count_doublings_power:
  "b \<le> 12 \<Longrightarrow> count_doublings (2 ^ b) c = Some (4096, c + (12 - b))"
proof (induction "12 - b" arbitrary: b c)
  case 0
  then show ?case by (simp add: count_doublings.simps PAGE_SIZE_def)
next
  case (Suc d)
  then have b: "b < 12" by simp
  have "unat (2 ^ b :: 32 word) = 2 ^ b" using b by (intro unat_pow2) simp
  moreover have "(2 :: nat) ^ b < 2 ^ 12" using b by (intro power_strict_increasing) simp_all
  ultimately have "(2 ^ b :: 32 word) < PAGE_SIZE" by (simp add: word_less_nat_alt PAGE_SIZE_def)
  moreover have "push_bit 1 (2 ^ b :: 32 word) = 2 ^ Suc b" by (simp add: push_bit_eq_mult)
  moreover have "count_doublings (2 ^ Suc b) (c + 1) = Some (4096, c + 1 + (12 - Suc b))"
    using Suc.hyps b by (intro Suc.hyps) simp_all
  ultimately show ?case using b by (subst count_doublings.simps) (simp add: mult.commute Suc_diff_le)
qed

lemma upper_zero: "drop_bit 32 t = 0 \<longleftrightarrow> unat t < 2 ^ 32" for t :: "64 word"
proof -
  have "drop_bit 32 t = 0 \<longleftrightarrow> unat t div 2 ^ 32 = 0" by (simp only: word_unat_eq_iff unat_drop unat_0)
  then show ?thesis by (simp only: div_eq_0_iff) simp
qed

lemma unat_narrow: "unat t < 2 ^ 32 \<Longrightarrow> unat (ucast t :: 32 word) = unat t" for t :: "64 word"
  by (simp add: unsigned_ucast_eq take_bit_eq_mod)

text \<open>What the call does to a record in bytes: it stays, or its amounts are rounded down to pages.\<close>

lemma scaled_down_bytes:
  assumes "mem_unit s = 1" "total s < 2 ^ 44" "\<And>f n. (f, n) \<in> set memory_fields \<Longrightarrow> f s \<le> totalram s \<or> f s \<le> totalswap s"
  obtains s' c where "scaled_down s = Some s'" "mem_unit s' = 2 ^ c" "c \<le> 12"
    "\<And>f n. (f, n) \<in> set memory_fields \<Longrightarrow> unat (f s') = unat (f s) div 2 ^ c \<and> unat (f s') < 2 ^ 32"
proof (cases "unat (totalram s) < 2 ^ 32 \<and> unat (totalswap s) < 2 ^ 32")
  case True
  then have "scaled_down s = Some s" by (simp only: scaled_down_def upper_zero) simp
  moreover have "unat (f s) < 2 ^ 32" if "(f, n) \<in> set memory_fields" for f n
    using assms(3) [OF that] True unfolding word_le_nat_alt by linarith
  ultimately show ?thesis using that [of s 0] assms(1) by simp
next
  case False
  have "count_doublings 1 0 = Some (4096, 12)" using count_doublings_power [of 0 0] by simp
  then have "scaled_down s = Some ((shift_right 12 s)\<lparr>mem_unit := 4096\<rparr>)"
    using False assms(1) by (simp only: scaled_down_def upper_zero) auto
  moreover have "unat (f ((shift_right 12 s)\<lparr>mem_unit := 4096\<rparr>)) = unat (f s) div 2 ^ 12"
    if "(f, n) \<in> set memory_fields" for f n
    using that by (simp only: shift_right_field unat_drop)
  moreover have "unat (f s) div 2 ^ 12 < 2 ^ 32" if "(f, n) \<in> set memory_fields" for f n
    using assms(3) [OF that] assms(2) unfolding word_le_nat_alt total_def by (intro div_less_iff_less_mult [THEN iffD2]) auto
  ultimately show ?thesis using that [of "(shift_right 12 s)\<lparr>mem_unit := 4096\<rparr>" 12] by simp
qed

lemma compat_field:
  "(f, n) \<in> set memory_fields \<Longrightarrow> compat_fields s ! n = ucast (f s)"
  by (auto simp: memory_fields_def compat_fields_def)

text \<open>C34: on the 64-bit machine the compatibility call returns (its loop ends), and with less than 16 TiB of memory and swap
  space every amount it reports, times the unit it reports, is the amount in bytes rounded down by less than a page,
  although its fields have 32 bits.\<close>

theorem compat_sysinfo_rounds_to_pages:
  assumes "filled_ok (filled k) b" "total (filled k) * 2 ^ b < 2 ^ 44"
  shows "\<exists>fs. compat_sysinfo k True (\<lambda>_. True) = Some (0, fs) \<and>
    (\<forall>(f, n) \<in> set memory_fields.
      let r = unat (fs ! n) * unat (fs ! 13); bytes = unat (f (filled k)) * 2 ^ b in r \<le> bytes \<and> bytes < r + unat PAGE_SIZE)"
proof -
  let ?s = "do_sysinfo k"
  have fits: "total (filled k) * 2 ^ b < 2 ^ LENGTH(64)" using assms(2) by simp
  then have unit: "mem_unit ?s = 1" using sysinfo_exact [OF assms(1)] by simp
  have bytes: "unat (f ?s) = unat (f (filled k)) * 2 ^ b" if "(f, n) \<in> set memory_fields" for f n
    using conjunct1 [OF sysinfo_exact [OF assms(1)]] that unit by auto
  have "total ?s < 2 ^ 44"
    using bytes [of totalram 4] bytes [of totalswap 8] assms(2) by (simp add: total_def memory_fields_def add_mult_distrib)
  moreover have "f ?s \<le> totalram ?s \<or> f ?s \<le> totalswap ?s" if "(f, n) \<in> set memory_fields" for f n
    using field_le_whole [OF assms(1) that] bytes [OF that] bytes [of totalram 4] bytes [of totalswap 8]
    by (auto simp: memory_fields_def word_le_nat_alt)
  ultimately obtain s' c where s': "scaled_down ?s = Some s'" "mem_unit s' = 2 ^ c" "c \<le> 12"
    "\<And>f n. (f, n) \<in> set memory_fields \<Longrightarrow> unat (f s') = unat (f ?s) div 2 ^ c \<and> unat (f s') < 2 ^ 32"
    using scaled_down_bytes [OF unit] by metis
  have len: "length (compat_fields s') = 14" "compat_fields s' ! 13 = 2 ^ c" using s'(2) by (simp_all add: compat_fields_def)
  have "compat_sysinfo k True (\<lambda>_. True) = Some (0, compat_fields s')"
    using s'(1) len by (simp add: compat_sysinfo_def takeWhile_eq_all_conv [THEN iffD2])
  moreover have "let r = unat (compat_fields s' ! n) * unat (compat_fields s' ! 13); bytes = unat (f (filled k)) * 2 ^ b
      in r \<le> bytes \<and> bytes < r + unat PAGE_SIZE" if f: "(f, n) \<in> set memory_fields" for f n
  proof -
    let ?b = "unat (f (filled k)) * 2 ^ b"
    let ?r = "?b div 2 ^ c * 2 ^ c"
    have "unat (compat_fields s' ! n) = ?b div 2 ^ c"
      using s'(4) [OF f] bytes [OF f] compat_field [OF f] unat_narrow [of "f s'"] by simp
    moreover have "unat (2 ^ c :: 32 word) = 2 ^ c" using s'(3) by (intro unat_pow2) simp
    ultimately have r: "unat (compat_fields s' ! n) * unat (compat_fields s' ! 13) = ?r" by (simp only: len)
    have "(2 :: nat) ^ c \<le> 2 ^ 12" using s'(3) by (intro power_increasing) simp_all
    then have "2 ^ c \<le> unat PAGE_SIZE" by (simp add: PAGE_SIZE_def)
    moreover have "?r + ?b mod 2 ^ c = ?b" by (rule div_mult_mod_eq)
    moreover have "?b mod 2 ^ c < 2 ^ c" by simp
    ultimately have "?r \<le> ?b \<and> ?b < ?r + unat PAGE_SIZE" by linarith
    then show ?thesis unfolding Let_def r .
  qed
  ultimately show ?thesis by (intro exI [of _ "compat_fields s'"]) auto
qed

definition example_info64 :: "64 word info_env" where
  "example_info64 = \<lparr>tv_sec = 100, tv_nsec = 5, avenrun = [0, 0, 0], nr_threads = 70,
     si_meminfo = (\<lambda>i. i\<lparr>totalram := 0x200000, freeram := 0x123456, mem_unit := 4096\<rparr>), si_swapinfo = (\<lambda>i. i)\<rparr>"

theorem compat_sysinfo_witness:
  "\<exists>fs. compat_sysinfo example_info64 True (\<lambda>_. True) = Some (0, fs) \<and> unat (fs ! 5) * unat (fs ! 13) \<le> 0x123456000"
proof -
  have ok: "filled_ok (filled example_info64) 12"
    by (simp add: filled_ok_def filled_def example_info64_def cleared_def)
  have v: "unat (freeram (filled example_info64)) = 0x123456" "total (filled example_info64) = 0x200000"
    by (simp_all add: filled_def example_info64_def cleared_def total_def)
  have "total (filled example_info64) * 2 ^ 12 < 2 ^ 44" by (simp add: v)
  moreover have "(freeram, 5) \<in> set memory_fields" by (simp add: memory_fields_def)
  ultimately show ?thesis using compat_sysinfo_rounds_to_pages [OF ok] v(1) unfolding Let_def by fastforce
qed

end
