(* ===== verification/Mm_Map.thy ===== *)
theory Mm_Map
  imports Prelude
begin

text \<open>
  The calls \<^verbatim>\<open>prctl(PR_SET_MM, ...)\<close> of src/project-0/sys.c, with which a process changes what the kernel knows of its
  address space: \<^verbatim>\<open>prctl_set_mm\<close>, \<^verbatim>\<open>prctl_set_mm_map\<close>, \<^verbatim>\<open>prctl_set_auxv\<close>, \<^verbatim>\<open>prctl_set_mm_exe_file\<close> and the check
  \<^verbatim>\<open>validate_prctl_map\<close>. The width of \<^verbatim>\<open>unsigned long\<close> is a type parameter (\<open>'l\<close>): the structure the caller passes
  has 64-bit fields on every machine. User memory, the table of open files, the address limits, the search for an area
  and the check of the data limit are parameters (\<open>mm_env\<close>).
\<close>

section \<open>State\<close>

record 'w layout =
  start_code :: 'w
  end_code :: 'w
  start_data :: 'w
  end_data :: 'w
  start_brk :: 'w
  brk :: 'w
  start_stack :: 'w
  arg_start :: 'w
  arg_end :: 'w
  env_start :: 'w
  env_end :: 'w

record kfile =
  f_path :: string
  regular :: bool
  noexec :: bool
  exec_permission :: int

record 'w vma =
  vm_end :: 'w
  vm_file :: "kfile option"

record 'w mm =
  layout :: "'w layout"
  saved_auxv :: "8 word list"
  exe_file :: "kfile option"
  exe_file_changed :: bool
  mmap :: "'w vma list"

record 'w prctl_mm_map =
  wide_layout :: "64 word layout"
  auxv :: 'w
  auxv_size :: "32 word"
  exe_fd :: "32 word"

record 'w mm_env =
  task_size :: 'w
  mmap_min_addr :: 'w
  check_data_rlimit :: "'w \<Rightarrow> 'w \<Rightarrow> 'w \<Rightarrow> 'w \<Rightarrow> int"
  cur_uid :: "32 word"
  cur_gid :: "32 word"
  kuid_of :: "32 word \<Rightarrow> 32 word"
  kgid_of :: "32 word \<Rightarrow> 32 word"
  capable_resource :: bool
  fdget :: "32 word \<Rightarrow> kfile option"
  find_vma :: "'w vma list \<Rightarrow> 'w \<Rightarrow> 'w vma option"
  read_map :: "'w \<Rightarrow> 'w prctl_mm_map option"
  read_byte :: "'w \<Rightarrow> 8 word option"
  put_user :: "'w \<Rightarrow> bool"
  map_size :: 'w
  at_vector_size :: nat
  checkpoint_restore :: bool

datatype mm_opt =
    SET_START_CODE | SET_END_CODE | SET_START_DATA | SET_END_DATA | SET_START_STACK | SET_START_BRK | SET_BRK
  | SET_ARG_START | SET_ARG_END | SET_ENV_START | SET_ENV_END | SET_AUXV | SET_EXE_FILE | SET_MAP | SET_MAP_SIZE | NO_OPT

section \<open>Operations\<close>

definition copy_from_user :: "'l::len word mm_env \<Rightarrow> 'l word \<Rightarrow> nat \<Rightarrow> 8 word list option" where
  "copy_from_user k addr n = those (map (\<lambda>i. read_byte k (addr + of_nat i)) [0..<n])"

text \<open>\<^verbatim>\<open>prctl_set_mm_exe_file\<close>\<close>

definition prctl_set_mm_exe_file :: "'l::len word mm_env \<Rightarrow> 32 word \<Rightarrow> 'l word mm \<Rightarrow> int \<times> 'l word mm" where
  "prctl_set_mm_exe_file k fd mm =
     (case fdget k fd of
        None \<Rightarrow> (- EBADF, mm)
      | Some exe \<Rightarrow>
          if \<not> regular exe \<or> noexec exe then (- EACCES, mm)
          else if exec_permission exe \<noteq> 0 then (exec_permission exe, mm)
          else if (case exe_file mm of
              None \<Rightarrow> False
            | Some old \<Rightarrow> list_ex (\<lambda>vma. case vm_file vma of None \<Rightarrow> False | Some f \<Rightarrow> f_path f = f_path old) (mmap mm))
            then (- EBUSY, mm)
          else if exe_file_changed mm then (- EPERM, mm)
          else (0, mm\<lparr>exe_file := Some exe, exe_file_changed := True\<rparr>))"

text \<open>The fields in the order of the table of offsets, and the conversion of all of them.\<close>

definition offsets :: "'w layout \<Rightarrow> 'w list" where
  "offsets l = [start_code l, end_code l, start_data l, end_data l, start_brk l, brk l, start_stack l,
     arg_start l, arg_end l, env_start l, env_end l]"

definition convert :: "('v \<Rightarrow> 'w) \<Rightarrow> 'v layout \<Rightarrow> 'w layout" where
  "convert f l = \<lparr>start_code = f (start_code l), end_code = f (end_code l), start_data = f (start_data l),
     end_data = f (end_data l), start_brk = f (start_brk l), brk = f (brk l), start_stack = f (start_stack l),
     arg_start = f (arg_start l), arg_end = f (arg_end l), env_start = f (env_start l), env_end = f (env_end l)\<rparr>"

definition auxv_bytes :: "'l::len word mm_env \<Rightarrow> nat" where
  "auxv_bytes k = at_vector_size k * (LENGTH('l) div 8)"

definition validate_prctl_map :: "'l::len word mm_env \<Rightarrow> 'l word prctl_mm_map \<Rightarrow> int" where
  "validate_prctl_map k m =
     (let l = wide_layout m; n = convert ucast l :: 'l word layout in
      if list_ex (\<lambda>val. ucast val \<ge> task_size k \<or> ucast val < mmap_min_addr k) (offsets l) then - EINVAL
      else if \<not> (start_code n < end_code n \<and> start_data n < end_data n \<and> start_brk n \<le> brk n \<and>
          arg_start n \<le> arg_end n \<and> env_start n \<le> env_end n) then - EINVAL
      else if start_brk l \<le> end_data l \<or> brk l \<le> end_data l then - EINVAL
      else if check_data_rlimit k (brk n) (start_brk n) (end_data n) (start_data n) \<noteq> 0 then - EINVAL
      else if auxv_size m \<noteq> 0 \<and> (auxv m = 0 \<or> unat (auxv_size m) > auxv_bytes k) then - EINVAL
      else if exe_fd m \<noteq> -1 \<and> (cur_uid k \<noteq> kuid_of k 0 \<or> cur_gid k \<noteq> kgid_of k 0) then - EINVAL
      else 0)"

text \<open>A vector as it is on the kernel's stack: its last two entries are overwritten with \<^verbatim>\<open>AT_NULL\<close>, which is 0.\<close>

definition end_auxv :: "'l::len word mm_env \<Rightarrow> 8 word list \<Rightarrow> 8 word list" where
  "end_auxv k bytes =
     (let n = auxv_bytes k - 2 * (LENGTH('l) div 8) in take n bytes @ replicate (length bytes - n) 0)"

definition store_map :: "'l::len word mm_env \<Rightarrow> 'l word prctl_mm_map \<Rightarrow> 'l word mm \<Rightarrow> int \<times> 'l word mm" where
  "store_map k m mm =
     (let size = unat (auxv_size m); user_auxv = copy_from_user k (auxv m) size in
      if size \<noteq> 0 \<and> user_auxv = None then (- EFAULT, mm)
      else
        (let (error, mm') = (if exe_fd m \<noteq> -1 then prctl_set_mm_exe_file k (exe_fd m) mm else (0, mm)) in
         if error \<noteq> 0 then (error, mm')
         else (0, mm'\<lparr>layout := convert ucast (wide_layout m),
           saved_auxv := (if size \<noteq> 0 then end_auxv k (the user_auxv @ replicate (auxv_bytes k - size) 0)
             else saved_auxv mm')\<rparr>)))"

definition prctl_set_mm_map ::
    "'l::len word mm_env \<Rightarrow> mm_opt \<Rightarrow> 'l word \<Rightarrow> 'l word \<Rightarrow> 'l word mm \<Rightarrow> int \<times> 'l word mm" where
  "prctl_set_mm_map k opt addr data_size mm =
     (if opt = SET_MAP_SIZE then (if put_user k addr then 0 else - EFAULT, mm)
      else if data_size \<noteq> map_size k then (- EINVAL, mm)
      else case read_map k addr of
        None \<Rightarrow> (- EFAULT, mm)
      | Some m \<Rightarrow> (let error = validate_prctl_map k m in if error \<noteq> 0 then (error, mm) else store_map k m mm))"

text \<open>Only the first \<^verbatim>\<open>len\<close> bytes of the vector on the stack are set, and only they are copied.\<close>

definition prctl_set_auxv :: "'l::len word mm_env \<Rightarrow> 'l word \<Rightarrow> 'l word \<Rightarrow> 'l word mm \<Rightarrow> int \<times> 'l word mm" where
  "prctl_set_auxv k addr len mm =
     (if unat len > auxv_bytes k then (- EINVAL, mm)
      else case copy_from_user k addr (unat len) of
        None \<Rightarrow> (- EFAULT, mm)
      | Some bytes \<Rightarrow> (0, mm\<lparr>saved_auxv := blit (saved_auxv mm) 0 (end_auxv k bytes)\<rparr>))"

definition set_field :: "mm_opt \<Rightarrow> 'w \<Rightarrow> 'w layout \<Rightarrow> 'w layout option" where
  "set_field opt addr l =
     (case opt of
        SET_START_CODE \<Rightarrow> Some (l\<lparr>start_code := addr\<rparr>)
      | SET_END_CODE \<Rightarrow> Some (l\<lparr>end_code := addr\<rparr>)
      | SET_START_DATA \<Rightarrow> Some (l\<lparr>start_data := addr\<rparr>)
      | SET_END_DATA \<Rightarrow> Some (l\<lparr>end_data := addr\<rparr>)
      | SET_START_STACK \<Rightarrow> Some (l\<lparr>start_stack := addr\<rparr>)
      | SET_START_BRK \<Rightarrow> Some (l\<lparr>start_brk := addr\<rparr>)
      | SET_BRK \<Rightarrow> Some (l\<lparr>brk := addr\<rparr>)
      | SET_ARG_START \<Rightarrow> Some (l\<lparr>arg_start := addr\<rparr>)
      | SET_ARG_END \<Rightarrow> Some (l\<lparr>arg_end := addr\<rparr>)
      | SET_ENV_START \<Rightarrow> Some (l\<lparr>env_start := addr\<rparr>)
      | SET_ENV_END \<Rightarrow> Some (l\<lparr>env_end := addr\<rparr>)
      | _ \<Rightarrow> None)"

text \<open>The part of \<^verbatim>\<open>prctl_set_mm\<close> that changes one address.\<close>

definition set_address :: "'l::len word mm_env \<Rightarrow> mm_opt \<Rightarrow> 'l word \<Rightarrow> 'l word mm \<Rightarrow> int \<times> 'l word mm" where
  "set_address k opt addr mm =
     (if addr \<ge> task_size k \<or> addr < mmap_min_addr k then (- EINVAL, mm)
      else
        (let vma = find_vma k (mmap mm) addr in
         case set_field opt (ucast addr) (convert ucast (layout mm)) of
           None \<Rightarrow> (- EINVAL, mm)
         | Some l \<Rightarrow>
            (let error = validate_prctl_map k \<lparr>wide_layout = l, auxv = 0, auxv_size = 0, exe_fd = -1\<rparr> in
             if error \<noteq> 0 then (error, mm)
             else if vma = None \<and> opt \<in> {SET_START_STACK, SET_ARG_START, SET_ARG_END, SET_ENV_START, SET_ENV_END}
             then (- EFAULT, mm)
             else (0, mm\<lparr>layout := convert ucast l\<rparr>))))"

definition prctl_set_mm ::
    "'l::len word mm_env \<Rightarrow> mm_opt \<Rightarrow> 'l word \<Rightarrow> 'l word \<Rightarrow> 'l word \<Rightarrow> 'l word mm \<Rightarrow> int \<times> 'l word mm" where
  "prctl_set_mm k opt addr arg4 arg5 mm =
     (if arg5 \<noteq> 0 \<or> arg4 \<noteq> 0 \<and> opt \<noteq> SET_AUXV \<and> opt \<noteq> SET_MAP \<and> opt \<noteq> SET_MAP_SIZE then (- EINVAL, mm)
      else if checkpoint_restore k \<and> (opt = SET_MAP \<or> opt = SET_MAP_SIZE) then prctl_set_mm_map k opt addr arg4 mm
      else if \<not> capable_resource k then (- EPERM, mm)
      else if opt = SET_EXE_FILE then prctl_set_mm_exe_file k (ucast addr) mm
      else if opt = SET_AUXV then prctl_set_auxv k addr arg4 mm
      else set_address k opt addr mm)"

section \<open>The layout\<close>

definition bounds_ok :: "'l::len word mm_env \<Rightarrow> 'l word layout \<Rightarrow> bool" where
  "bounds_ok k l \<longleftrightarrow>
     (\<forall>a \<in> set (offsets l). mmap_min_addr k \<le> a \<and> a < task_size k) \<and>
     start_code l < end_code l \<and> start_data l < end_data l \<and> start_brk l \<le> brk l \<and>
     arg_start l \<le> arg_end l \<and> env_start l \<le> env_end l \<and>
     check_data_rlimit k (brk l) (start_brk l) (end_data l) (start_data l) = 0"

definition layout_ok :: "'l::len word mm_env \<Rightarrow> 'l word layout \<Rightarrow> bool" where
  "layout_ok k l \<longleftrightarrow> bounds_ok k l \<and> end_data l < start_brk l"

lemma convert_fields [simp]:
  "start_code (convert f l) = f (start_code l)" "end_code (convert f l) = f (end_code l)"
  "start_data (convert f l) = f (start_data l)" "end_data (convert f l) = f (end_data l)"
  "start_brk (convert f l) = f (start_brk l)" "brk (convert f l) = f (brk l)"
  "start_stack (convert f l) = f (start_stack l)" "arg_start (convert f l) = f (arg_start l)"
  "arg_end (convert f l) = f (arg_end l)" "env_start (convert f l) = f (env_start l)" "env_end (convert f l) = f (env_end l)"
  by (simp_all add: convert_def)

lemma offsets_convert: "offsets (convert f l) = map f (offsets l)"
  by (simp add: offsets_def)

lemma set_field_convert: "set_field opt (f a) (convert f l) = map_option (convert f) (set_field opt a l)"
  by (simp add: set_field_def convert_def split: mm_opt.split)

lemma ucast_wider: "LENGTH('a) \<le> LENGTH('b) \<Longrightarrow> ucast (ucast w :: 'b::len word) = w" for w :: "'a::len word"
  by (rule bit_word_eqI) (simp add: bit_ucast_iff)

lemma unat_wider: "LENGTH('a) \<le> LENGTH('b) \<Longrightarrow> unat (ucast v :: 'b::len word) = unat v" for v :: "'a::len word"
  using order_less_le_trans [OF unsigned_less [of v] power_increasing [of "LENGTH('a)" "LENGTH('b)" "2 :: nat"]]
  by (simp add: unsigned_ucast_eq take_bit_nat_eq_self)

lemma ucast_le: "LENGTH('a) \<le> LENGTH('b) \<Longrightarrow> (ucast v :: 'b::len word) \<le> ucast w \<longleftrightarrow> v \<le> w" for v w :: "'a::len word"
  by (simp only: word_le_nat_alt unat_wider)

text \<open>The fields of the wide structure are those of a layout of the machine.\<close>

definition narrow :: "'l::len itself \<Rightarrow> 64 word layout \<Rightarrow> bool" where
  "narrow _ l \<longleftrightarrow> convert ucast (convert ucast l :: 'l word layout) = l"

lemma narrow_64: "LENGTH('l) = 64 \<Longrightarrow> narrow TYPE('l::len) l"
  by (simp add: narrow_def ucast_wider convert_def)

lemma validated_layout:
  fixes k :: "'l::len word mm_env"
  assumes "validate_prctl_map k m = 0" "narrow TYPE('l) (wide_layout m)" "LENGTH('l) \<le> 64"
  shows "layout_ok k (convert ucast (wide_layout m))"
proof -
  let ?l = "convert ucast (wide_layout m) :: 'l word layout"
  have w: "wide_layout m = convert ucast ?l" using assms(2) by (simp add: narrow_def)
  have le: "(ucast v :: 64 word) \<le> ucast w \<longleftrightarrow> v \<le> w" for v w :: "'l word" using assms(3) by (simp add: ucast_le)
  have range: "\<forall>a \<in> set (offsets (wide_layout m)). \<not> (ucast a \<ge> task_size k \<or> ucast a < mmap_min_addr k)"
    and order: "start_code ?l < end_code ?l \<and> start_data ?l < end_data ?l \<and> start_brk ?l \<le> brk ?l \<and>
      arg_start ?l \<le> arg_end ?l \<and> env_start ?l \<le> env_end ?l"
    and break: "\<not> (start_brk (wide_layout m) \<le> end_data (wide_layout m))"
    and limit: "check_data_rlimit k (brk ?l) (start_brk ?l) (end_data ?l) (start_data ?l) = 0"
    using assms(1) by (auto simp: validate_prctl_map_def Let_def list_ex_iff EINVAL_def simp del: convert_fields split: if_splits)
  have "end_data ?l < start_brk ?l" using break by (subst (asm) (1 2) w) (simp only: convert_fields le not_le)
  moreover have "\<forall>a \<in> set (offsets ?l). mmap_min_addr k \<le> a \<and> a < task_size k"
    using range by (auto simp: offsets_convert not_le not_less)
  ultimately show ?thesis using order limit by (simp add: layout_ok_def bounds_ok_def)
qed

definition still_mapped :: "'w mm \<Rightarrow> kfile \<Rightarrow> bool" where
  "still_mapped mm old \<longleftrightarrow> (\<exists>vma \<in> set (mmap mm). \<exists>f. vm_file vma = Some f \<and> f_path f = f_path old)"

lemma exe_file_cases:
  obtains (refused) e where "e \<noteq> 0" "prctl_set_mm_exe_file k fd mm = (e, mm)"
  | (set) exe where "regular exe" "\<not> noexec exe" "exec_permission exe = 0" "\<not> exe_file_changed mm"
      "\<And>old. exe_file mm = Some old \<Longrightarrow> \<not> still_mapped mm old"
      "prctl_set_mm_exe_file k fd mm = (0, mm\<lparr>exe_file := Some exe, exe_file_changed := True\<rparr>)"
proof -
  have "(\<exists>e. e \<noteq> 0 \<and> prctl_set_mm_exe_file k fd mm = (e, mm)) \<or>
    (\<exists>exe. regular exe \<and> \<not> noexec exe \<and> exec_permission exe = 0 \<and> \<not> exe_file_changed mm \<and>
      (\<forall>old. exe_file mm = Some old \<longrightarrow> \<not> still_mapped mm old) \<and>
      prctl_set_mm_exe_file k fd mm = (0, mm\<lparr>exe_file := Some exe, exe_file_changed := True\<rparr>))"
    by (auto simp: prctl_set_mm_exe_file_def still_mapped_def list_ex_iff errno_defs split: option.split)
  then show ?thesis using refused set by blast
qed

text \<open>A call that takes a whole structure changes nothing, or checks it and stores it.\<close>

definition auxv_stored :: "'l::len word mm_env \<Rightarrow> 'l word mm \<Rightarrow> 8 word list \<Rightarrow> bool" where
  "auxv_stored k mm v \<longleftrightarrow> v = saved_auxv mm \<or> (\<exists>bytes. length bytes = auxv_bytes k \<and> v = end_auxv k bytes)"

lemma auxv_stored_same: "auxv_stored k mm (saved_auxv mm)"
  by (simp add: auxv_stored_def)

lemma auxv_stored_new: "length bytes = auxv_bytes k \<Longrightarrow> auxv_stored k mm (end_auxv k bytes)"
  by (auto simp: auxv_stored_def)

lemma length_copy: "copy_from_user k addr n = Some bytes \<Longrightarrow> length bytes = n"
proof -
  have "those xs = Some ys \<Longrightarrow> length ys = length xs" for xs :: "8 word option list" and ys
    by (induction xs arbitrary: ys) (auto split: option.splits)
  then show "copy_from_user k addr n = Some bytes \<Longrightarrow> length bytes = n" by (fastforce simp: copy_from_user_def)
qed

lemma store_map_cases:
  assumes "validate_prctl_map k m = 0"
  obtains (refused) e where "e \<noteq> 0" "store_map k m mm = (e, mm)"
  | (set) mm' v where "auxv_stored k mm v"
      "mm' = mm \<or> exe_fd m \<noteq> -1 \<and> prctl_set_mm_exe_file k (exe_fd m) mm = (0, mm')"
      "store_map k m mm = (0, mm'\<lparr>layout := convert ucast (wide_layout m), saved_auxv := v\<rparr>)"
proof -
  let ?n = "unat (auxv_size m)" and ?u = "copy_from_user k (auxv m) (unat (auxv_size m))"
  let ?v = "\<lambda>mm. if ?n \<noteq> 0 then end_auxv k (the ?u @ replicate (auxv_bytes k - ?n) 0) else saved_auxv mm"
  obtain e mm' where f: "(if exe_fd m \<noteq> -1 then prctl_set_mm_exe_file k (exe_fd m) mm else (0, mm)) = (e, mm')"
    by fastforce
  have r: "store_map k m mm = (if ?n \<noteq> 0 \<and> ?u = None then (- EFAULT, mm) else if e \<noteq> 0 then (e, mm')
      else (0, mm'\<lparr>layout := convert ucast (wide_layout m), saved_auxv := ?v mm'\<rparr>))"
    unfolding store_map_def Let_def f prod.case ..
  have same: "saved_auxv mm' = saved_auxv mm" and failed: "e \<noteq> 0 \<Longrightarrow> mm' = mm"
    using f by (cases rule: exe_file_cases [of k "exe_fd m" mm]; auto split: if_splits)+
  show ?thesis
  proof (cases "?n \<noteq> 0 \<and> ?u = None")
    case True
    then show ?thesis using r refused [of "- EFAULT"] by (simp only: if_True) (simp add: EFAULT_def)
  next
    case ok: False
    have "?n \<le> auxv_bytes k" using assms by (auto simp: validate_prctl_map_def Let_def EINVAL_def split: if_splits)
    then have len: "length (the ?u @ replicate (auxv_bytes k - ?n) 0) = auxv_bytes k" if "?n \<noteq> 0"
      using that ok length_copy [of k "auxv m" ?n] by auto
    have v: "auxv_stored k mm (?v mm')"
    proof (cases "?n = 0")
      case False
      then show ?thesis using auxv_stored_new [OF len] by simp
    qed (simp add: same auxv_stored_same)
    show ?thesis
    proof (cases "e = 0")
      case True
      then have "store_map k m mm = (0, mm'\<lparr>layout := convert ucast (wide_layout m), saved_auxv := ?v mm'\<rparr>)"
        using r ok by (simp only: if_False) simp
      moreover have "mm' = mm \<or> exe_fd m \<noteq> -1 \<and> prctl_set_mm_exe_file k (exe_fd m) mm = (0, mm')"
        using f True by (auto split: if_splits)
      ultimately show ?thesis using set [OF v] by blast
    next
      case False
      then have "store_map k m mm = (e, mm)" using r ok failed by (simp only: if_False) simp
      then show ?thesis using refused False by blast
    qed
  qed
qed

lemma map_cases:
  obtains (refused) e where "e \<noteq> 0 \<or> opt = SET_MAP_SIZE" "prctl_set_mm_map k opt addr sz mm = (e, mm)"
  | (set) m mm' v where "validate_prctl_map k m = 0" "auxv_stored k mm v"
      "mm' = mm \<or> exe_fd m \<noteq> -1 \<and> prctl_set_mm_exe_file k (exe_fd m) mm = (0, mm')"
      "prctl_set_mm_map k opt addr sz mm = (0, mm'\<lparr>layout := convert ucast (wide_layout m), saved_auxv := v\<rparr>)"
proof (cases "opt = SET_MAP_SIZE \<or> sz \<noteq> map_size k \<or> read_map k addr = None \<or>
    validate_prctl_map k (the (read_map k addr)) \<noteq> 0")
  case True
  then have "\<exists>e. (e \<noteq> 0 \<or> opt = SET_MAP_SIZE) \<and> prctl_set_mm_map k opt addr sz mm = (e, mm)"
    by (cases "read_map k addr") (auto simp: prctl_set_mm_map_def errno_defs)
  then show ?thesis using refused by blast
next
  case False
  then obtain m where m: "read_map k addr = Some m" "validate_prctl_map k m = 0" by auto
  then have "prctl_set_mm_map k opt addr sz mm = store_map k m mm" using False by (simp add: prctl_set_mm_map_def)
  then show ?thesis using refused set [OF m(2)] by (cases rule: store_map_cases [OF m(2), of mm]) metis+
qed

lemma set_address_cases:
  obtains (refused) e where "e \<noteq> 0" "set_address k opt addr mm = (e, mm)"
  | (set) l where "set_field opt (ucast addr) (convert ucast (layout mm)) = Some l"
      "validate_prctl_map k \<lparr>wide_layout = l, auxv = 0, auxv_size = 0, exe_fd = -1\<rparr> = 0"
      "set_address k opt addr mm = (0, mm\<lparr>layout := convert ucast l\<rparr>)"
proof (cases "addr \<ge> task_size k \<or> addr < mmap_min_addr k \<or> set_field opt (ucast addr) (convert ucast (layout mm)) = (None :: 64 word layout option)")
  case True
  then have "set_address k opt addr mm = (- EINVAL, mm)" by (auto simp: set_address_def)
  then show ?thesis using refused by (simp add: EINVAL_def)
next
  case False
  then obtain l :: "64 word layout" where l: "set_field opt (ucast addr) (convert ucast (layout mm)) = Some l" by blast
  let ?e = "validate_prctl_map k \<lparr>wide_layout = l, auxv = 0, auxv_size = 0, exe_fd = -1\<rparr>"
  have "set_address k opt addr mm = (if ?e \<noteq> 0 then (?e, mm)
      else if find_vma k (mmap mm) addr = None \<and> opt \<in> {SET_START_STACK, SET_ARG_START, SET_ARG_END, SET_ENV_START, SET_ENV_END}
      then (- EFAULT, mm) else (0, mm\<lparr>layout := convert ucast l\<rparr>))"
    using False l by (simp only: set_address_def Let_def option.case if_False de_Morgan_disj not_False_eq_True simp_thms)
  then show ?thesis using refused set [OF l] by (metis EFAULT_def neg_equal_0_iff_equal zero_neq_numeral)
qed

lemma prctl_set_mm_cases:
  obtains (refused) e where "e \<noteq> 0" "prctl_set_mm k opt addr arg4 arg5 mm = (e, mm)"
  | (map) "checkpoint_restore k" "prctl_set_mm k opt addr arg4 arg5 mm = prctl_set_mm_map k opt addr arg4 mm"
  | (exefile) "capable_resource k" "prctl_set_mm k opt addr arg4 arg5 mm = prctl_set_mm_exe_file k (ucast addr) mm"
  | (auxv) "prctl_set_mm k opt addr arg4 arg5 mm = prctl_set_auxv k addr arg4 mm"
  | (address) "prctl_set_mm k opt addr arg4 arg5 mm = set_address k opt addr mm"
proof -
  let ?p = "prctl_set_mm k opt addr arg4 arg5 mm"
  have "(\<exists>e. e \<noteq> 0 \<and> ?p = (e, mm)) \<or> checkpoint_restore k \<and> ?p = prctl_set_mm_map k opt addr arg4 mm \<or>
    capable_resource k \<and> ?p = prctl_set_mm_exe_file k (ucast addr) mm \<or> ?p = prctl_set_auxv k addr arg4 mm \<or>
    ?p = set_address k opt addr mm"
    by (simp add: prctl_set_mm_def errno_defs)
  then show ?thesis using that by blast
qed

text \<open>A call by its arguments: the option and the three numbers.\<close>

type_synonym 'w mm_call = "mm_opt \<times> 'w \<times> 'w \<times> 'w"

definition mm_step :: "'l::len word mm_env \<Rightarrow> 'l word mm_call \<Rightarrow> 'l word mm \<Rightarrow> 'l word mm" where
  "mm_step k c mm = (let (opt, addr, arg4, arg5) = c in snd (prctl_set_mm k opt addr arg4 arg5 mm))"

definition wide_enough :: "'l::len word mm_env \<Rightarrow> bool" where
  "wide_enough k \<longleftrightarrow> LENGTH('l) \<le> 64 \<and> (checkpoint_restore k \<longrightarrow> LENGTH('l) = 64)"

lemma single_layout:
  fixes k :: "'l::len word mm_env" and addr :: "'l word" and mm :: "'l word mm"
  assumes "LENGTH('l) \<le> 64" "set_field opt (ucast addr) (convert ucast (layout mm)) = Some l"
    "validate_prctl_map k \<lparr>wide_layout = l, auxv = 0, auxv_size = 0, exe_fd = -1\<rparr> = 0"
  shows "layout_ok k (convert ucast l)"
proof -
  obtain l' :: "'l word layout" where "l = convert ucast l'" 
    using assms(2) set_field_convert [of opt "ucast :: 'l word \<Rightarrow> 64 word" addr "layout mm"] by auto
  then have "narrow TYPE('l) l" using assms(1) by (simp add: narrow_def ucast_wider convert_def)
  then show ?thesis using validated_layout [OF assms(3)] assms(1) by simp
qed

lemma auxv_layout: "layout (snd (prctl_set_auxv k addr len mm)) = layout mm"
  by (simp add: prctl_set_auxv_def split: option.split)

lemma call_layout:
  fixes k :: "'l::len word mm_env"
  assumes "wide_enough k"
  shows "layout (snd (prctl_set_mm k opt addr arg4 arg5 mm)) = layout mm \<or>
    layout_ok k (layout (snd (prctl_set_mm k opt addr arg4 arg5 mm)))"
proof -
  have w: "LENGTH('l) \<le> 64" using assms by (simp add: wide_enough_def)
  have e: "layout (snd (prctl_set_mm_exe_file k fd mm)) = layout mm" for fd
    by (rule exe_file_cases [of k fd mm]) simp_all
  have m: "layout (snd (prctl_set_mm_map k opt addr arg4 mm)) = layout mm \<or>
      layout_ok k (layout (snd (prctl_set_mm_map k opt addr arg4 mm)))" if "checkpoint_restore k"
  proof (rule map_cases [of opt k addr arg4 mm])
    fix m mm' v
    assume a: "validate_prctl_map k m = 0"
      "prctl_set_mm_map k opt addr arg4 mm = (0, mm'\<lparr>layout := convert ucast (wide_layout m), saved_auxv := v\<rparr>)"
    have "narrow TYPE('l) (wide_layout m)" using assms that by (intro narrow_64) (simp add: wide_enough_def)
    then show ?thesis using validated_layout [OF a(1) _ w] a(2) by simp
  qed simp
  show ?thesis
  proof (rule prctl_set_mm_cases [of k opt addr arg4 arg5 mm])
    assume "prctl_set_mm k opt addr arg4 arg5 mm = set_address k opt addr mm"
    then show ?thesis by (cases rule: set_address_cases [of k opt addr mm]) (simp_all add: single_layout [OF w])
  qed (use m in \<open>simp_all add: e auxv_layout\<close>)
qed

lemma step_layout:
  "wide_enough k \<Longrightarrow> layout (mm_step k c mm) = layout mm \<or> layout_ok k (layout (mm_step k c mm))"
  by (cases c) (simp add: mm_step_def call_layout)

interpretation layouts: kept_by_calls "mm_step k"
    "\<lambda>mm. wide_enough k \<longrightarrow> layout mm = l \<or> layout_ok k (layout mm)" for k :: "'l::len word mm_env" and l
  by unfold_locales (metis step_layout)

section \<open>The auxiliary vector\<close>

definition auxv_ended :: "'l::len word mm_env \<Rightarrow> 'l word mm \<Rightarrow> bool" where
  "auxv_ended k mm \<longleftrightarrow> length (saved_auxv mm) = auxv_bytes k \<and>
     (\<forall>i < auxv_bytes k. auxv_bytes k - 2 * (LENGTH('l) div 8) \<le> i \<longrightarrow> saved_auxv mm ! i = 0)"

lemma length_end_auxv [simp]: "length (end_auxv k bytes) = length bytes"
  by (simp add: end_auxv_def Let_def)

lemma nth_end_auxv:
  fixes k :: "'l::len word mm_env"
  shows "i < length bytes \<Longrightarrow> auxv_bytes k - 2 * (LENGTH('l) div 8) \<le> i \<Longrightarrow> end_auxv k bytes ! i = 0"
  by (simp add: end_auxv_def Let_def nth_append)

lemma auxv_stored_ended: "auxv_ended k mm \<Longrightarrow> auxv_stored k mm v \<Longrightarrow> saved_auxv mm' = v \<Longrightarrow> auxv_ended k mm'"
  by (auto simp: auxv_ended_def auxv_stored_def nth_end_auxv)

lemma call_auxv:
  assumes "auxv_ended k mm"
  shows "auxv_ended k (snd (prctl_set_mm k opt addr arg4 arg5 mm))"
proof -
  have same: "auxv_ended k (mm\<lparr>layout := l\<rparr>)" for l using assms by (simp add: auxv_ended_def)
  have e: "auxv_ended k (snd (prctl_set_mm_exe_file k fd mm))" for fd
    by (rule exe_file_cases [of k fd mm]) (use assms in \<open>simp_all add: auxv_ended_def\<close>)
  have m: "auxv_ended k (snd (prctl_set_mm_map k opt addr arg4 mm))"
    by (rule map_cases [of opt k addr arg4 mm]) (use assms in \<open>simp_all add: auxv_stored_ended\<close>)
  have a: "auxv_ended k (snd (prctl_set_auxv k addr arg4 mm))"
    using assms length_copy [of k addr "unat arg4"]
    by (auto simp: prctl_set_auxv_def auxv_ended_def nth_blit nth_end_auxv split: option.split)
  show ?thesis
  proof (rule prctl_set_mm_cases [of k opt addr arg4 arg5 mm])
    assume "prctl_set_mm k opt addr arg4 arg5 mm = set_address k opt addr mm"
    then show ?thesis using assms same by (cases rule: set_address_cases [of k opt addr mm]) simp_all
  qed (use assms e m a in simp_all)
qed

interpretation vectors: kept_by_calls "mm_step k" "auxv_ended k" for k :: "'l::len word mm_env"
  by unfold_locales (simp add: mm_step_def call_auxv split: prod.split)


section \<open>The executable\<close>

definition local_root :: "'w mm_env \<Rightarrow> bool" where
  "local_root k \<longleftrightarrow> cur_uid k = kuid_of k 0 \<and> cur_gid k = kgid_of k 0"

text \<open>When and by what the executable of a process is replaced.\<close>

definition allowed_replacement :: "'l::len word mm_env \<Rightarrow> 'l word mm \<Rightarrow> 'l word mm \<Rightarrow> bool" where
  "allowed_replacement k mm mm' \<longleftrightarrow>
     \<not> exe_file_changed mm \<and> exe_file_changed mm' \<and>
     (\<exists>exe. exe_file mm' = Some exe \<and> regular exe \<and> \<not> noexec exe \<and> exec_permission exe = 0) \<and>
     (\<forall>old. exe_file mm = Some old \<longrightarrow> \<not> still_mapped mm old) \<and> (capable_resource k \<or> local_root k)"

definition same_exe :: "'w mm \<Rightarrow> 'w mm \<Rightarrow> bool" where
  "same_exe mm mm' \<longleftrightarrow> exe_file mm' = exe_file mm \<and> exe_file_changed mm' = exe_file_changed mm"

lemma exe_file_replacement:
  assumes "capable_resource k \<or> local_root k"
  shows "same_exe mm (snd (prctl_set_mm_exe_file k fd mm)) \<or> allowed_replacement k mm (snd (prctl_set_mm_exe_file k fd mm))"
  using assms by (cases rule: exe_file_cases [of k fd mm]) (auto simp: same_exe_def allowed_replacement_def)

lemma call_exe:
  "same_exe mm (mm_step k c mm) \<or> allowed_replacement k mm (mm_step k c mm)"
proof -
  obtain opt addr arg4 arg5 where c: "c = (opt, addr, arg4, arg5)" by (cases c)
  have m: "same_exe mm (snd (prctl_set_mm_map k opt addr arg4 mm)) \<or>
      allowed_replacement k mm (snd (prctl_set_mm_map k opt addr arg4 mm))"
  proof (rule map_cases [of opt k addr arg4 mm])
    fix m mm' v
    assume a: "validate_prctl_map k m = 0" "mm' = mm \<or> exe_fd m \<noteq> -1 \<and> prctl_set_mm_exe_file k (exe_fd m) mm = (0, mm')"
      "prctl_set_mm_map k opt addr arg4 mm = (0, mm'\<lparr>layout := convert ucast (wide_layout m), saved_auxv := v\<rparr>)"
    have "exe_fd m \<noteq> -1 \<Longrightarrow> local_root k"
      using a(1) by (auto simp: validate_prctl_map_def Let_def EINVAL_def local_root_def split: if_splits)
    then have "same_exe mm mm' \<or> allowed_replacement k mm mm'"
      using a(2) exe_file_replacement [of k mm "exe_fd m"] by (auto simp: same_exe_def)
    then show ?thesis using a(3) by (simp add: same_exe_def allowed_replacement_def)
  qed (simp add: same_exe_def)
  have a: "same_exe mm (snd (prctl_set_auxv k addr arg4 mm))"
    by (simp add: prctl_set_auxv_def same_exe_def split: option.split)
  have s: "same_exe mm (snd (set_address k opt addr mm))"
    by (cases rule: set_address_cases [of k opt addr mm]) (simp_all add: same_exe_def)
  have "same_exe mm (snd (prctl_set_mm k opt addr arg4 arg5 mm)) \<or>
      allowed_replacement k mm (snd (prctl_set_mm k opt addr arg4 arg5 mm))"
    by (cases rule: prctl_set_mm_cases [of k opt addr arg4 arg5 mm])
      (use m a s exe_file_replacement [of k mm "ucast addr"] in \<open>simp_all add: same_exe_def\<close>)
  then show ?thesis by (simp add: c mm_step_def)
qed

interpretation changed_executable: kept_by_calls "mm_step k" "\<lambda>mm. exe_file_changed mm \<and> exe_file mm = exe"
  for k :: "'l::len word mm_env" and exe
  by unfold_locales (metis call_exe same_exe_def allowed_replacement_def)

text \<open>C26: the executable of a process is replaced at most once: a call that replaces it finds it unreplaced and records the
  replacement, and afterwards no sequence of calls changes it. The new file is a regular file the caller may
  execute, the old one is no longer mapped, and the caller has the capability or is root in its name space.\<close>

theorem exe_file_replaced_once:
  fixes k :: "'l::len word mm_env"
  shows "(exe_file_changed mm \<longrightarrow> exe_file (fold (mm_step k) cs mm) = exe_file mm) \<and>
    (exe_file (mm_step k c mm) \<noteq> exe_file mm \<longrightarrow> allowed_replacement k mm (mm_step k c mm))"
  using changed_executable.sequence_keeps call_exe same_exe_def by metis

section \<open>Wide fields on a 32-bit machine\<close>

text \<open>A structure whose fields for the heap have a bit that an address of the machine has no room for.\<close>

definition widened :: "32 word layout \<Rightarrow> 32 word prctl_mm_map" where
  "widened l = \<lparr>wide_layout = (convert ucast l)\<lparr>start_brk := ucast (start_brk l) + 0x100000000, brk := ucast (brk l) + 0x100000000\<rparr>,
     auxv = 0, auxv_size = 0, exe_fd = -1\<rparr>"

lemma unat_32: "unat v < 0x100000000" for v :: "32 word"
proof -
  have "unat v < 2 ^ LENGTH(32)" by (rule unsigned_less)
  then show ?thesis by simp
qed

lemma unat_widened: "unat (ucast v + 0x100000000 :: 64 word) = unat v + 0x100000000" for v :: "32 word"
  using unat_32 [of v] by (simp add: unat_word_ariths unat_wider)

lemma ucast_widened: "ucast (ucast v + 0x100000000 :: 64 word) = v" for v :: "32 word"
proof -
  have "unat (ucast (ucast v + 0x100000000 :: 64 word) :: 32 word) = take_bit 32 (unat v + 0x100000000)"
    by (simp only: unsigned_ucast_eq unat_widened) simp
  also have "\<dots> = unat v" using unat_32 [of v] by (simp add: take_bit_eq_mod)
  finally show ?thesis by (rule unsigned_word_eqI)
qed

lemma widened_above: "ucast e < (ucast v + 0x100000000 :: 64 word)" for v e :: "32 word"
  using unat_32 [of e] unfolding word_less_nat_alt unat_widened by (simp add: unat_wider)

lemma widened_layout: "convert ucast (wide_layout (widened l)) = l"
  by (simp add: widened_def convert_def ucast_widened ucast_wider)

lemma widened_accepted:
  assumes "bounds_ok k l"
  shows "validate_prctl_map k (widened l) = 0"
proof -
  let ?w = "wide_layout (widened l)"
  have "map ucast (offsets ?w) = offsets l" by (simp only: offsets_convert [symmetric] widened_layout)
  then have "\<not> list_ex (\<lambda>val. ucast val \<ge> task_size k \<or> ucast val < mmap_min_addr k) (offsets ?w)"
    using assms unfolding bounds_ok_def list_ex_iff by (metis imageI list.set_map not_less)
  moreover have "\<not> (start_brk ?w \<le> end_data ?w \<or> brk ?w \<le> end_data ?w)"
    by (simp add: widened_def not_le widened_above)
  moreover have "auxv_size (widened l) = 0" "exe_fd (widened l) = -1" by (simp_all add: widened_def)
  ultimately show ?thesis
    using assms unfolding validate_prctl_map_def Let_def widened_layout bounds_ok_def by simp
qed

text \<open>C29: on a 32-bit machine the check of the heap's place does not hold what it says: \<^verbatim>\<open>validate_prctl_map\<close> compares the
  64-bit fields of the caller's structure, the range check looks at their low halves, and the low halves are stored. Every
  layout that is within bounds, also one whose heap begins inside the data, can be set by any process.\<close>

theorem wide_fields_bypass_check:
  fixes k :: "32 word mm_env"
  assumes "bounds_ok k l" "checkpoint_restore k" "read_map k addr = Some (widened l)"
  shows "prctl_set_mm k SET_MAP addr (map_size k) 0 mm = (0, mm\<lparr>layout := l\<rparr>)"
proof -
  have "store_map k (widened l) mm = (0, mm\<lparr>layout := convert ucast (wide_layout (widened l)), saved_auxv := saved_auxv mm\<rparr>)"
    by (simp add: store_map_def widened_def)
  then have "store_map k (widened l) mm = (0, mm\<lparr>layout := l\<rparr>)" unfolding widened_layout by simp
  then show ?thesis
    using assms widened_accepted [OF assms(1)] by (simp add: prctl_set_mm_def prctl_set_mm_map_def)
qed

definition heap_in_data :: "32 word layout" where
  "heap_in_data = \<lparr>start_code = 0x1000, end_code = 0x2000, start_data = 0x3000, end_data = 0x9000, start_brk = 0x4000,
     brk = 0x5000, start_stack = 0xA000, arg_start = 0xB000, arg_end = 0xB100, env_start = 0xB100, env_end = 0xB200\<rparr>"

definition example_mm_env :: "32 word mm_env" where
  "example_mm_env = \<lparr>task_size = 0xC0000000, mmap_min_addr = 0x1000, check_data_rlimit = (\<lambda>_ _ _ _. 0), cur_uid = 1000,
     cur_gid = 1000, kuid_of = id, kgid_of = id, capable_resource = False, fdget = (\<lambda>_. None), find_vma = (\<lambda>_ _. None),
     read_map = (\<lambda>_. Some (widened heap_in_data)), read_byte = (\<lambda>_. None), put_user = (\<lambda>_. True), map_size = 100,
     at_vector_size = 44, checkpoint_restore = True\<rparr>"

definition example_mm :: "32 word mm" where
  "example_mm = \<lparr>layout = heap_in_data\<lparr>start_brk := 0x9100, brk := 0x9200\<rparr>, saved_auxv = replicate 176 0, exe_file = None,
     exe_file_changed = False, mmap = []\<rparr>"

theorem wide_fields_witness:
  "\<exists>mm'. prctl_set_mm example_mm_env SET_MAP 0 100 0 example_mm = (0, mm') \<and> layout_ok example_mm_env (layout example_mm) \<and>
     \<not> layout_ok example_mm_env (layout mm')"
proof -
  have b: "bounds_ok example_mm_env heap_in_data" by (simp add: bounds_ok_def offsets_def heap_in_data_def example_mm_env_def)
  have "\<not> layout_ok example_mm_env heap_in_data" by (simp add: layout_ok_def heap_in_data_def)
  moreover have "layout_ok example_mm_env (layout example_mm)"
    by (simp add: layout_ok_def bounds_ok_def offsets_def heap_in_data_def example_mm_env_def example_mm_def)
  moreover have "prctl_set_mm example_mm_env SET_MAP 0 100 0 example_mm = (0, example_mm\<lparr>layout := heap_in_data\<rparr>)"
    using wide_fields_bypass_check [OF b, of 0 example_mm] by (simp add: example_mm_env_def)
  ultimately show ?thesis by simp
qed

section \<open>Examples\<close>

definition example_file :: kfile where
  "example_file = \<lparr>f_path = ''/bin/true'', regular = True, noexec = False, exec_permission = 0\<rparr>"

definition capable_mm_env :: "32 word mm_env" where
  "capable_mm_env = example_mm_env\<lparr>capable_resource := True, checkpoint_restore := False, fdget := (\<lambda>_. Some example_file)\<rparr>"

lemma example_layout_ok: "layout_ok example_mm_env (layout example_mm)" "layout_ok capable_mm_env (layout example_mm)"
  by (simp_all add: layout_ok_def bounds_ok_def offsets_def heap_in_data_def example_mm_env_def capable_mm_env_def example_mm_def)


theorem exe_file_witness:
  "allowed_replacement capable_mm_env example_mm (mm_step capable_mm_env (SET_EXE_FILE, 3, 0, 0) example_mm) \<and>
   exe_file (fold (mm_step capable_mm_env) [(SET_EXE_FILE, 3, 0, 0)] (example_mm\<lparr>exe_file_changed := True\<rparr>)) = None"
proof -
  have n: "exe_file example_mm = None" by (simp add: example_mm_def)
  have "exe_file (mm_step capable_mm_env (SET_EXE_FILE, 3, 0, 0) example_mm) = Some example_file"
    by (simp add: mm_step_def prctl_set_mm_def prctl_set_mm_exe_file_def capable_mm_env_def example_mm_env_def example_mm_def
        example_file_def)
  then have c: "exe_file (mm_step capable_mm_env (SET_EXE_FILE, 3, 0, 0) example_mm) \<noteq> exe_file example_mm" using n by simp
  have "allowed_replacement capable_mm_env example_mm (mm_step capable_mm_env (SET_EXE_FILE, 3, 0, 0) example_mm)"
    using exe_file_replaced_once [of example_mm capable_mm_env "[]" "(SET_EXE_FILE, 3, 0, 0)"] c by blast
  moreover have "exe_file (fold (mm_step capable_mm_env) [(SET_EXE_FILE, 3, 0, 0)] (example_mm\<lparr>exe_file_changed := True\<rparr>)) =
      exe_file (example_mm\<lparr>exe_file_changed := True\<rparr>)"
    using exe_file_replaced_once [of "example_mm\<lparr>exe_file_changed := True\<rparr>" capable_mm_env "[(SET_EXE_FILE, 3, 0, 0)]" undefined]
    by simp
  ultimately show ?thesis using n by simp
qed

lemma prctl_set_mm_atomic:
  "fst (prctl_set_mm k opt addr arg4 arg5 mm) \<noteq> 0 \<Longrightarrow> snd (prctl_set_mm k opt addr arg4 arg5 mm) = mm"
proof (rule prctl_set_mm_cases [of k opt addr arg4 arg5 mm])
  assume "fst (prctl_set_mm k opt addr arg4 arg5 mm) \<noteq> 0"
    "prctl_set_mm k opt addr arg4 arg5 mm = prctl_set_mm_map k opt addr arg4 mm"
  then show ?thesis by (cases rule: map_cases [of opt k addr arg4 mm]) simp_all
next
  assume "fst (prctl_set_mm k opt addr arg4 arg5 mm) \<noteq> 0"
    "prctl_set_mm k opt addr arg4 arg5 mm = prctl_set_mm_exe_file k (ucast addr) mm"
  then show ?thesis by (cases rule: exe_file_cases [of k "ucast addr" mm]) simp_all
next
  assume "fst (prctl_set_mm k opt addr arg4 arg5 mm) \<noteq> 0" "prctl_set_mm k opt addr arg4 arg5 mm = set_address k opt addr mm"
  then show ?thesis by (cases rule: set_address_cases [of k opt addr mm]) simp_all
qed (auto simp: prctl_set_auxv_def split: option.splits if_splits)

end
