(* ===== verification/Prctl.thy ===== *)
theory Prctl
  imports Mm_Map
begin

text \<open>
  The call \<^verbatim>\<open>prctl\<close> of src/project-0/sys.c, option by option, over the part of a task it reads and writes (\<open>prctl_task\<close>). The
  options that only pass their arguments to a macro of the processor or to another file of the kernel are one
  constructor (\<open>ELSEWHERE\<close>); what these return is a parameter, as are the security module and user memory (\<open>prctl_env\<close>).
\<close>

section \<open>State\<close>

record 'w prctl_task =
  pdeath_signal :: 'w
  clear_child_tid :: 'w
  dumpable :: 'w
  comm :: "8 word list"
  timer_slack_ns :: 'w
  default_timer_slack_ns :: 'w
  pf_mce_process :: bool
  pf_mce_early :: bool
  is_child_subreaper :: bool
  no_new_privs :: bool
  vm_nohugepage :: bool
  task_mm :: "'w mm"

datatype prctl_option =
    PR_SET_PDEATHSIG | PR_GET_PDEATHSIG | PR_GET_DUMPABLE | PR_SET_DUMPABLE | PR_GET_TIMING | PR_SET_TIMING
  | PR_SET_NAME | PR_GET_NAME | PR_GET_TIMERSLACK | PR_SET_TIMERSLACK | PR_MCE_KILL | PR_MCE_KILL_GET | PR_SET_MM
  | PR_GET_TID_ADDRESS | PR_SET_CHILD_SUBREAPER | PR_GET_CHILD_SUBREAPER | PR_SET_NO_NEW_PRIVS | PR_GET_NO_NEW_PRIVS
  | PR_GET_THP_DISABLE | PR_SET_THP_DISABLE | PR_MPX_ENABLE_MANAGEMENT | PR_MPX_DISABLE_MANAGEMENT
  | PR_GET_SPECULATION_CTRL | PR_SET_SPECULATION_CTRL | ELSEWHERE nat | UNKNOWN

text \<open>What a call leaves in user memory.\<close>

datatype 'w out = Nothing | Number 'w | Name "8 word list"

record 'w prctl_env =
  security_task_prctl :: "prctl_option \<Rightarrow> 'w \<Rightarrow> 'w \<Rightarrow> 'w \<Rightarrow> 'w \<Rightarrow> int"
  nsig :: 'w
  strncpy_from_user :: "'w \<Rightarrow> nat \<Rightarrow> 8 word list option"
  writable :: "'w \<Rightarrow> bool"
  elsewhere :: "prctl_option \<Rightarrow> 'w \<Rightarrow> 'w \<Rightarrow> int"
  mm_opt_of :: "'w \<Rightarrow> mm_opt"
  mm_env :: "'w mm_env"

definition SUID_DUMP_DISABLE :: "'l::len word" where "SUID_DUMP_DISABLE = 0"
definition SUID_DUMP_USER :: "'l::len word" where "SUID_DUMP_USER = 1"
definition PR_TIMING_STATISTICAL :: "'l::len word" where "PR_TIMING_STATISTICAL = 0"
definition PR_MCE_KILL_CLEAR :: "'l::len word" where "PR_MCE_KILL_CLEAR = 0"
definition PR_MCE_KILL_SET :: "'l::len word" where "PR_MCE_KILL_SET = 1"
definition PR_MCE_KILL_LATE :: "'l::len word" where "PR_MCE_KILL_LATE = 0"
definition PR_MCE_KILL_EARLY :: "'l::len word" where "PR_MCE_KILL_EARLY = 1"
definition PR_MCE_KILL_DEFAULT :: "'l::len word" where "PR_MCE_KILL_DEFAULT = 2"

definition TASK_COMM_LEN :: nat where "TASK_COMM_LEN = 16"

section \<open>Operations\<close>

definition put :: "'l::len word prctl_env \<Rightarrow> 'l word \<Rightarrow> 'l word out \<Rightarrow> int \<times> 'l word out" where
  "put k addr v = (if writable k addr then (0, v) else (- EFAULT, Nothing))"

definition prctl_get_tid_address ::
    "'l::len word prctl_env \<Rightarrow> 'l word prctl_task \<Rightarrow> 'l word \<Rightarrow> int \<times> 'l word out" where
  "prctl_get_tid_address k me addr =
     (if checkpoint_restore (mm_env k) then put k addr (Number (clear_child_tid me)) else (- EINVAL, Nothing))"

definition arch_prctl_spec_ctrl_get :: "'l::len word \<Rightarrow> int" where
  "arch_prctl_spec_ctrl_get which = - EINVAL"

definition arch_prctl_spec_ctrl_set :: "'l::len word \<Rightarrow> 'l word \<Rightarrow> int" where
  "arch_prctl_spec_ctrl_set which ctrl = - EINVAL"

definition mce_kill :: "'l::len word \<Rightarrow> 'l word \<Rightarrow> 'l word \<Rightarrow> 'l word \<Rightarrow> 'l word prctl_task \<Rightarrow> int \<times> 'l word prctl_task" where
  "mce_kill arg2 arg3 arg4 arg5 me =
     (if or arg4 arg5 \<noteq> 0 then (- EINVAL, me)
      else if arg2 = PR_MCE_KILL_CLEAR then
        (if arg3 \<noteq> 0 then (- EINVAL, me) else (0, me\<lparr>pf_mce_process := False\<rparr>))
      else if arg2 = PR_MCE_KILL_SET then
        (let me = me\<lparr>pf_mce_process := True\<rparr> in
         if arg3 = PR_MCE_KILL_EARLY then (0, me\<lparr>pf_mce_early := True\<rparr>)
         else if arg3 = PR_MCE_KILL_LATE then (0, me\<lparr>pf_mce_early := False\<rparr>)
         else if arg3 = PR_MCE_KILL_DEFAULT then (0, me\<lparr>pf_mce_early := False, pf_mce_process := False\<rparr>)
         else (- EINVAL, me))
      else (- EINVAL, me))"

definition mce_kill_get :: "'l::len word \<Rightarrow> 'l word \<Rightarrow> 'l word \<Rightarrow> 'l word \<Rightarrow> 'l word prctl_task \<Rightarrow> int" where
  "mce_kill_get arg2 arg3 arg4 arg5 me =
     (if or (or (or arg2 arg3) arg4) arg5 \<noteq> 0 then - EINVAL
      else if pf_mce_process me then uint (if pf_mce_early me then PR_MCE_KILL_EARLY else PR_MCE_KILL_LATE :: 'l word)
      else uint (PR_MCE_KILL_DEFAULT :: 'l word))"

text \<open>An answer without an output, one without a change, and both.\<close>

abbreviation (input) answer :: "int \<Rightarrow> 't \<Rightarrow> int \<times> 'w out \<times> 't" where
  "answer r t \<equiv> (r, Nothing, t)"

definition prctl_switch ::
    "'l::len word prctl_env \<Rightarrow> prctl_option \<Rightarrow> 'l word \<Rightarrow> 'l word \<Rightarrow> 'l word \<Rightarrow> 'l word \<Rightarrow> 'l word prctl_task
      \<Rightarrow> int \<times> 'l word out \<times> 'l word prctl_task" where
  "prctl_switch k option arg2 arg3 arg4 arg5 me =
     (case option of
        PR_SET_PDEATHSIG \<Rightarrow> if arg2 > nsig k then answer (- EINVAL) me else answer 0 (me\<lparr>pdeath_signal := arg2\<rparr>)
      | PR_GET_PDEATHSIG \<Rightarrow> (let (e, out) = put k arg2 (Number (pdeath_signal me)) in (e, out, me))
      | PR_GET_DUMPABLE \<Rightarrow> answer (uint (dumpable me)) me
      | PR_SET_DUMPABLE \<Rightarrow>
          if arg2 \<noteq> SUID_DUMP_DISABLE \<and> arg2 \<noteq> SUID_DUMP_USER then answer (- EINVAL) me
          else answer 0 (me\<lparr>dumpable := arg2\<rparr>)
      | PR_GET_TIMING \<Rightarrow> answer (uint (PR_TIMING_STATISTICAL :: 'l word)) me
      | PR_SET_TIMING \<Rightarrow> if arg2 \<noteq> PR_TIMING_STATISTICAL then answer (- EINVAL) me else answer 0 me
      | PR_SET_NAME \<Rightarrow>
          (case strncpy_from_user k arg2 (TASK_COMM_LEN - 1) of
             None \<Rightarrow> answer (- EFAULT) me
           | Some name \<Rightarrow> answer 0 (me\<lparr>comm := name\<rparr>))
      | PR_GET_NAME \<Rightarrow>
          (let (e, out) = put k arg2 (Name (comm me @ replicate (TASK_COMM_LEN - length (comm me)) 0)) in (e, out, me))
      | PR_GET_TIMERSLACK \<Rightarrow> answer (sint (timer_slack_ns me)) me
      | PR_SET_TIMERSLACK \<Rightarrow>
          if arg2 \<le> 0 then answer 0 (me\<lparr>timer_slack_ns := default_timer_slack_ns me\<rparr>)
          else answer 0 (me\<lparr>timer_slack_ns := arg2\<rparr>)
      | PR_MCE_KILL \<Rightarrow> (let (e, me) = mce_kill arg2 arg3 arg4 arg5 me in answer e me)
      | PR_MCE_KILL_GET \<Rightarrow> answer (mce_kill_get arg2 arg3 arg4 arg5 me) me
      | PR_SET_MM \<Rightarrow>
          (let (e, mm) = prctl_set_mm (mm_env k) (mm_opt_of k arg2) arg3 arg4 arg5 (task_mm me) in
           answer e (me\<lparr>task_mm := mm\<rparr>))
      | PR_GET_TID_ADDRESS \<Rightarrow> (let (e, out) = prctl_get_tid_address k me arg2 in (e, out, me))
      | PR_SET_CHILD_SUBREAPER \<Rightarrow> answer 0 (me\<lparr>is_child_subreaper := (arg2 \<noteq> 0)\<rparr>)
      | PR_GET_CHILD_SUBREAPER \<Rightarrow>
          (let (e, out) = put k arg2 (Number (of_bool (is_child_subreaper me))) in (e, out, me))
      | PR_SET_NO_NEW_PRIVS \<Rightarrow>
          if arg2 \<noteq> 1 \<or> arg3 \<noteq> 0 \<or> arg4 \<noteq> 0 \<or> arg5 \<noteq> 0 then answer (- EINVAL) me
          else answer 0 (me\<lparr>no_new_privs := True\<rparr>)
      | PR_GET_NO_NEW_PRIVS \<Rightarrow>
          if arg2 \<noteq> 0 \<or> arg3 \<noteq> 0 \<or> arg4 \<noteq> 0 \<or> arg5 \<noteq> 0 then answer (- EINVAL) me
          else answer (of_bool (no_new_privs me)) me
      | PR_GET_THP_DISABLE \<Rightarrow>
          if arg2 \<noteq> 0 \<or> arg3 \<noteq> 0 \<or> arg4 \<noteq> 0 \<or> arg5 \<noteq> 0 then answer (- EINVAL) me
          else answer (of_bool (vm_nohugepage me)) me
      | PR_SET_THP_DISABLE \<Rightarrow>
          if arg3 \<noteq> 0 \<or> arg4 \<noteq> 0 \<or> arg5 \<noteq> 0 then answer (- EINVAL) me
          else answer 0 (me\<lparr>vm_nohugepage := (arg2 \<noteq> 0)\<rparr>)
      | PR_MPX_ENABLE_MANAGEMENT \<Rightarrow>
          if arg2 \<noteq> 0 \<or> arg3 \<noteq> 0 \<or> arg4 \<noteq> 0 \<or> arg5 \<noteq> 0 then answer (- EINVAL) me
          else answer (elsewhere k option arg2 arg3) me
      | PR_MPX_DISABLE_MANAGEMENT \<Rightarrow>
          if arg2 \<noteq> 0 \<or> arg3 \<noteq> 0 \<or> arg4 \<noteq> 0 \<or> arg5 \<noteq> 0 then answer (- EINVAL) me
          else answer (elsewhere k option arg2 arg3) me
      | PR_GET_SPECULATION_CTRL \<Rightarrow>
          if arg3 \<noteq> 0 \<or> arg4 \<noteq> 0 \<or> arg5 \<noteq> 0 then answer (- EINVAL) me
          else answer (arch_prctl_spec_ctrl_get arg2) me
      | PR_SET_SPECULATION_CTRL \<Rightarrow>
          if arg4 \<noteq> 0 \<or> arg5 \<noteq> 0 then answer (- EINVAL) me
          else answer (arch_prctl_spec_ctrl_set arg2 arg3) me
      | ELSEWHERE _ \<Rightarrow> answer (elsewhere k option arg2 arg3) me
      | UNKNOWN \<Rightarrow> answer (- EINVAL) me)"

definition prctl ::
    "'l::len word prctl_env \<Rightarrow> prctl_option \<Rightarrow> 'l word \<Rightarrow> 'l word \<Rightarrow> 'l word \<Rightarrow> 'l word \<Rightarrow> 'l word prctl_task
      \<Rightarrow> int \<times> 'l word out \<times> 'l word prctl_task" where
  "prctl k option arg2 arg3 arg4 arg5 me =
     (let error = security_task_prctl k option arg2 arg3 arg4 arg5 in
      if error \<noteq> - ENOSYS then answer error me else prctl_switch k option arg2 arg3 arg4 arg5 me)"

section \<open>Failing calls\<close>

lemma mce_kill_atomic:
  assumes "mce_kill arg2 arg3 arg4 arg5 me = (e, me')" "me' \<noteq> me" "e \<noteq> 0"
  shows "arg2 = PR_MCE_KILL_SET \<and> arg3 \<notin> {PR_MCE_KILL_EARLY, PR_MCE_KILL_LATE, PR_MCE_KILL_DEFAULT} \<and> e = - EINVAL \<and>
    me' = me\<lparr>pf_mce_process := True\<rparr>"
  using assms unfolding mce_kill_def Let_def by (auto split: if_splits)

lemma switch_mm:
  "prctl_switch k PR_SET_MM arg2 arg3 arg4 arg5 me =
     (let r = prctl_set_mm (mm_env k) (mm_opt_of k arg2) arg3 arg4 arg5 (task_mm me) in
      (fst r, Nothing, me\<lparr>task_mm := snd r\<rparr>))"
  by (simp add: prctl_switch_def Let_def split: prod.split)

lemma switch_mce_kill:
  "prctl_switch k PR_MCE_KILL arg2 arg3 arg4 arg5 me =
     (fst (mce_kill arg2 arg3 arg4 arg5 me), Nothing, snd (mce_kill arg2 arg3 arg4 arg5 me))"
  by (simp add: prctl_switch_def split: prod.split)

text \<open>The options that change the task.\<close>

definition changing :: "prctl_option \<Rightarrow> bool" where
  "changing opt \<longleftrightarrow> opt \<in> {PR_SET_PDEATHSIG, PR_SET_DUMPABLE, PR_SET_NAME, PR_SET_TIMERSLACK, PR_MCE_KILL, PR_SET_MM,
     PR_SET_CHILD_SUBREAPER, PR_SET_NO_NEW_PRIVS, PR_SET_THP_DISABLE}"

lemma reading_options: "\<not> changing opt \<Longrightarrow> snd (snd (prctl_switch k opt arg2 arg3 arg4 arg5 me)) = me"
  by (cases opt) (simp_all add: changing_def prctl_switch_def split: prod.split)

text \<open>C35: a \<^verbatim>\<open>prctl\<close> call that does not return 0 changes nothing, with one exception: \<^verbatim>\<open>PR_MCE_KILL_SET\<close> with a third
  argument it does not know reports \<^verbatim>\<open>EINVAL\<close>, but has set the flag of the task by then.\<close>

theorem prctl_atomic:
  assumes "prctl k opt arg2 arg3 arg4 arg5 me = (e, out, me')" "me' \<noteq> me" "e \<noteq> 0"
  shows "opt = PR_MCE_KILL \<and> arg2 = PR_MCE_KILL_SET \<and>
    arg3 \<notin> {PR_MCE_KILL_EARLY, PR_MCE_KILL_LATE, PR_MCE_KILL_DEFAULT} \<and> e = - EINVAL \<and>
    me' = me\<lparr>pf_mce_process := True\<rparr>"
proof -
  have s: "prctl_switch k opt arg2 arg3 arg4 arg5 me = (e, out, me')"
    using assms(1,2) by (auto simp: prctl_def Let_def split: if_splits)
  then have "changing opt" using reading_options [of opt k arg2 arg3 arg4 arg5 me] assms(2) by fastforce
  moreover have "opt \<noteq> PR_SET_MM"
  proof
    assume "opt = PR_SET_MM"
    then show False
      using s assms(2,3) prctl_set_mm_atomic [of "mm_env k" "mm_opt_of k arg2" arg3 arg4 arg5 "task_mm me"]
      by (simp add: switch_mm Let_def)
  qed
  moreover have ?thesis if "opt = PR_MCE_KILL"
    using that s assms(2,3) mce_kill_atomic [of arg2 arg3 arg4 arg5 me e me']
    by (simp add: switch_mce_kill prod_eq_iff)
  ultimately show ?thesis
    using s assms(2,3) by (cases opt) (auto simp: changing_def prctl_switch_def split: if_splits option.splits)
qed

text \<open>A task, and a caller whose memory and security module let every call through.\<close>

definition example_prctl_task :: "32 word prctl_task" where
  "example_prctl_task = \<lparr>pdeath_signal = 0, clear_child_tid = 0, dumpable = 1, comm = [115, 104], timer_slack_ns = 50000,
     default_timer_slack_ns = 50000, pf_mce_process = False, pf_mce_early = False, is_child_subreaper = False,
     no_new_privs = False, vm_nohugepage = False, task_mm = example_mm\<rparr>"

definition example_prctl_env :: "32 word prctl_env" where
  "example_prctl_env = \<lparr>security_task_prctl = (\<lambda>_ _ _ _ _. - ENOSYS), nsig = 64, strncpy_from_user = (\<lambda>_ n. Some (replicate (min n 3) 120)),
     writable = (\<lambda>_. True), elsewhere = (\<lambda>_ _ _. 0), mm_opt_of = (\<lambda>_. NO_OPT), mm_env = example_mm_env\<rparr>"

theorem prctl_atomic_witness:
  "prctl example_prctl_env PR_MCE_KILL 1 7 0 0 example_prctl_task =
     (- EINVAL, Nothing, example_prctl_task\<lparr>pf_mce_process := True\<rparr>)"
proof -
  let ?r = "prctl example_prctl_env PR_MCE_KILL 1 7 0 0 example_prctl_task"
  have d: "mce_kill 1 7 0 0 example_prctl_task = (- EINVAL, example_prctl_task\<lparr>pf_mce_process := True\<rparr>)"
    by (simp add: mce_kill_def PR_MCE_KILL_CLEAR_def PR_MCE_KILL_SET_def PR_MCE_KILL_EARLY_def PR_MCE_KILL_LATE_def
        PR_MCE_KILL_DEFAULT_def)
  then have r: "?r = (- EINVAL, Nothing, example_prctl_task\<lparr>pf_mce_process := True\<rparr>)"
    by (simp add: prctl_def example_prctl_env_def switch_mce_kill)
  moreover have "example_prctl_task\<lparr>pf_mce_process := True\<rparr> \<noteq> example_prctl_task" by (simp add: example_prctl_task_def)
  ultimately show ?thesis using prctl_atomic [OF r] by (simp add: EINVAL_def)
qed

section \<open>Setting and getting\<close>

definition permits :: "'l::len word prctl_env \<Rightarrow> bool" where
  "permits k \<longleftrightarrow> (\<forall>opt arg2 arg3 arg4 arg5. security_task_prctl k opt arg2 arg3 arg4 arg5 = - ENOSYS)"

definition set_then_get ::
    "'l::len word prctl_env \<Rightarrow> prctl_option \<Rightarrow> 'l word \<Rightarrow> 'l word \<Rightarrow> prctl_option \<Rightarrow> 'l word \<Rightarrow> 'l word prctl_task
      \<Rightarrow> int \<times> 'l word out" where
  "set_then_get k setopt arg2 arg3 getopt a me =
     (let (_, _, me') = prctl k setopt arg2 arg3 0 0 me; (e, out, _) = prctl k getopt a 0 0 0 me' in (e, out))"

lemma set_then_get_switch:
  "permits k \<Longrightarrow> set_then_get k setopt arg2 arg3 getopt a me =
     (let me' = snd (snd (prctl_switch k setopt arg2 arg3 0 0 me)); r = prctl_switch k getopt a 0 0 0 me' in (fst r, fst (snd r)))"
  by (simp add: set_then_get_def prctl_def permits_def Let_def split: prod.split)

text \<open>Each pair of options is a round trip: the signal at the parent's death, the name (padded to sixteen bytes), the
  timer slack (0 restores the default; the value comes back signed), the subreaper flag, the flag against huge
  pages, and the policy for memory errors (clearing it gives the default policy).\<close>

theorem prctl_roundtrip:
  fixes k :: "'l::len word prctl_env"
  assumes "permits k" "writable k a" "1 < LENGTH('l)"
  shows "(s \<le> nsig k \<longrightarrow> set_then_get k PR_SET_PDEATHSIG s 0 PR_GET_PDEATHSIG a me = (0, Number s)) \<and>
    (strncpy_from_user k p 15 = Some name \<longrightarrow>
      set_then_get k PR_SET_NAME p 0 PR_GET_NAME a me = (0, Name (name @ replicate (16 - length name) 0))) \<and>
    set_then_get k PR_SET_TIMERSLACK s 0 PR_GET_TIMERSLACK 0 me =
      (sint (if s = 0 then default_timer_slack_ns me else s), Nothing) \<and>
    set_then_get k PR_SET_CHILD_SUBREAPER s 0 PR_GET_CHILD_SUBREAPER a me = (0, Number (of_bool (s \<noteq> 0))) \<and>
    set_then_get k PR_SET_THP_DISABLE s 0 PR_GET_THP_DISABLE 0 me = (of_bool (s \<noteq> 0), Nothing) \<and>
    (s \<in> {PR_MCE_KILL_EARLY, PR_MCE_KILL_LATE, PR_MCE_KILL_DEFAULT} \<longrightarrow>
      set_then_get k PR_MCE_KILL PR_MCE_KILL_SET s PR_MCE_KILL_GET 0 me = (uint s, Nothing)) \<and>
    set_then_get k PR_MCE_KILL PR_MCE_KILL_CLEAR 0 PR_MCE_KILL_GET 0 me = (uint (PR_MCE_KILL_DEFAULT :: 'l word), Nothing)"
proof -
  note get = set_then_get_switch [OF assms(1)] prctl_switch_def put_def assms(2) Let_def TASK_COMM_LEN_def
  have "(2 :: nat) ^ 2 \<le> 2 ^ LENGTH('l)" using assms(3) by (intro power_increasing) simp_all
  then have "unat (2 :: 'l word) = 2" using unat_of_nat [of 2, where 'a = 'l] by (simp add: take_bit_eq_mod)
  then have "(2 :: 'l word) \<noteq> 0" "(2 :: 'l word) \<noteq> 1" by auto
  then show ?thesis
    by (intro conjI impI) (auto simp: get dest: leD simp: mce_kill_def mce_kill_get_def PR_MCE_KILL_CLEAR_def PR_MCE_KILL_SET_def
        PR_MCE_KILL_EARLY_def PR_MCE_KILL_LATE_def PR_MCE_KILL_DEFAULT_def)
qed

theorem prctl_roundtrip_witness:
  "set_then_get example_prctl_env PR_SET_PDEATHSIG 9 0 PR_GET_PDEATHSIG 0 example_prctl_task = (0, Number 9) \<and>
   set_then_get example_prctl_env PR_MCE_KILL PR_MCE_KILL_SET PR_MCE_KILL_EARLY PR_MCE_KILL_GET 0 example_prctl_task = (1, Nothing)"
proof -
  have "permits example_prctl_env" "writable example_prctl_env 0" "1 < LENGTH(32)" "9 \<le> nsig example_prctl_env"
    by (simp_all add: permits_def example_prctl_env_def)
  moreover have "uint (PR_MCE_KILL_EARLY :: 32 word) = 1" by (simp add: PR_MCE_KILL_EARLY_def)
  ultimately show ?thesis
    using prctl_roundtrip [where k = example_prctl_env and a = 0 and s = 9 and me = example_prctl_task]
      prctl_roundtrip [where k = example_prctl_env and a = 0 and s = PR_MCE_KILL_EARLY and me = example_prctl_task] by simp
qed

section \<open>Sequences of calls\<close>

type_synonym 'w prctl_call = "prctl_option \<times> 'w \<times> 'w \<times> 'w \<times> 'w"

definition prctl_step :: "'l::len word prctl_env \<Rightarrow> 'l word prctl_call \<Rightarrow> 'l word prctl_task \<Rightarrow> 'l word prctl_task" where
  "prctl_step k c me = (let (opt, arg2, arg3, arg4, arg5) = c in snd (snd (prctl k opt arg2 arg3 arg4 arg5 me)))"

lemma mce_kill_mm: "task_mm (snd (mce_kill arg2 arg3 arg4 arg5 me)) = task_mm me"
    "no_new_privs (snd (mce_kill arg2 arg3 arg4 arg5 me)) = no_new_privs me"
  by (simp_all add: mce_kill_def Let_def)

lemma switch_mm_step:
  "task_mm (snd (snd (prctl_switch k opt arg2 arg3 arg4 arg5 me))) =
     (if opt = PR_SET_MM then mm_step (mm_env k) (mm_opt_of k arg2, arg3, arg4, arg5) (task_mm me) else task_mm me)"
proof (cases "opt = PR_SET_MM \<or> opt = PR_MCE_KILL")
  case True
  then show ?thesis by (auto simp: switch_mm switch_mce_kill mm_step_def mce_kill_mm Let_def)
next
  case False
  then show ?thesis by (cases opt) (simp_all add: prctl_switch_def split: prod.split option.split)
qed

lemma switch_no_new_privs: "no_new_privs me \<Longrightarrow> no_new_privs (snd (snd (prctl_switch k opt arg2 arg3 arg4 arg5 me)))"
proof (cases "opt = PR_SET_MM \<or> opt = PR_MCE_KILL")
  case True
  then show "no_new_privs me \<Longrightarrow> no_new_privs (snd (snd (prctl_switch k opt arg2 arg3 arg4 arg5 me)))"
    by (auto simp: switch_mm switch_mce_kill mce_kill_mm Let_def)
next
  case False
  then show "no_new_privs me \<Longrightarrow> no_new_privs (snd (snd (prctl_switch k opt arg2 arg3 arg4 arg5 me)))"
    by (cases opt) (simp_all add: prctl_switch_def split: prod.split option.split)
qed

lemma prctl_step_cases:
  obtains (refused) "prctl_step k c me = me"
  | (made) opt arg2 arg3 arg4 arg5 where "prctl_step k c me = snd (snd (prctl_switch k opt arg2 arg3 arg4 arg5 me))"
proof -
  obtain opt arg2 arg3 arg4 arg5 where c: "c = (opt, arg2, arg3, arg4, arg5)" by (cases c)
  have "prctl_step k c me = me \<or> prctl_step k c me = snd (snd (prctl_switch k opt arg2 arg3 arg4 arg5 me))"
    by (simp add: prctl_step_def c prctl_def Let_def)
  then show ?thesis using refused made by blast
qed

text \<open>A task that has given something up: new privileges, or the change of its executable; and whose layout is sound.\<close>

definition given_up :: "'l::len word prctl_env \<Rightarrow> kfile option \<Rightarrow> 'l word prctl_task \<Rightarrow> bool" where
  "given_up k exe me \<longleftrightarrow> no_new_privs me \<and> exe_file_changed (task_mm me) \<and> exe_file (task_mm me) = exe \<and>
     layout_ok (mm_env k) (layout (task_mm me))"

lemma given_up_step:
  fixes k :: "'l::len word prctl_env"
  shows "wide_enough (mm_env k) \<Longrightarrow> given_up k exe me \<Longrightarrow> given_up k exe (prctl_step k c me)"
proof (rule prctl_step_cases [of k c me])
  fix opt and arg2 arg3 arg4 arg5 :: "'l word"
  let ?c = "(mm_opt_of k arg2, arg3, arg4, arg5)"
  assume "wide_enough (mm_env k)" "given_up k exe me"
    and s: "prctl_step k c me = snd (snd (prctl_switch k opt arg2 arg3 arg4 arg5 me))"
  then show ?thesis
    using call_exe [of "task_mm me" "mm_env k" ?c] step_layout [of "mm_env k" ?c "task_mm me"]
    unfolding given_up_def s switch_mm_step
    by (auto simp: switch_no_new_privs same_exe_def allowed_replacement_def)
qed simp

interpretation giving_up: kept_by_calls "prctl_step k" "\<lambda>me. wide_enough (mm_env k) \<longrightarrow> given_up k exe me"
  for k :: "'l::len word prctl_env" and exe
  by unfold_locales (simp add: given_up_step)



end
