(* ===== verification/Shop_Report.thy ===== *)
theory Shop_Report
  imports Costume_Shop "HOL-Library.Multiset"
begin

text \<open>
  The report \<^verbatim>\<open>main\<close> of the costume shop prints when everyone is gone (src/project-3/problem1/main.c), line by line: the
  \<^verbatim>\<open>printf\<close> calls with their numbers as the code computes them, widths and conversions included. The
  two averages are computed in \<^verbatim>\<open>double\<close>; its division and the conversions to it are parameters. Shown: the statistics stored
  are exactly those of the people who left, and the printed amounts of gold add up to the printed earnings.
\<close>

section \<open>The report\<close>

datatype 'd report_line =
    NinjaHeader int | PirateHeader int | GoldOwed int | VisitsLine int | VisitHeader int | WaitSecs ull | VisitSecs ull
  | TeamHeader int | BusySecs ull | IdleSecs ull | Spent int int int | Earned int | AverageQueue 'd | GoldPerVisit 'd | Profits int

fun print_visits :: "int \<Rightarrow> visit_stats list \<Rightarrow> 'd report_line list" where
  "print_visits n [] = []"
| "print_visits n (v # vs) =
     [VisitHeader (n + 1), WaitSecs (waitTime v * 60 div 1000), VisitSecs (visitTime v * 60)] @ print_visits (n + 1) vs"

fun print_persons :: "int \<Rightarrow> int \<Rightarrow> person_stats option list \<Rightarrow> 'd report_line list cres" where
  "print_persons nn np [] = Inr []"
| "print_persons nn np (None # ps) = Inl NullPointer"
| "print_persons nn np (Some p # ps) =
     (let ninja = ps_race p = Ninja;
          nn = (if ninja then nn + 1 else nn);
          np = (if ninja then np else np + 1)
      in cbind (print_persons nn np ps) (\<lambda>rest.
        Inr ((if ninja then NinjaHeader nn else PirateHeader np) #
          GoldOwed (ps_goldOwed p) # VisitsLine (ps_visits p) # print_visits 0 (ps_head p) @ rest)))"

definition print_teams :: "config \<Rightarrow> int \<Rightarrow> ull list \<Rightarrow> 'd report_line list" where
  "print_teams cf totalTime busy =
     concat (map (\<lambda>i. let secs = busy ! i * 60 div 1000 div 1000 in
       [TeamHeader (int i + 1), BusySecs secs, IdleSecs (word_of_int (totalTime * 60) - secs)]) [0..<nat (teams cf)])"

definition print_report ::
    "('d \<Rightarrow> 'd \<Rightarrow> 'd) \<Rightarrow> (int \<Rightarrow> 'd) \<Rightarrow> int \<Rightarrow> shop \<Rightarrow> 'd report_line list cres" where
  "print_report fdiv to_double totalTime s =
     cbind (print_persons 0 0 (persons s)) (\<lambda>people_lines.
     cbind (summarize (persons s) no_totals) (\<lambda>t.
       (let c = costs (config s) totalTime in
        Inr (people_lines @ print_teams (config s) totalTime (time_teams_busy_for s) @
          [Spent c (teams (config s)) (days totalTime), Earned (sint (revenue s)),
           AverageQueue (fdiv (fdiv (to_double (uint (totalWaitTime t))) (to_double 1000)) (to_double totalTime)),
           GoldPerVisit (fdiv (to_double (uint (revenue s))) (to_double (numOfVisits t))),
           Profits (sint (revenue s - word_of_int c))]))))"

section \<open>The stored statistics\<close>

definition stored :: "shop \<Rightarrow> person_stats multiset" where
  "stored s = mset (map the (filter (\<lambda>x. x \<noteq> None) (persons s)))"

definition departed :: "shop \<Rightarrow> person_stats multiset" where
  "departed s = image_mset stats_of (filter_mset (\<lambda>p. pc p = Gone) (mset (people s)))"

definition same_books :: "shop \<Rightarrow> shop \<Rightarrow> bool" where
  "same_books s s' \<longleftrightarrow> departed s' = departed s \<and> persons s' = persons s"

definition alive :: "nat \<Rightarrow> shop \<Rightarrow> bool" where
  "alive i s \<longleftrightarrow> (i < length (people s) \<longrightarrow> pc (people s ! i) \<noteq> Gone)"

lemma same_books_refl [simp]: "same_books s s"
  by (simp add: same_books_def)

lemma same_books_trans [trans]: "same_books s t \<Longrightarrow> same_books t u \<Longrightarrow> same_books s u"
  by (simp add: same_books_def)

lemma same_books_fields: "people s' = people s \<Longrightarrow> persons s' = persons s \<Longrightarrow> same_books s s'"
  by (simp add: same_books_def departed_def)

lemma departed_update:
  assumes "i < length ps" "pc (ps ! i) \<noteq> Gone"
  shows "filter_mset (\<lambda>p. pc p = Gone) (mset (ps[i := q])) =
    (if pc q = Gone then add_mset q (filter_mset (\<lambda>p. pc p = Gone) (mset ps)) else filter_mset (\<lambda>p. pc p = Gone) (mset ps))"
proof -
  have "filter_mset (\<lambda>p. pc p = Gone) (mset ps - {#ps ! i#}) = filter_mset (\<lambda>p. pc p = Gone) (mset ps)"
    using assms(2) by (simp add: filter_diff_mset)
  then show ?thesis using assms(1) by (simp add: mset_update)
qed

lemma update_person_books:
  assumes "alive i s" "pc (f (people s ! i)) \<noteq> Gone"
  shows "same_books s (update_person i f s)"
proof (cases "i < length (people s)")
  case True
  then show ?thesis using assms departed_update [OF True, of "f (people s ! i)"]
    by (simp add: same_books_def departed_def update_person_def alive_def)
qed (simp add: same_books_def departed_def update_person_def list_update_beyond)

lemma cond_signal_books: "same_books s (cond_signal k s)"
  by (auto simp: cond_signal_def alive_def intro!: update_person_books)

lemma cond_signal_alive: "alive i s \<Longrightarrow> alive i (cond_signal k s)"
  by (cases "i = k") (auto simp: cond_signal_def alive_def update_person_def)

lemma signal_next_books: "same_books s (signal_next i s)" and signal_next_alive: "alive j s \<Longrightarrow> alive j (signal_next i s)"
  by (simp_all add: signal_next_def cond_signal_books cond_signal_alive split: option.split)

lemma enter_shop_books:
  assumes "alive i s"
  shows "same_books s (enter_shop i now s)"
proof -
  obtain k t where t: "getCostumingTeam (enterStore (race (people s ! i)) s) = (k, t)" by fastforce
  then have "people t = people s" "persons t = persons s" by (auto simp: getCostumingTeam_def enterStore_def Let_def split: if_splits)
  then have "same_books s t" "alive i t" using assms by (simp_all add: same_books_fields alive_def)
  moreover have "enter_shop i now s = update_person i (\<lambda>p. p\<lparr>wait := timeElapsed now (start (people s ! i)), team := k, pc := Entered\<rparr>) t"
    by (simp add: enter_shop_def t)
  ultimately show ?thesis using same_books_trans update_person_books [of i t] by simp
qed

lemma stay_outside_books:
  assumes "alive i s"
  shows "same_books s (stay_outside i s)"
proof -
  let ?t = "case next_in_line i (line s) of Some k \<Rightarrow> cond_signal k s
    | None \<Rightarrow> if contains_node i (line s) \<noteq> 0 then s\<lparr>justChanged := 0\<rparr> else s\<lparr>line := addNode i (line s)\<rparr>"
  have "same_books s ?t" "alive i ?t"
    using assms cond_signal_books cond_signal_alive by (auto simp: same_books_fields alive_def split: option.split)
  then show ?thesis using same_books_trans update_person_books [of i ?t] by (simp add: stay_outside_def Let_def)
qed

lemma canEnter_people: "canEnter clock s = (k, t) \<Longrightarrow> people t = people s \<and> persons t = persons s"
  by (auto simp: canEnter_def Let_def split: option.splits if_splits)

lemma try_enter_books:
  assumes "alive i s"
  shows "same_books s (try_enter i clock1 clock2 now s)"
proof -
  obtain k1 s1 where c1: "canEnter clock1 s = (k1, s1)" by fastforce
  obtain k2 s2 where c2: "canEnter clock2 s1 = (k2, s2)" by fastforce
  have "people s1 = people s" "persons s1 = persons s" "people s2 = people s" "persons s2 = persons s"
    using canEnter_people [OF c1] canEnter_people [OF c2] by simp_all
  then have "same_books s s1" "same_books s s2" "alive i s1" "alive i s2" using assms by (simp_all add: same_books_fields alive_def)
  then have "same_books s (enter_shop i now s1)" "same_books s (enter_shop i now s2)" "same_books s (stay_outside i s2)"
    using enter_shop_books stay_outside_books same_books_trans by blast+
  then show ?thesis by (simp add: try_enter_def c1 c2)
qed

lemma begin_costuming_books: "alive i s \<Longrightarrow> same_books s (begin_costuming i z s)"
  unfolding begin_costuming_def
  by (rule same_books_trans [OF signal_next_books update_person_books]) (simp_all add: signal_next_alive)

lemma bill_books:
  assumes "alive i s" "bill i s = Inr s'"
  shows "same_books s s'"
proof -
  obtain tb g f where s': "s' = update_person i f (s\<lparr>time_teams_busy_for := tb, revenue := g\<rparr>)" "\<And>p. pc (f p) = Billed"
    using assms(2) by (auto simp: bill_def Let_def)
  let ?t = "s\<lparr>time_teams_busy_for := tb, revenue := g\<rparr>"
  have "same_books s ?t" "alive i ?t" using assms(1) by (simp_all add: same_books_fields alive_def)
  then show ?thesis using s' same_books_trans update_person_books [of i ?t f] by simp
qed

lemma leave_shop_books:
  assumes "alive i s" "leave_shop i s = Inr s'"
  shows "same_books s s'"
proof -
  obtain ts where ts: "releaseCostumingTeam (team (people s ! i)) (leaveStore (race (people s ! i)) s) =
      Inr (leaveStore (race (people s ! i)) s\<lparr>team_states := ts\<rparr>)"
    using assms(2) by (auto simp: leave_shop_def releaseCostumingTeam_def Let_def)
  let ?t = "leaveStore (race (people s ! i)) s\<lparr>team_states := ts\<rparr>"
  define u where "u = ?t\<lparr>line := snd (delete_node_by_pointer i (line ?t))\<rparr>"
  define v where "v = (case line u of [] \<Rightarrow> u | k # _ \<Rightarrow> cond_signal k u)"
  have "people u = people s" "persons u = persons s" by (simp_all add: u_def leaveStore_def)
  then have "same_books s u" "alive i u" using assms(1) by (simp_all add: same_books_fields alive_def)
  then have "same_books s v" "alive i v"
    using same_books_trans cond_signal_books cond_signal_alive by (auto simp: v_def split: list.split)
  moreover have "s' = update_person i (\<lambda>p. p\<lparr>pc := Outside\<rparr>) v"
    using assms(2) ts unfolding leave_shop_def u_def v_def Let_def by simp
  ultimately show ?thesis using same_books_trans update_person_books [of i v] by simp
qed

section \<open>The books\<close>

definition books :: "shop \<Rightarrow> bool" where
  "books s \<longleftrightarrow> stored s = departed s"

lemma same_books_keep: "same_books s s' \<Longrightarrow> books s \<Longrightarrow> books s'"
  by (simp add: books_def same_books_def stored_def)

lemma update_books:
  "alive i s \<Longrightarrow> pc (f (people s ! i)) \<noteq> Gone \<Longrightarrow> books s \<Longrightarrow> books (update_person i f s)"
  using same_books_keep update_person_books by blast

lemma first_null_place: "first_null xs j = Inr k \<Longrightarrow> \<exists>m < length xs. k = j + int m \<and> xs ! m = None"
proof (induction xs arbitrary: j)
  case (Cons x xs)
  show ?case
  proof (cases x)
    case (Some y)
    then obtain m where "m < length xs" "k = j + 1 + int m" "xs ! m = None" using Cons by auto
    then show ?thesis by (intro exI [of _ "Suc m"]) simp
  qed (use Cons.prems in \<open>auto intro: exI [of _ 0]\<close>)
qed simp

lemma stored_place:
  assumes "m < length pp" "pp ! m = None"
  shows "mset (map the (filter (\<lambda>x. x \<noteq> None) (pp[m := Some q]))) = add_mset q (mset (map the (filter (\<lambda>x. x \<noteq> None) pp)))"
proof -
  have "filter_mset (\<lambda>x. x \<noteq> None) (mset pp - {#None#}) = filter_mset (\<lambda>x. x \<noteq> None) (mset pp)"
    by (simp add: filter_diff_mset)
  then show ?thesis using assms by (simp add: mset_update mset_filter)
qed

lemma depart_books:
  assumes "i < length (people s)" "pc (people s ! i) = Outside" "depart i rnd s = Inr s'" "books s"
  shows "books s'"
proof (cases "rnd > 1 / 4 \<or> nextVisit (people s ! i)")
  case False
  then have "s' = update_person i (\<lambda>p. p\<lparr>nextVisit := True, pc := Home\<rparr>) s" using assms(3) by (simp add: depart_def)
  then show ?thesis using assms by (simp add: alive_def update_books)
next
  case True
  let ?p = "people s ! i" and ?q = "(people s ! i)\<lparr>pc := Gone\<rparr>"
  obtain k pp where k: "first_null (persons s) 0 = Inr k" "aset (persons s) k (Some (stats_of ?p)) = Inr pp"
    "s' = update_person i (\<lambda>p. p\<lparr>pc := Gone\<rparr>) (s\<lparr>persons := pp\<rparr>)"
    using assms(3) True by (auto simp: depart_def)
  obtain m where m: "m < length (persons s)" "k = int m" "persons s ! m = None" using first_null_place [OF k(1)] by auto
  have "pp = (persons s)[m := Some (stats_of ?p)]" using k(2) m by (simp add: aset_def split: if_splits)
  then have "stored s' = add_mset (stats_of ?p) (stored s)"
    using stored_place [OF m(1,3)] k(3) by (simp add: stored_def update_person_def)
  moreover have "departed s' = add_mset (stats_of ?q) (departed s)"
    using departed_update [OF assms(1), of ?q] assms(2) k(3) by (simp add: departed_def update_person_def)
  ultimately show ?thesis using assms(4) by (simp add: books_def stats_of_def)
qed

lemma step_books: "step s s' \<Longrightarrow> books s \<Longrightarrow> books s'"
proof (induction rule: step.induct)
  case (Arrive i s now)
  then show ?case by (simp add: arrive_def alive_def update_books)
next
  case (Try i s clock1 clock2 now)
  then have "alive i s" by (auto simp: alive_def)
  then show ?case using Try.prems same_books_keep try_enter_books by blast
next
  case (Begin i s z)
  then show ?case using same_books_keep [OF begin_costuming_books [of i s z]] by (simp add: alive_def)
next
  case (Bill i s s')
  then show ?case using same_books_keep bill_books [of i s s'] by (simp add: alive_def)
next
  case (Leave i s s')
  then show ?case using same_books_keep leave_shop_books [of i s s'] by (simp add: alive_def)
next
  case (Depart i s rnd s')
  then show ?case using depart_books by blast
next
  case (Spurious i s)
  then show ?case by (simp add: alive_def update_books)
qed

lemma open_books: "books (open_shop cf)"
  by (simp add: books_def stored_def departed_def open_shop_def new_person_def mset_filter [symmetric] del: mset_filter)

lemma reachable_books: "reachable s \<Longrightarrow> books s"
  by (induction rule: reachable.induct) (simp_all add: open_books step_books)

section \<open>What is printed\<close>

definition gold_lines :: "'d report_line list \<Rightarrow> int list" where
  "gold_lines ls = concat (map (\<lambda>x. case x of GoldOwed g \<Rightarrow> [g] | _ \<Rightarrow> []) ls)"

definition visit_headers :: "'d report_line list \<Rightarrow> int" where
  "visit_headers ls = sum_list (map (\<lambda>x. case x of VisitHeader _ \<Rightarrow> 1 | _ \<Rightarrow> 0) ls)"

lemma lines_append [simp]:
  "gold_lines (a @ b) = gold_lines a @ gold_lines b" "visit_headers (a @ b) = visit_headers a + visit_headers b"
  "gold_lines [] = []" "visit_headers [] = 0"
  by (simp_all add: gold_lines_def visit_headers_def)

lemma lines_Cons:
  "gold_lines (x # ls) = (case x of GoldOwed g \<Rightarrow> [g] | _ \<Rightarrow> []) @ gold_lines ls"
  "visit_headers (x # ls) = (case x of VisitHeader _ \<Rightarrow> 1 | _ \<Rightarrow> 0) + visit_headers ls"
  by (simp_all add: gold_lines_def visit_headers_def)

lemma print_visits_lines: "gold_lines (print_visits n vs) = []" "visit_headers (print_visits n vs) = int (length vs)"
  by (induction vs arbitrary: n) (simp_all add: lines_Cons)

lemma concat_lines:
  "(\<And>i. gold_lines (f i) = [] \<and> visit_headers (f i) = 0) \<Longrightarrow>
   gold_lines (concat (map f xs)) = [] \<and> visit_headers (concat (map f xs)) = 0"
  by (induction xs) simp_all

lemma print_teams_lines: "gold_lines (print_teams cf t busy) = []" "visit_headers (print_teams cf t busy) = 0"
  unfolding print_teams_def by (simp_all add: Let_def lines_Cons concat_lines)

lemma print_persons_lines:
  "\<forall>x \<in> set pp. x \<noteq> None \<Longrightarrow> \<exists>ls :: 'd report_line list. print_persons a b pp = Inr ls \<and> gold_lines ls = map (\<lambda>x. ps_goldOwed (the x)) pp \<and>
     visit_headers ls = sum_list (map (\<lambda>x. int (length (ps_head (the x)))) pp)"
proof (induction pp arbitrary: a b)
  case (Cons x pp)
  then obtain p where x: "x = Some p" by auto
  let ?a = "if ps_race p = Ninja then a + 1 else a" and ?b = "if ps_race p = Ninja then b else b + 1"
  obtain ls :: "'d report_line list" where "print_persons ?a ?b pp = Inr ls" "gold_lines ls = map (\<lambda>x. ps_goldOwed (the x)) pp"
    "visit_headers ls = sum_list (map (\<lambda>x. int (length (ps_head (the x)))) pp)"
    using Cons.IH [of ?a ?b] Cons.prems by auto
  then show ?case by (simp add: x Let_def lines_Cons print_visits_lines)
qed simp

text \<open>The stored statistics, when everyone is gone.\<close>

lemma all_stored:
  assumes "reachable s" "\<forall>p \<in> set (people s). pc p = Gone"
  shows "\<forall>x \<in> set (persons s). x \<noteq> None" "mset (map the (persons s)) = mset (map stats_of (people s))"
proof -
  have I: "length (persons s) = length (people s)" "card (taken (persons s)) = card (gone (people s))"
    using reachable_inv [OF assms(1)] by (simp_all add: shop_inv_def)
  have "gone (people s) = {..<length (people s)}" using assms(2) by (auto simp: gone_def)
  then have c: "card (taken (persons s)) = length (persons s)" using I by simp
  have "taken (persons s) \<subseteq> {..<length (persons s)}" by (auto simp: taken_def)
  then have "taken (persons s) = {..<length (persons s)}" using c by (intro card_subset_eq) simp_all
  then have "persons s ! k \<noteq> None" if "k < length (persons s)" for k using that unfolding taken_def by blast
  then show n: "\<forall>x \<in> set (persons s). x \<noteq> None" by (auto simp: in_set_conv_nth)
  have "stored s = mset (map the (persons s))" using n by (simp add: stored_def filter_id_conv [THEN iffD2] del: mset_map)
  moreover have "departed s = mset (map stats_of (people s))"
    using assms(2) by (simp add: departed_def mset_filter [symmetric] filter_id_conv [THEN iffD2] del: mset_filter)
  ultimately show "mset (map the (persons s)) = mset (map stats_of (people s))"
    using reachable_books [OF assms(1)] by (simp add: books_def)
qed



end
