(* ===== verification/Spec2Isabelle.thy ===== *)
theory Spec2Isabelle
  imports Mem_Properties Intersection Shop_Policy Commander_V1 Commander_V0 Ancestry Interceptor Creds Sessions Rlimits Priority
    Usage Uts Sysinfo Prctl Shop_Report
begin

text \<open>
  \<^bold>\<open>A verification of the CS3013 projects\<close>

  The repository holds five course projects in C. They share no code, but they share the C language:
  arrays with bounds, strings, system calls, threads. The theory \<open>Prelude\<close> holds what the models share:
  computations that end in a value or a fault (\<open>cres\<close>), C arrays (\<open>aget\<close>, \<open>aset\<close>), \<^verbatim>\<open>strtok\<close> and \<^verbatim>\<open>atoi\<close>, error numbers.
  A fault is an execution the language gives no meaning: an access outside an array, the use of an
  unset object, a null pointer. A definition keeps the name of the function it translates.

  \<^bold>\<open>Project 4: memory manager\<close> (src/project-4/main.c), theories \<open>Bitfield\<close>, \<open>Page_Swap\<close>, \<open>Mem_Manager\<close>,
  \<open>Single_Process\<close>, \<open>Mem_Properties\<close>. A simulated machine with four frames of 16 bytes, page tables that
  are themselves pages, and a swap space. \<open>Bitfield\<close> is the packed page-table entry; \<open>Page_Swap\<close> the swap space and the
  replacement \<open>swapPage\<close>, a recursion written with fuel; \<open>Mem_Manager\<close> the instructions \<open>mapInst\<close>, \<open>storeInst\<close>,
  \<open>loadInst\<close>, the parser \<open>preProcess\<close> and \<open>main\<close>. Shown: the recursion ends within twenty levels on every
  state (so the fuel of the model is enough and the result does not depend on it); a replacement never moves the
  table of the process it serves; every array keeps its size; the parser inverts printing; a store changes one byte and a
  refused store nothing; a session of one process answers as a flat memory of 64 bytes with page
  protection does, page replacement included (a refinement); with more processes the code reads outside its swap
  array. The lemmas on replacement are proved once in the locale \<open>swap_invariant\<close> and interpreted for
  the shape of the state, the caller's table, the free list and the replies.

  \<^bold>\<open>Project 3, problem 2: intersection\<close> (src/project-3/problem2/main.c), theories \<open>Lines\<close>, \<open>Intersection\<close>. Cars are
  threads; a semaphore lets one at a time call \<open>move\<close>. The step relation \<open>step\<close> interleaves spawning, moving and
  finishing in every order. Shown for all reachable states: at most one car in a quadrant and three on the
  road, flags and counter exact; whenever a car has moves left some car can move (no deadlock); \<open>move\<close>
  meets no fault; a car entering from its lane is the first in line; every call advances a car on its route
  or leaves it where it was. The waiting lines are the locales \<open>member_line\<close> and \<open>waiting_line\<close> of \<open>Lines\<close>.

  \<^bold>\<open>Project 3, problem 1: costume shop\<close> (src/project-3/problem1/main.c), theories \<open>Costume_Shop\<close>, \<open>Shop_Policy\<close>, \<open>Shop_Report\<close>. Ninjas and
  pirates are threads that share teams; the critical sections of \<open>thread\<close> are the operations, condition variables lose
  signals and wake up spuriously. Shown for all reachable states: the two kinds are never inside together, there
  are never more people than teams, teams are exclusive, the money adds up, no index is outside its array; every accepted command
  line has a run that serves everyone, and then the report of \<open>main\<close> is complete
  and balances; a pirate who has waited too long
  keeps ninjas out; and a state in which the wake-up of waiting people is lost can be reached.

  \<^bold>\<open>Project 1: Mid-Day Commander\<close> (src/project-1/v0, v1, v2), theories \<open>Commander\<close> (version 2), \<open>Commander_V1\<close>, \<open>Commander_V0\<close>. The
  program reads a selection, runs a command in a child process and reports its statistics. Standard input is a list of
  characters, output and children a list of events; what the system measures is a parameter. Shown: the main
  loop of version 2 ends on every input (one round more than there are characters is enough fuel); commands are numbered
  in order and the hundredth is written outside the array; argument splitting returns all words or never
  ends; the list of background processes is exact under every interleaving of starts and ends; a session of version 2
  without background commands is a session of version 1, elapsed times apart (equivalence); version 0 loops
  for ever when a letter is typed.

  \<^bold>\<open>Project 2: system calls\<close> (src/project-2), theories \<open>Ancestry\<close> (the call that reports a process's relatives and the program
  procAncestry), \<open>Interceptor\<close> (the module that replaces system calls). The kernel's process table, the
  memory, the original calls and the numbers of \<^verbatim>\<open>PAGE_OFFSET\<close> are parameters. Shown: what is stored and printed
  for a process, the list head reported as a sibling, and that the task itself is freed; the search for the table
  returns the first match or never ends; loading changes five entries without a protection fault and unloading restores
  memory; in between every intercepted call behaves as the original and logs what it should.

  \<^bold>\<open>Project 0: kernel file\<close> (src/project-0/sys.c), theories \<open>Creds\<close> (the ten calls on
  user and group numbers), \<open>Sessions\<close> (process groups and sessions), \<open>Rlimits\<close> (resource
  limits, on the 32-bit machine of the projects), \<open>Priority\<close> (scheduling priorities),
  \<open>Usage\<close> (the getters, times and counters of a process), \<open>Uts\<close> (host names and
  \<^verbatim>\<open>uname\<close>), \<open>Sysinfo\<close> (memory figures), \<open>Mm_Map\<close>
  (\<^verbatim>\<open>PR_SET_MM\<close>) and \<open>Prctl\<close>. Where \<^verbatim>\<open>unsigned long\<close>
  matters its width is a type parameter. Namespaces, capabilities, allocation and the security module are parameters.
  Shown: without capabilities no sequence of calls reaches a number the process does not have (proved in the locale
  \<open>confining_calls\<close>, interpreted for users, for groups and for the hard limits); a privileged
  \<^verbatim>\<open>setuid\<close> drops all numbers for good and equals \<^verbatim>\<open>setreuid\<close> and
  \<^verbatim>\<open>setresuid\<close>; a failing call changes nothing; in every reachable state a process group lies
  within one session; \<^verbatim>\<open>setsid\<close> gives a session and a group with one member; without the
  capability no hard limit is raised and a soft limit exceeds its hard limit only where the code stores one second of
  processor time for none; \<^verbatim>\<open>setpriority\<close> succeeds exactly when every task it is about may be
  set, and \<^verbatim>\<open>getpriority\<close> then returns the value; memory figures are scaled without loss, and
  to pages in the compatibility call, whose loop ends; a host name is read back as set; in every sequence of
  \<^verbatim>\<open>prctl\<close> calls the executable changes at most once, \<open>no_new_privs\<close> stays, and
  the layout of the address space stays sound on a 64-bit machine (on a 32-bit one the check can be passed by a heap
  inside the data); a failing \<^verbatim>\<open>prctl\<close> changes nothing but, in one case, a flag. What every
  call keeps is proved for sequences in the locale \<open>kept_by_calls\<close> of \<open>Prelude\<close>, interpreted
  for soft limits, layouts, vectors, executables and what a task gave up.

  \<^bold>\<open>Not modelled.\<close> The text of printed lines where it only reports what an event of the model
  records; the three greeting calls of sys.c, which only print; the declarations of syscalls.h; hello.c and
  testcalls.c, which only print; failures of \<^verbatim>\<open>fork\<close>, \<^verbatim>\<open>execvp\<close>,
  \<^verbatim>\<open>pthread_create\<close> and \<^verbatim>\<open>malloc\<close> where the code does not handle them.
\<close>

end
